(* ===== verification/Prelude.thy ===== *)
theory Prelude
  imports Complex_Main "HOL-Library.AList" "HOL-Library.List_Lexorder" "HOL-Library.Char_ord"
begin

text \<open>
  Shared vocabulary of the development: the exceptions the Python code can raise, computations
  that return or raise, computations over a mutable state that return or raise, Python's
  insertion-ordered \<^verbatim>\<open>dict\<close> as an association list, and the lemma collections the component
  theories extend.

  \<^item> \<open>'a result\<close> is what a pure Python function gives back: \<open>Inl e\<close> for a raised exception,
    \<open>Inr v\<close> for a returned value.
  \<^item> \<open>('s, 'a) action\<close> is a Python function that changes a state \<open>'s\<close> (the files of a
    dataset): it gives the result and the state that is left behind, also when it raises.
  \<^item> A \<^verbatim>\<open>dict\<close> is an association list in insertion order; \<open>AList.update\<close> replaces the
    value of a key that is there in place and appends a new key at the end, as Python does.
\<close>

named_theorems py_simps \<open>unfolding of the result and action combinators\<close>
named_theorems wf_intros \<open>introduction rules for the well-formedness invariants\<close>

section \<open>Exceptions\<close>

text \<open>
  \<open>CalledProcessError\<close> is what \<^verbatim>\<open>subprocess.run(..., check=True)\<close> raises; it carries the
  directory of the failed run. \<open>Unmodelled\<close> is not a Python exception: it marks an input for
  which the model makes no statement (a non-finite float, a \<^verbatim>\<open>bool\<close> used as a number, the text
  of a nested container). No handler of the model catches it.
\<close>

datatype py_error =
    KeyError string
  | TypeError
  | ValueError
  | IndexError
  | ZeroDivisionError
  | AttributeError string
  | StatisticsError
  | FileNotFoundError string
  | NotADirectoryError string
  | JSONDecodeError string
  | CalledProcessError string
  | SystemExit nat
  | Unmodelled

type_synonym 'a result = "py_error + 'a"

section \<open>Computations that return or raise\<close>

definition bindE :: "'a result \<Rightarrow> ('a \<Rightarrow> 'b result) \<Rightarrow> 'b result" where
  "bindE m f = (case m of Inl e \<Rightarrow> Inl e | Inr x \<Rightarrow> f x)"

text \<open>A list comprehension or loop body that may raise: left to right, first exception wins.\<close>

fun mapE :: "('a \<Rightarrow> 'b result) \<Rightarrow> 'a list \<Rightarrow> 'b list result" where
  "mapE f [] = Inr []"
| "mapE f (x # xs) = bindE (f x) (\<lambda>y. bindE (mapE f xs) (\<lambda>ys. Inr (y # ys)))"

text \<open>A loop that threads a value through bodies that may raise.\<close>

fun foldE :: "('a \<Rightarrow> 'b \<Rightarrow> 'b result) \<Rightarrow> 'a list \<Rightarrow> 'b \<Rightarrow> 'b result" where
  "foldE f [] s = Inr s"
| "foldE f (x # xs) s = bindE (f x s) (foldE f xs)"

lemma bindE_simps [simp, py_simps]:
  "bindE (Inl e) f = Inl e"
  "bindE (Inr x) f = f x"
  by (simp_all add: bindE_def)

lemma bindE_Inr_iff: "bindE m f = Inr y \<longleftrightarrow> (\<exists>x. m = Inr x \<and> f x = Inr y)"
  by (cases m) simp_all

lemma bindE_Inl_iff: "bindE m f = Inl e \<longleftrightarrow> m = Inl e \<or> (\<exists>x. m = Inr x \<and> f x = Inl e)"
  by (cases m) simp_all

lemma bindE_InrE:
  assumes "bindE m f = Inr y"
  obtains x where "m = Inr x" and "f x = Inr y"
  using assms by (auto simp: bindE_Inr_iff)

lemma bindE_assoc: "bindE (bindE m f) g = bindE m (\<lambda>x. bindE (f x) g)"
  by (cases m) simp_all

lemma bindE_cong [fundef_cong]:
  assumes "m = m'" and "\<And>x. m' = Inr x \<Longrightarrow> f x = f' x"
  shows "bindE m f = bindE m' f'"
  using assms by (cases m') simp_all

lemma mapE_cong [fundef_cong]:
  assumes "xs = ys" and "\<And>x. x \<in> set ys \<Longrightarrow> f x = g x"
  shows "mapE f xs = mapE g ys"
  using assms(2) unfolding assms(1) by (induction ys) simp_all

lemma mapE_Inr_iff:
  "mapE f xs = Inr ys \<longleftrightarrow> length ys = length xs \<and> (\<forall>i < length xs. f (xs ! i) = Inr (ys ! i))"
proof (induction xs arbitrary: ys)
  case Nil
  then show ?case by auto
next
  case (Cons x xs)
  show ?case
    by (cases ys) (auto simp: bindE_Inr_iff Cons.IH nth_Cons' less_Suc_eq_0_disj)
qed

lemma mapE_length: "mapE f xs = Inr ys \<Longrightarrow> length ys = length xs"
  by (simp add: mapE_Inr_iff)

lemma mapE_total: "(\<And>x. x \<in> set xs \<Longrightarrow> f x = Inr (g x)) \<Longrightarrow> mapE f xs = Inr (map g xs)"
  by (induction xs) simp_all

lemma mapE_Inr: "mapE (\<lambda>x. Inr (g x)) xs = Inr (map g xs)"
  by (rule mapE_total) simp

lemma mapE_append:
  "mapE f (xs @ ys) = bindE (mapE f xs) (\<lambda>us. bindE (mapE f ys) (\<lambda>vs. Inr (us @ vs)))"
  by (induction xs) (auto simp: bindE_assoc bindE_def split: sum.splits)

lemma mapE_Inl: "mapE f xs = Inl e \<Longrightarrow> \<exists>x \<in> set xs. f x = Inl e"
  by (induction xs) (auto simp: bindE_Inl_iff)

lemma mapE_raises: "x \<in> set xs \<Longrightarrow> isl (f x) \<Longrightarrow> isl (mapE f xs)"
  by (induction xs) (auto simp: bindE_def split: sum.splits)

lemma mapE_tag: "mapE (\<lambda>k. bindE (f k) (\<lambda>s. Inr (k, s))) ks = Inr d \<Longrightarrow> map fst d = ks"
  by (induction ks arbitrary: d) (auto elim!: bindE_InrE)

text \<open>A dictionary display \<^verbatim>\<open>{k1: e1, k2: e2, ...}\<close> whose entries may raise.\<close>

definition displayE :: "('k \<times> 'v result) list \<Rightarrow> ('k \<times> 'v) list result" where
  "displayE krs = mapE (\<lambda>(k, r). bindE r (\<lambda>v. Inr (k, v))) krs"

lemma displayE_Inr_iff: "displayE krs = Inr d \<longleftrightarrow> krs = map (\<lambda>(k, v). (k, Inr v)) d"
proof (induction krs arbitrary: d)
  case Nil
  then show ?case by (auto simp: displayE_def)
next
  case (Cons kr krs)
  then show ?case
    by (cases d; cases kr) (auto simp: displayE_def bindE_Inr_iff)
qed

lemma displayE_get: "displayE krs = Inr d \<Longrightarrow> map_of krs k = map_option Inr (map_of d k)"
proof (unfold displayE_Inr_iff, hypsubst)
  show "map_of (map (\<lambda>(k, v). (k, Inr v)) d) k = map_option Inr (map_of d k)"
    by (induction d) auto
qed

lemma displayE_keys: "displayE krs = Inr d \<Longrightarrow> map fst d = map fst krs"
  by (auto simp: displayE_Inr_iff)

lemma displayE_mem: "displayE krs = Inr d \<Longrightarrow> (k, r) \<in> set krs \<Longrightarrow> \<exists>v. r = Inr v"
  by (auto simp: displayE_Inr_iff)

lemma foldE_append: "foldE f (xs @ ys) s = bindE (foldE f xs s) (foldE f ys)"
proof (induction xs arbitrary: s)
  case Nil
  then show ?case by simp
next
  case (Cons x xs)
  then show ?case by (cases "f x s") simp_all
qed

lemma foldE_total: "(\<And>x s. x \<in> set xs \<Longrightarrow> f x s = Inr (g x s)) \<Longrightarrow> foldE f xs s = Inr (fold g xs s)"
  by (induction xs arbitrary: s) simp_all

lemma foldE_invariant:
  assumes "foldE f xs s = Inr t" and "P s"
    and "\<And>x s t. x \<in> set xs \<Longrightarrow> P s \<Longrightarrow> f x s = Inr t \<Longrightarrow> P t"
  shows "P t"
  using assms
proof (induction xs arbitrary: s)
  case Nil
  then show ?case by simp
next
  case (Cons x xs)
  from Cons.prems(1) obtain s' where s': "f x s = Inr s'" "foldE f xs s' = Inr t"
    by (auto elim: bindE_InrE)
  have "P s'" using Cons.prems(2,3) s'(1) by (meson list.set_intros(1))
  with s'(2) show ?case using Cons.IH Cons.prems(3) by (meson list.set_intros(2))
qed

section \<open>Computations over a state\<close>

type_synonym ('s, 'a) action = "'s \<Rightarrow> 'a result \<times> 's"

definition returnA :: "'a \<Rightarrow> ('s, 'a) action" where
  "returnA x s = (Inr x, s)"

definition liftA :: "'a result \<Rightarrow> ('s, 'a) action" where
  "liftA r s = (r, s)"

definition bindA :: "('s, 'a) action \<Rightarrow> ('a \<Rightarrow> ('s, 'b) action) \<Rightarrow> ('s, 'b) action" where
  "bindA m f s = (case m s of (Inl e, s') \<Rightarrow> (Inl e, s') | (Inr x, s') \<Rightarrow> f x s')"

definition getA :: "('s \<Rightarrow> 'a) \<Rightarrow> ('s, 'a) action" where
  "getA f s = (Inr (f s), s)"

definition modifyA :: "('s \<Rightarrow> 's) \<Rightarrow> ('s, unit) action" where
  "modifyA f s = (Inr (), f s)"

fun forA :: "'a list \<Rightarrow> ('a \<Rightarrow> ('s, unit) action) \<Rightarrow> ('s, unit) action" where
  "forA [] f = returnA ()"
| "forA (x # xs) f = bindA (f x) (\<lambda>_. forA xs f)"

lemma forA_cong [fundef_cong]:
  assumes "xs = ys" and "\<And>x. x \<in> set ys \<Longrightarrow> f x = g x"
  shows "forA xs f = forA ys g"
  using assms(2) unfolding assms(1) by (induction ys) simp_all

lemmas action_defs = returnA_def liftA_def bindA_def getA_def modifyA_def

lemma bindA_simps [simp]:
  "bindA (returnA x) f = f x"
  "bindA (liftA (Inr x)) f = f x"
  "bindA (liftA (Inl e)) f s = (Inl e, s)"
  "bindA (getA g) f s = f (g s) s"
  by (simp_all add: action_defs fun_eq_iff)

lemma bindA_modify [simp]: "bindA (modifyA h) f s = f () (h s)"
  by (simp add: action_defs)

lemma bindA_assoc: "bindA (bindA m f) g = bindA m (\<lambda>x. bindA (f x) g)"
  by (rule ext) (simp add: bindA_def split: prod.split sum.split)

text \<open>What an action leaves alone whether it returns or raises.\<close>

definition keeps :: "('s \<Rightarrow> 'v) \<Rightarrow> ('s, 'a) action \<Rightarrow> bool" where
  "keeps f m \<longleftrightarrow> (\<forall>s. f (snd (m s)) = f s)"

lemma keeps_basic [simp, intro]:
  "keeps f (returnA x)" "keeps f (liftA r)" "keeps f (getA g)"
  by (simp_all add: keeps_def action_defs)

lemma keeps_modify: "(\<And>s. f (h s) = f s) \<Longrightarrow> keeps f (modifyA h)"
  by (simp add: keeps_def action_defs)

lemma keeps_bind: "keeps f m \<Longrightarrow> (\<And>x. keeps f (g x)) \<Longrightarrow> keeps f (bindA m g)"
  unfolding keeps_def bindA_def
  by (auto split: prod.split sum.split) (metis snd_conv)+

lemma keeps_for: "(\<And>x. x \<in> set xs \<Longrightarrow> keeps f (g x)) \<Longrightarrow> keeps f (forA xs g)"
  by (induction xs) (auto intro: keeps_bind)

lemma keeps_snd: "keeps f m \<Longrightarrow> m s = (r, t) \<Longrightarrow> f t = f s"
  unfolding keeps_def by (metis snd_conv)

section \<open>Dictionaries\<close>

type_synonym 'v dict = "(string \<times> 'v) list"

abbreviation dict_put :: "string \<Rightarrow> 'v \<Rightarrow> 'v dict \<Rightarrow> 'v dict" where
  "dict_put \<equiv> AList.update"

abbreviation dict_get :: "'v dict \<Rightarrow> string \<Rightarrow> 'v option" where
  "dict_get \<equiv> map_of"

abbreviation dict_keys :: "'v dict \<Rightarrow> string list" where
  "dict_keys d \<equiv> map fst d"

text \<open>What the code relies on of a dictionary: the interface its clients are proved against.\<close>

locale dictionary =
  fixes empty :: 'd
    and put :: "'k \<Rightarrow> 'v \<Rightarrow> 'd \<Rightarrow> 'd"
    and get :: "'d \<Rightarrow> 'k \<Rightarrow> 'v option"
    and keys :: "'d \<Rightarrow> 'k list"
    and wf :: "'d \<Rightarrow> bool"
  assumes get_empty: "get empty k = None"
    and get_put: "get (put k v d) k' = (if k' = k then Some v else get d k')"
    and keys_empty: "keys empty = []"
    and keys_put: "keys (put k v d) = (if k \<in> set (keys d) then keys d else keys d @ [k])"
    and keys_get: "k \<in> set (keys d) \<longleftrightarrow> get d k \<noteq> None"
    and wf_distinct: "wf d \<longleftrightarrow> distinct (keys d)"
begin

lemma wf_empty: "wf empty"
  by (simp add: wf_distinct keys_empty)

lemma wf_put: "wf d \<Longrightarrow> wf (put k v d)"
  by (simp add: wf_distinct keys_put)

text \<open>Counting with \<^verbatim>\<open>d[k] = d.get(k, 0) + n\<close>: one step adds to one key only.\<close>

lemma get_put_same: "get (put k v d) k = Some v"
  by (simp add: get_put)

lemma get_put_other: "k' \<noteq> k \<Longrightarrow> get (put k v d) k' = get d k'"
  by (simp add: get_put)

lemma get_fold_put:
  "k \<notin> set (map fst kvs) \<Longrightarrow> get (fold (\<lambda>(k, v). put k v) kvs d) k = get d k"
  by (induction kvs arbitrary: d) (auto simp: get_put)

lemma keys_fold_put:
  "set (keys (fold (\<lambda>(k, v). put k v) kvs d)) = set (keys d) \<union> set (map fst kvs)"
  by (induction kvs arbitrary: d) (auto simp: keys_put split: if_splits)

end

lemma dict_keys_put:
  "dict_keys (dict_put k v d) = (if k \<in> set (dict_keys d) then dict_keys d else dict_keys d @ [k])"
  by (induction d) auto

interpretation pydict: dictionary "[]" dict_put dict_get dict_keys "\<lambda>d. distinct (dict_keys d)"
proof
  show "dict_get (dict_put k v d) k' = (if k' = k then Some v else dict_get d k')"
    for k k' and v :: 'a and d
    by (simp add: update_conv')
  show "k \<in> set (dict_keys d) \<longleftrightarrow> dict_get d k \<noteq> None" for k and d :: "'a dict"
    by (simp add: map_of_eq_None_iff)
qed (simp_all add: dict_keys_put)

section \<open>Lists\<close>

lemma fold_append_map: "fold (\<lambda>x acc. acc @ [f x]) xs acc = acc @ map f xs"
  by (induction xs arbitrary: acc) simp_all

lemma sum_list_ge_mult:
  fixes lo :: "'a::linordered_idom"
  shows "(\<And>x. x \<in> set xs \<Longrightarrow> lo \<le> x) \<Longrightarrow> of_nat (length xs) * lo \<le> sum_list xs"
  by (induction xs) (simp_all add: algebra_simps add_mono)

lemma sum_list_le_mult:
  fixes hi :: "'a::linordered_idom"
  shows "(\<And>x. x \<in> set xs \<Longrightarrow> x \<le> hi) \<Longrightarrow> sum_list xs \<le> of_nat (length xs) * hi"
  by (induction xs) (simp_all add: algebra_simps add_mono)

end
