(* ===== verification/Binary64.thy ===== *)
theory Binary64
  imports Prelude "HOL-Library.Log_Nat"
begin

text \<open>
  The arithmetic of Python's \<^verbatim>\<open>float\<close>: a finite float is the rational number it stands for, and
  every operation is the exact operation followed by \<open>fl\<close>, rounding to the nearest number with a
  53-bit significand, ties to even. The exponent range of \<open>fl\<close> is not bounded: overflow, underflow,
  infinities, NaN and the sign of zero are outside the model. The last section relates \<open>fl\<close> to the
  rounding of the full format: the two agree wherever the latter neither overflows nor underflows. The interface the other theories
  use is the locale \<open>rounding\<close>: rounding is monotone, odd, exact on representable numbers,
  compatible with scaling by powers of two, and has relative error at most \<open>2 ^ -53\<close>.
\<close>

section \<open>Rounding to an integer\<close>

definition rhe :: "rat \<Rightarrow> int" where
  "rhe x = (let f = \<lfloor>x\<rfloor>; d = x - of_int f in
     if d < 1 / 2 then f else if 1 / 2 < d then f + 1 else if even f then f else f + 1)"

lemma rhe_cases: "rhe x = \<lfloor>x\<rfloor> \<or> rhe x = \<lfloor>x\<rfloor> + 1"
  by (simp add: rhe_def Let_def)

lemma rhe_of_int [simp]: "rhe (of_int n) = n"
  by (simp add: rhe_def)

lemma rhe_error: "\<bar>of_int (rhe x) - x\<bar> \<le> 1 / 2"
  using floor_correct [of x] unfolding rhe_def Let_def
  by (simp add: abs_le_iff split: if_split)

lemma rhe_mono: "x \<le> y \<Longrightarrow> rhe x \<le> rhe y"
proof (cases "\<lfloor>x\<rfloor> = \<lfloor>y\<rfloor>")
  case True
  assume "x \<le> y"
  with True show ?thesis by (auto simp: rhe_def Let_def)
next
  case False
  assume "x \<le> y"
  then have "\<lfloor>x\<rfloor> \<le> \<lfloor>y\<rfloor>" by (rule floor_mono)
  with False have "\<lfloor>x\<rfloor> + 1 \<le> \<lfloor>y\<rfloor>" by linarith
  then show ?thesis using rhe_cases [of x] rhe_cases [of y] by linarith
qed

section \<open>The binary exponent\<close>

text \<open>
  \<open>ilog2 x\<close> is the exponent of the leading bit of a positive rational, from the bit lengths of
  its numerator and denominator.
\<close>

definition ilog2 :: "rat \<Rightarrow> int" where
  "ilog2 x = (let (p, q) = quotient_of x; k = bitlen p - bitlen q
     in if 2 powi k \<le> x then k else k - 1)"

lemma powi2_pos [simp]: "0 < (2::rat) powi k"
  by simp

lemma powi2_nonzero [simp]: "(2::rat) powi k \<noteq> 0"
  by simp

lemma powi2_not_neg [simp]: "\<not> (2::rat) powi k < 0" "\<not> (2::rat) powi k \<le> 0"
  using powi2_pos [of k] by (simp_all only: not_less not_le less_imp_le simp_thms)

lemma powi2_less_iff [simp]: "(2::rat) powi k < 2 powi l \<longleftrightarrow> k < l"
  using power_int_strict_increasing [of k l "2::rat"] power_int_increasing [of l k "2::rat"]
  by (cases "k < l") (auto simp: not_less)

lemma powi2_le_iff [simp]: "(2::rat) powi k \<le> 2 powi l \<longleftrightarrow> k \<le> l"
  using powi2_less_iff [of l k] by (simp only: not_less [symmetric])

lemma powi2_add: "(2::rat) powi (k + l) = 2 powi k * 2 powi l"
  by (simp add: power_int_add)

lemma powi2_diff: "(2::rat) powi (k - l) = 2 powi k / 2 powi l"
  by (simp add: power_int_diff)

lemma powi2_of_nat: "(2::rat) powi (int n) = 2 ^ n"
  by simp

lemma bitlen_powi:
  assumes "0 < n"
  shows "2 powi (bitlen n - 1) \<le> (of_int n :: rat) \<and> of_int n < (2::rat) powi (bitlen n)"
proof -
  have b: "0 \<le> bitlen n" "0 < bitlen n"
    using assms bitlen_nonneg [of n] bitlen_eq_zero_iff [of n] by linarith+
  have "2 ^ nat (bitlen n - 1) \<le> n \<and> n < 2 ^ nat (bitlen n)"
    using bitlen_bounds [OF assms] by simp
  then have "(of_int (2 ^ nat (bitlen n - 1)) :: rat) \<le> of_int n \<and> (of_int n :: rat) < of_int (2 ^ nat (bitlen n))"
    by (simp only: of_int_le_iff of_int_less_iff simp_thms)
  with b show ?thesis by (simp add: power_int_def)
qed

lemma ilog2_bounds:
  assumes "0 < x"
  shows "2 powi (ilog2 x) \<le> x \<and> x < 2 powi (ilog2 x + 1)"
proof -
  obtain p q where pq: "quotient_of x = (p, q)" by fastforce
  have q: "0 < q" using quotient_of_denom_pos [OF pq] .
  have x: "x = of_int p / of_int q" using quotient_of_div [OF pq] .
  have p: "0 < p" using assms q unfolding x by (simp add: zero_less_divide_iff)
  let ?k = "bitlen p - bitlen q"
  have "x \<ge> 2 powi (bitlen p - 1) / 2 powi (bitlen q)"
    unfolding x using bitlen_powi [OF p] bitlen_powi [OF q] q p
    by (intro frac_le) (auto intro: less_imp_le)
  moreover have "x < 2 powi (bitlen p) / 2 powi (bitlen q - 1)"
    unfolding x using bitlen_powi [OF p] bitlen_powi [OF q] q p
    by (intro frac_less) auto
  moreover have "bitlen p - 1 - bitlen q = ?k - 1" "bitlen p - (bitlen q - 1) = ?k + 1"
    by simp_all
  ultimately have "2 powi (?k - 1) \<le> x" "x < 2 powi (?k + 1)"
    by (simp_all flip: powi2_diff)
  then show ?thesis by (simp add: ilog2_def pq Let_def)
qed

lemma ilog2_eqI:
  assumes "2 powi k \<le> x" and "x < 2 powi (k + 1)"
  shows "ilog2 x = k"
proof -
  have "0 < x" using assms(1) powi2_pos [of k] by linarith
  note b = ilog2_bounds [OF this]
  have "(2::rat) powi k < 2 powi (ilog2 x + 1)" "(2::rat) powi (ilog2 x) < 2 powi (k + 1)"
    using b assms by linarith+
  then show ?thesis by simp
qed

lemma ilog2_scale: "0 < x \<Longrightarrow> ilog2 (x * 2 powi k) = ilog2 x + k"
  using ilog2_bounds [of x]
  by (intro ilog2_eqI) (auto simp: powi2_add algebra_simps)

lemma ilog2_mono: "0 < x \<Longrightarrow> x \<le> y \<Longrightarrow> ilog2 x \<le> ilog2 y"
  using ilog2_bounds [of x] ilog2_bounds [of y]
  by (metis (no_types, opaque_lifting) add_le_cancel_right le_less_trans linorder_not_le
      order_less_le_trans powi2_less_iff zless_imp_add1_zle)

section \<open>Rounding to 53 bits\<close>

text \<open>The unit roundoff: half the distance from 1 to the next larger float.\<close>

definition eps :: rat where
  "eps = 1 / 2 ^ 53"

lemma eps_bounds: "0 < eps" "eps < 1"
  by (simp_all add: eps_def)

definition fl_pos :: "rat \<Rightarrow> rat" where
  "fl_pos x = (let u = 2 powi (ilog2 x - 52) in of_int (rhe (x / u)) * u)"

definition fl :: "rat \<Rightarrow> rat" where
  "fl x = (if x = 0 then 0 else if x < 0 then - fl_pos (- x) else fl_pos x)"

definition is_b64 :: "rat \<Rightarrow> bool" where
  "is_b64 x \<longleftrightarrow> fl x = x"

lemma fl_pos_bounds:
  assumes "0 < x"
  shows "2 powi (ilog2 x) \<le> fl_pos x \<and> fl_pos x \<le> 2 powi (ilog2 x + 1)"
proof -
  let ?u = "(2::rat) powi (ilog2 x - 52)"
  have e: "2 powi (ilog2 x) = 2 ^ 52 * ?u" "2 powi (ilog2 x + 1) = 2 ^ 53 * ?u"
    by (simp_all add: powi2_diff powi2_add)
  have "2 ^ 52 \<le> x / ?u" "x / ?u \<le> 2 ^ 53"
    using ilog2_bounds [OF assms] unfolding e by (simp_all add: field_simps)
  then have "rhe (of_int (2 ^ 52)) \<le> rhe (x / ?u)" "rhe (x / ?u) \<le> rhe (of_int (2 ^ 53))"
    by (auto intro!: rhe_mono)
  then have "2 ^ 52 \<le> rhe (x / ?u)" "rhe (x / ?u) \<le> 2 ^ 53"
    by (simp_all only: rhe_of_int)
  then have "(of_int (2 ^ 52) :: rat) \<le> of_int (rhe (x / ?u))" "(of_int (rhe (x / ?u)) :: rat) \<le> of_int (2 ^ 53)"
    by (simp_all only: of_int_le_iff)
  then show ?thesis unfolding e fl_pos_def Let_def
    by (auto intro!: mult_right_mono)
qed

lemma fl_pos_pos: "0 < x \<Longrightarrow> 0 < fl_pos x"
  using fl_pos_bounds [of x] powi2_pos [of "ilog2 x"] by linarith

lemma fl_pos_mono:
  assumes "0 < x" and "x \<le> y"
  shows "fl_pos x \<le> fl_pos y"
proof (cases "ilog2 x = ilog2 y")
  case True
  have "rhe (x / 2 powi (ilog2 y - 52)) \<le> rhe (y / 2 powi (ilog2 y - 52))"
    using assms by (intro rhe_mono divide_right_mono) simp_all
  with True show ?thesis
    by (simp add: fl_pos_def Let_def mult_right_mono)
next
  case False
  with ilog2_mono [OF assms] have "ilog2 x + 1 \<le> ilog2 y" by linarith
  then have "(2::rat) powi (ilog2 x + 1) \<le> 2 powi (ilog2 y)" by simp
  moreover have "0 < y" using assms by linarith
  ultimately show ?thesis
    using fl_pos_bounds [OF assms(1)] fl_pos_bounds [of y] by linarith
qed

lemma fl_pos_scale: "0 < x \<Longrightarrow> fl_pos (x * 2 powi k) = fl_pos x * 2 powi k"
proof -
  assume x: "0 < x"
  have "ilog2 x + k - 52 = (ilog2 x - 52) + k" by simp
  then have "(2::rat) powi (ilog2 x + k - 52) = 2 powi (ilog2 x - 52) * 2 powi k"
    by (simp only: powi2_add)
  then show ?thesis by (simp add: fl_pos_def ilog2_scale [OF x] Let_def)
qed

lemma fl_pos_error: "0 < x \<Longrightarrow> \<bar>fl_pos x - x\<bar> \<le> x * eps"
proof -
  assume x: "0 < x"
  let ?u = "(2::rat) powi (ilog2 x - 52)"
  have "fl_pos x - x = (of_int (rhe (x / ?u)) - x / ?u) * ?u"
    by (simp add: fl_pos_def Let_def field_simps)
  then have "\<bar>fl_pos x - x\<bar> = \<bar>of_int (rhe (x / ?u)) - x / ?u\<bar> * ?u"
    by (simp add: abs_mult)
  also have "\<dots> \<le> 1 / 2 * ?u"
    by (intro mult_right_mono rhe_error) simp
  also have "\<dots> = 2 powi (ilog2 x) * eps" by (simp add: powi2_diff eps_def)
  also have "\<dots> \<le> x * eps"
    using ilog2_bounds [OF x] eps_bounds by (intro mult_right_mono) simp_all
  finally show ?thesis .
qed

lemma fl_pos_exact:
  assumes "0 < m" and "m \<le> 2 ^ 53"
  shows "fl_pos (of_int m * 2 powi e) = of_int m * 2 powi e"
proof -
  have m: "(0::rat) < of_int m" using assms by simp
  have "fl_pos (of_int m) = of_int m"
  proof (cases "m = 2 ^ 53")
    case True
    have "ilog2 (of_int m) = 53" by (rule ilog2_eqI) (simp_all add: True)
    then have "fl_pos (of_int m) = of_int (rhe (of_int (2 ^ 52))) * 2"
      by (simp add: fl_pos_def True)
    then show ?thesis by (simp only: rhe_of_int) (simp add: True)
  next
    case False
    with assms have "m < 2 ^ 53" by simp
    then have "(of_int m :: rat) < of_int (2 ^ 53)" by (simp only: of_int_less_iff)
    then have "(2::rat) powi (ilog2 (of_int m)) < 2 powi 53"
      using ilog2_bounds [OF m] by simp
    then have "ilog2 (of_int m) \<le> 52" by (simp only: powi2_less_iff)
    then obtain k where k: "52 - ilog2 (of_int m) = int k"
      by (metis diff_ge_0_iff_ge nonneg_int_cases)
    then have "ilog2 (of_int m) - 52 = - int k" by simp
    then have "fl_pos (of_int m) = of_int (rhe (of_int (m * 2 ^ k))) / 2 ^ k"
      by (simp add: fl_pos_def Let_def power_int_minus divide_inverse)
    then show ?thesis by (simp only: rhe_of_int) simp
  qed
  with fl_pos_scale [OF m, of e] show ?thesis by simp
qed

lemma fl_pos_form:
  assumes "0 < x"
  obtains m where "0 < m" "m \<le> 2 ^ 53" "fl_pos x = of_int m * 2 powi (ilog2 x - 52)"
proof
  let ?u = "(2::rat) powi (ilog2 x - 52)"
  have e: "2 powi (ilog2 x + 1) = 2 ^ 53 * ?u" by (simp add: powi2_diff powi2_add)
  show "fl_pos x = of_int (rhe (x / ?u)) * ?u" by (simp add: fl_pos_def Let_def)
  with fl_pos_pos [OF assms] show "0 < rhe (x / ?u)"
    by (simp add: zero_less_mult_iff)
  have "of_int (rhe (x / ?u)) * ?u \<le> 2 ^ 53 * ?u"
    using fl_pos_bounds [OF assms] unfolding e by (simp add: fl_pos_def Let_def)
  then have "(of_int (rhe (x / ?u)) :: rat) \<le> of_int (2 ^ 53)" by simp
  then show "rhe (x / ?u) \<le> 2 ^ 53" by (simp only: of_int_le_iff)
qed

section \<open>The interface\<close>

locale rounding =
  fixes rnd :: "rat \<Rightarrow> rat"
  assumes rnd_mono: "x \<le> y \<Longrightarrow> rnd x \<le> rnd y"
    and rnd_odd: "rnd (- x) = - rnd x"
    and rnd_idem: "rnd (rnd x) = rnd x"
    and rnd_scale: "rnd (x * 2 powi k) = rnd x * 2 powi k"
    and rnd_int: "\<bar>n\<bar> \<le> 2 ^ 53 \<Longrightarrow> rnd (of_int n) = of_int n"
    and rnd_error: "\<bar>rnd x - x\<bar> \<le> \<bar>x\<bar> * eps"
begin

lemma rnd_0 [simp]: "rnd 0 = 0"
  using rnd_int [of 0] by simp

lemma rnd_1 [simp]: "rnd 1 = 1"
  using rnd_int [of 1] by simp

lemma rnd_nat: "n \<le> 2 ^ 53 \<Longrightarrow> rnd (of_nat n) = of_nat n"
  using rnd_int [of "int n"] by simp

lemma rnd_half: "rnd (x / 2) = rnd x / 2"
proof -
  have "(2::rat) powi (- 1) = 1 / 2" by (simp add: power_int_def)
  with rnd_scale [of x "- 1"] show ?thesis by simp
qed

lemma rnd_nonneg: "0 \<le> x \<Longrightarrow> 0 \<le> rnd x"
  using rnd_mono [of 0 x] by simp

lemma rnd_nonpos: "x \<le> 0 \<Longrightarrow> rnd x \<le> 0"
  using rnd_mono [of x 0] by simp

text \<open>Rounding cannot leave an interval whose ends are representable.\<close>

lemma rnd_between:
  assumes "rnd lo = lo" and "rnd hi = hi" and "lo \<le> x" and "x \<le> hi"
  shows "lo \<le> rnd x" and "rnd x \<le> hi"
  using rnd_mono [OF assms(3)] rnd_mono [OF assms(4)] assms(1,2) by simp_all

lemma rnd_le_factor: "0 \<le> x \<Longrightarrow> rnd x \<le> x * (1 + eps)"
  using rnd_error [of x] by (simp add: algebra_simps abs_le_iff)

lemma rnd_ge_factor: "0 \<le> x \<Longrightarrow> x * (1 - eps) \<le> rnd x"
  using rnd_error [of x] by (simp add: algebra_simps abs_le_iff)

lemma rnd_eq_0_iff [simp]: "rnd x = 0 \<longleftrightarrow> x = 0"
proof
  assume "rnd x = 0"
  with rnd_error [of x] have "\<bar>x\<bar> * (1 - eps) \<le> 0" by (simp add: algebra_simps)
  with eps_bounds show "x = 0" by (simp add: mult_le_0_iff)
qed simp

end

lemma fl_minus: "fl (- x) = - fl x"
  by (simp add: fl_def)

lemma fl_form: "\<exists>m e. \<bar>m\<bar> \<le> 2 ^ 53 \<and> fl x = of_int m * 2 powi e"
proof -
  consider "x = 0" | "0 < x" | "x < 0" by linarith
  then show ?thesis
  proof cases
    case 1
    then show ?thesis by (intro exI [of _ 0]) (simp add: fl_def)
  next
    case 2
    from fl_pos_form [OF this] show ?thesis
      using 2 by (metis abs_of_pos fl_def less_numeral_extra(3) not_less_iff_gr_or_eq)
  next
    case 3
    then have "0 < - x" by simp
    from fl_pos_form [OF this] obtain m where m: "0 < m" "m \<le> 2 ^ 53"
      "fl_pos (- x) = of_int m * 2 powi (ilog2 (- x) - 52)" .
    then have "\<bar>- m\<bar> \<le> 2 ^ 53 \<and> fl x = of_int (- m) * 2 powi (ilog2 (- x) - 52)"
      using 3 by (simp add: fl_def)
    then show ?thesis by blast
  qed
qed

lemma fl_exact: "\<bar>m\<bar> \<le> 2 ^ 53 \<Longrightarrow> fl (of_int m * 2 powi e) = of_int m * 2 powi e"
  using fl_pos_exact [of m e] fl_pos_exact [of "- m" e]
  by (auto simp: fl_def zero_less_mult_iff mult_less_0_iff not_less abs_le_iff)

lemma is_b64_iff: "is_b64 x \<longleftrightarrow> (\<exists>m e. \<bar>m\<bar> \<le> 2 ^ 53 \<and> x = of_int m * 2 powi e)"
  unfolding is_b64_def using fl_form [of x] fl_exact by metis

lemma fl_is_b64 [simp, wf_intros]: "is_b64 (fl x)"
  using fl_form [of x] by (simp add: is_b64_iff)

interpretation b64: rounding fl
proof
  show "fl x \<le> fl y" if "x \<le> y" for x y
  proof -
    consider "0 < x" | "y < 0" | "x \<le> 0" "0 \<le> y" by linarith
    then show ?thesis
    proof cases
      case 1
      with fl_pos_mono [OF 1 that] that show ?thesis by (simp add: fl_def)
    next
      case 2
      with fl_pos_mono [of "- y" "- x"] that show ?thesis by (simp add: fl_def)
    next
      case 3
      with fl_pos_pos [of y] fl_pos_pos [of "- x"] show ?thesis
        by (auto simp: fl_def)
    qed
  qed
  show "fl (- x) = - fl x" for x by (rule fl_minus)
  show "fl (fl x) = fl x" for x using fl_is_b64 [of x] by (simp add: is_b64_def)
  show "fl (x * 2 powi k) = fl x * 2 powi k" for x k
    using fl_pos_scale [of x k] fl_pos_scale [of "- x" k]
    by (auto simp: fl_def zero_less_mult_iff mult_less_0_iff)
  show "fl (of_int n) = of_int n" if "\<bar>n\<bar> \<le> 2 ^ 53" for n
    using fl_exact [OF that, of 0] by simp
  show "\<bar>fl x - x\<bar> \<le> \<bar>x\<bar> * eps" for x
    using fl_pos_error [of x] fl_pos_error [of "- x"] by (auto simp: fl_def)
qed

lemma is_b64_int [simp]: "\<bar>n\<bar> \<le> 2 ^ 53 \<Longrightarrow> is_b64 (of_int n)"
  by (simp add: is_b64_def b64.rnd_int)

lemma is_b64_0 [simp]: "is_b64 0" and is_b64_1 [simp]: "is_b64 1"
  by (simp_all add: is_b64_def)

text \<open>
  The fractional part of a representable number is representable, so \<^verbatim>\<open>rank - int(rank)\<close>
  is computed without rounding.
\<close>

lemma is_b64_frac:
  assumes "is_b64 x" and "0 \<le> x"
  shows "is_b64 (x - of_int \<lfloor>x\<rfloor>)"
proof -
  from assms obtain m e where m: "\<bar>m\<bar> \<le> 2 ^ 53" and x: "x = of_int m * 2 powi e"
    by (auto simp: is_b64_iff)
  have m0: "0 \<le> m" using assms(2) unfolding x by (simp add: zero_le_mult_iff)
  show ?thesis
  proof (cases "0 \<le> e")
    case True
    then have "x = of_int (m * 2 ^ nat e)" unfolding x by (simp add: power_int_def)
    then show ?thesis by (simp only: floor_of_int) simp
  next
    case False
    then obtain k where k: "e = - int k"
      by (metis linear nonneg_int_cases minus_minus neg_0_le_iff_le)
    have "x = of_int m / of_int (2 ^ k)" unfolding x k
      by (simp add: power_int_minus divide_inverse)
    then have "x - of_int \<lfloor>x\<rfloor> = of_int m / of_int (2 ^ k) - of_int (m div 2 ^ k)"
      by (simp only: floor_divide_of_int_eq)
    also have "\<dots> = of_int (m - m div 2 ^ k * 2 ^ k) / of_int (2 ^ k)"
      by (simp add: field_simps)
    also have "m - m div 2 ^ k * 2 ^ k = m mod 2 ^ k" by (simp add: minus_div_mult_eq_mod)
    finally have f: "x - of_int \<lfloor>x\<rfloor> = of_int (m mod 2 ^ k) * 2 powi e"
      by (simp add: k power_int_minus divide_inverse)
    have "0 \<le> m mod 2 ^ k" and "m mod 2 ^ k \<le> m"
      using m0 by (simp_all add: zmod_le_nonneg_dividend)
    with m have "\<bar>m mod 2 ^ k\<bar> \<le> 2 ^ 53" by linarith
    then show ?thesis unfolding f is_b64_def by (rule fl_exact)
  qed
qed

section \<open>The bounded exponent range\<close>

text \<open>Rounding to the full binary64 format: the last place is never below \<open>2 ^ -1074\<close> (subnormal numbers), and a
  result of at least \<open>2 ^ 1024\<close> is no finite float.\<close>

definition binary64_pos :: "rat \<Rightarrow> rat option" where
  "binary64_pos x = (let u = 2 powi (max (ilog2 x - 52) (- 1074)); r = of_int (rhe (x / u)) * u
     in if r < 2 powi 1024 then Some r else None)"

definition binary64 :: "rat \<Rightarrow> rat option" where
  "binary64 x = (if x = 0 then Some 0 else if x < 0 then map_option uminus (binary64_pos (- x)) else binary64_pos x)"

text \<open>The normal numbers that stay finite when rounded.\<close>

definition normal_range :: "rat \<Rightarrow> bool" where
  "normal_range x \<longleftrightarrow> x = 0 \<or> 2 powi (- 1022) \<le> \<bar>x\<bar> \<and> \<bar>x\<bar> < 2 powi 1023"

lemma binary64_pos_fl:
  assumes "2 powi (- 1022) \<le> x" and "x < 2 powi 1023"
  shows "binary64_pos x = Some (fl_pos x)"
proof -
  have x: "0 < x" using assms(1) powi2_pos [of "- 1022"] by linarith
  note b = ilog2_bounds [OF x]
  have "(2::rat) powi (- 1022) < 2 powi (ilog2 x + 1)" "(2::rat) powi (ilog2 x) < 2 powi 1023"
    using b assms by linarith+
  then have i: "- 1022 \<le> ilog2 x" "ilog2 x + 1 < 1024" unfolding powi2_less_iff by linarith+
  then have "fl_pos x < 2 powi 1024"
    using fl_pos_bounds [OF x] powi2_less_iff [of "ilog2 x + 1" 1024] by linarith
  moreover have "max (ilog2 x - 52) (- 1074) = ilog2 x - 52" using i by simp
  ultimately show ?thesis by (simp only: binary64_pos_def Let_def fl_pos_def if_True)
qed

lemma binary64_fl: "normal_range x \<Longrightarrow> binary64 x = Some (fl x)"
  using binary64_pos_fl [of x] binary64_pos_fl [of "- x"]
  by (auto simp: normal_range_def binary64_def fl_def abs_if split: if_splits)

text \<open>Where the two roundings differ: below the normal range bits are lost, and a result may be too large.\<close>

lemma binary64_limits: "binary64 (2 powi (- 1075)) = Some 0" "binary64 (2 powi 1024) = None"
proof -
  have "ilog2 ((2::rat) powi (- 1075)) = - 1075" by (rule ilog2_eqI; simp only: powi2_le_iff powi2_less_iff; simp)
  moreover have "(2::rat) powi (- 1075) / 2 powi (- 1074) = 1 / 2"
    using powi2_diff [of "- 1075" "- 1074"] by (simp add: power_int_def)
  moreover have "\<lfloor>1 / 2 :: rat\<rfloor> = 0" by linarith
  then have "rhe (1 / 2) = 0" by (simp add: rhe_def Let_def)
  ultimately show "binary64 (2 powi (- 1075)) = Some 0"
    by (simp only: binary64_def binary64_pos_def Let_def powi2_nonzero powi2_not_neg if_False) simp
  have l: "ilog2 ((2::rat) powi 1024) = 1024" by (rule ilog2_eqI; simp only: powi2_le_iff powi2_less_iff; simp)
  have "(2::rat) powi 1024 / 2 powi 972 = of_int (2 ^ 52)" using powi2_diff [of 1024 972] by simp
  then have "rhe ((2::rat) powi 1024 / 2 powi 972) = 2 ^ 52" by (simp only: rhe_of_int)
  moreover have "of_int (2 ^ 52) * (2::rat) powi 972 = 2 powi 1024"
    using powi2_add [of 52 972] by simp
  moreover have "max (1024 - 52) (- 1074) = (972 :: int)" by simp
  ultimately show "binary64 (2 powi 1024) = None"
    by (simp only: binary64_def binary64_pos_def Let_def powi2_nonzero powi2_not_neg if_False l order.irrefl)
qed

end
