(* ===== verification/PyNum.thy ===== *)
theory PyNum
  imports Binary64 "HOL-Library.Multiset"
begin

text \<open>
  Python's numbers as the analysis code uses them: unbounded \<^verbatim>\<open>int\<close>, \<^verbatim>\<open>float\<close> as a rational
  that is rounded after every operation, the mixed arithmetic of the two, \<^verbatim>\<open>min\<close>, \<^verbatim>\<open>max\<close>,
  \<^verbatim>\<open>sorted\<close>, list indexing, and the three functions of the \<^verbatim>\<open>statistics\<close> module that the code
  calls. That module sums exactly with fractions and rounds once (\<^verbatim>\<open>mean\<close>), and takes the square
  root of an exact fraction by an integer square root that is rounded to odd (\<^verbatim>\<open>stdev\<close>, as in
  Python 3.11 and later).
\<close>

section \<open>Numbers and arithmetic\<close>

datatype pynum = PInt int | PFloat rat

fun val :: "pynum \<Rightarrow> rat" where
  "val (PInt n) = of_int n"
| "val (PFloat r) = r"

fun to_float :: "pynum \<Rightarrow> rat" where
  "to_float (PInt n) = fl (of_int n)"
| "to_float (PFloat r) = r"

fun is_int :: "pynum \<Rightarrow> bool" where
  "is_int (PInt _) = True"
| "is_int (PFloat _) = False"

fun num_add :: "pynum \<Rightarrow> pynum \<Rightarrow> pynum" where
  "num_add (PInt m) (PInt n) = PInt (m + n)"
| "num_add a b = PFloat (fl (to_float a + to_float b))"

fun num_sub :: "pynum \<Rightarrow> pynum \<Rightarrow> pynum" where
  "num_sub (PInt m) (PInt n) = PInt (m - n)"
| "num_sub a b = PFloat (fl (to_float a - to_float b))"

fun num_mul :: "pynum \<Rightarrow> pynum \<Rightarrow> pynum" where
  "num_mul (PInt m) (PInt n) = PInt (m * n)"
| "num_mul a b = PFloat (fl (to_float a * to_float b))"

text \<open>True division: the quotient of two ints is rounded once, from the exact fraction.\<close>

fun quot :: "pynum \<Rightarrow> pynum \<Rightarrow> rat" where
  "quot (PInt m) (PInt n) = of_int m / of_int n"
| "quot a b = to_float a / to_float b"

definition num_truediv :: "pynum \<Rightarrow> pynum \<Rightarrow> pynum result" where
  "num_truediv a b = (if val b = 0 then Inl ZeroDivisionError else Inr (PFloat (fl (quot a b))))"

text \<open>\<^verbatim>\<open>int(x)\<close> truncates towards zero.\<close>

fun num_trunc :: "pynum \<Rightarrow> int" where
  "num_trunc (PInt n) = n"
| "num_trunc (PFloat r) = (if 0 \<le> r then \<lfloor>r\<rfloor> else \<lceil>r\<rceil>)"

text \<open>\<^verbatim>\<open>min\<close> and \<^verbatim>\<open>max\<close> of a non-empty list return the first extremal element; on an empty list
  they raise \<^verbatim>\<open>ValueError\<close>.\<close>

definition min2 :: "pynum \<Rightarrow> pynum \<Rightarrow> pynum" where
  "min2 m y = (if val y < val m then y else m)"

definition max2 :: "pynum \<Rightarrow> pynum \<Rightarrow> pynum" where
  "max2 m y = (if val m < val y then y else m)"

fun py_min :: "pynum list \<Rightarrow> pynum result" where
  "py_min [] = Inl ValueError"
| "py_min (x # xs) = Inr (foldl min2 x xs)"

fun py_max :: "pynum list \<Rightarrow> pynum result" where
  "py_max [] = Inl ValueError"
| "py_max (x # xs) = Inr (foldl max2 x xs)"

definition py_sorted :: "pynum list \<Rightarrow> pynum list" where
  "py_sorted xs = sort_key val xs"

text \<open>List indexing: a negative index counts from the end.\<close>

definition py_index :: "'a list \<Rightarrow> int \<Rightarrow> 'a result" where
  "py_index xs i = (let len = int (length xs) in
     if len \<le> i \<or> i < - len then Inl IndexError
     else Inr (xs ! nat (if i < 0 then i + len else i)))"

section \<open>The statistics module\<close>

definition stat_mean :: "pynum list \<Rightarrow> pynum result" where
  "stat_mean xs = (if xs = [] then Inl StatisticsError else
     let m = sum_list (map val xs) / of_nat (length xs)
     in if list_all is_int xs \<and> of_int \<lfloor>m\<rfloor> = m then Inr (PInt \<lfloor>m\<rfloor>) else Inr (PFloat (fl m)))"

definition stat_median :: "pynum list \<Rightarrow> pynum result" where
  "stat_median xs = (let d = py_sorted xs; n = length d in
     if n = 0 then Inl StatisticsError
     else if n mod 2 = 1 then py_index d (int (n div 2))
     else bindE (py_index d (int (n div 2) - 1)) (\<lambda>a.
          bindE (py_index d (int (n div 2))) (\<lambda>b.
          num_truediv (num_add a b) (PInt 2))))"

text \<open>\<^verbatim>\<open>math.isqrt\<close>: the integer part of the square root, two bits at a time.\<close>

function isqrt :: "int \<Rightarrow> int" where
  "isqrt n = (if n \<le> 0 then 0 else
     let r = 2 * isqrt (n div 4) in if (r + 1) * (r + 1) \<le> n then r + 1 else r)"
  by pat_completeness auto
termination
  by (relation "measure nat") auto

declare isqrt.simps [simp del]

definition sqrt_frac_rto :: "int \<Rightarrow> int \<Rightarrow> int" where
  "sqrt_frac_rto n m = (let a = isqrt (n div m)
     in if a * a * m = n then a else if even a then a + 1 else a)"

definition float_sqrt_of_frac :: "int \<Rightarrow> int \<Rightarrow> rat" where
  "float_sqrt_of_frac n m = (let q = (bitlen n - bitlen m - 109) div 2 in
     if 0 \<le> q then fl (of_int (sqrt_frac_rto n (m * 2 ^ nat (2 * q)) * 2 ^ nat q))
     else fl (of_int (sqrt_frac_rto (n * 2 ^ nat (- 2 * q)) m) / 2 ^ nat (- q)))"

text \<open>The exact sum of squared deviations, from the sum and the sum of squares.\<close>

definition sum_sq_dev :: "rat list \<Rightarrow> rat" where
  "sum_sq_dev vs = (let n = of_nat (length vs); sx = sum_list vs; sxx = sum_list (map (\<lambda>x. x * x) vs)
     in (n * sxx - sx * sx) / n)"

definition stat_stdev :: "pynum list \<Rightarrow> pynum result" where
  "stat_stdev xs = (if length xs < 2 then Inl StatisticsError else
     let (p, q) = quotient_of (sum_sq_dev (map val xs) / of_nat (length xs - 1))
     in Inr (PFloat (float_sqrt_of_frac p q)))"

section \<open>Well-formed numbers\<close>

text \<open>A float is a representable rational; \<open>num_ok\<close> says in addition that an int converts to
  float without rounding.\<close>

fun wf_num :: "pynum \<Rightarrow> bool" where
  "wf_num (PInt _) = True"
| "wf_num (PFloat r) = is_b64 r"

definition num_ok :: "pynum \<Rightarrow> bool" where
  "num_ok x \<longleftrightarrow> is_b64 (val x)"

lemma num_ok_wf: "num_ok x \<Longrightarrow> wf_num x"
  by (cases x) (simp_all add: num_ok_def)

lemma num_ok_to_float: "num_ok x \<Longrightarrow> to_float x = val x"
  by (cases x) (simp_all add: num_ok_def is_b64_def)

lemma num_ok_simps [simp]: "num_ok (PFloat (fl r))" "num_ok (PFloat 0)" "num_ok (PInt 0)"
  by (simp_all add: num_ok_def)

lemma num_ok_PInt: "\<bar>n\<bar> \<le> 2 ^ 53 \<Longrightarrow> num_ok (PInt n)"
  by (simp add: num_ok_def)

lemma wf_arith [simp, wf_intros]:
  "wf_num (num_add a b)" "wf_num (num_sub a b)" "wf_num (num_mul a b)"
  by (cases a; cases b; simp)+

lemma wf_truediv [wf_intros]: "num_truediv a b = Inr c \<Longrightarrow> wf_num c"
  by (auto simp: num_truediv_def split: if_splits)

lemma val_num_add: "num_ok a \<Longrightarrow> num_ok b \<Longrightarrow> is_int a \<and> is_int b \<or> val (num_add a b) = fl (val a + val b)"
  by (cases a; cases b) (auto simp: num_ok_def is_b64_def)

section \<open>Minimum, maximum, sorting, indexing\<close>

lemma foldl_min2:
  "foldl min2 m xs \<in> insert m (set xs) \<and> (\<forall>y \<in> insert m (set xs). val (foldl min2 m xs) \<le> val y)"
proof (induction xs arbitrary: m)
  case Nil
  then show ?case by simp
next
  case (Cons x xs)
  then show ?case by (force simp: min2_def split: if_splits)
qed

lemma foldl_max2:
  "foldl max2 m xs \<in> insert m (set xs) \<and> (\<forall>y \<in> insert m (set xs). val y \<le> val (foldl max2 m xs))"
proof (induction xs arbitrary: m)
  case Nil
  then show ?case by simp
next
  case (Cons x xs)
  then show ?case by (force simp: max2_def split: if_splits)
qed

lemma py_min_Inr_iff: "(\<exists>m. py_min xs = Inr m) \<longleftrightarrow> xs \<noteq> []"
  by (cases xs) simp_all

lemma py_minD: "py_min xs = Inr m \<Longrightarrow> m \<in> set xs \<and> (\<forall>y \<in> set xs. val m \<le> val y)"
  using foldl_min2 by (cases xs) fastforce+

lemma py_maxD: "py_max xs = Inr m \<Longrightarrow> m \<in> set xs \<and> (\<forall>y \<in> set xs. val y \<le> val m)"
  using foldl_max2 by (cases xs) fastforce+

lemma py_min_val: "xs \<noteq> [] \<Longrightarrow> \<exists>m. py_min xs = Inr m \<and> val m = Min (val ` set xs)"
proof -
  assume "xs \<noteq> []"
  then obtain m where m: "py_min xs = Inr m" using py_min_Inr_iff by blast
  then have "val m = Min (val ` set xs)"
    using py_minD [OF m] by (intro Min_eqI [symmetric]) auto
  with m show ?thesis by blast
qed

lemma py_max_val: "xs \<noteq> [] \<Longrightarrow> \<exists>m. py_max xs = Inr m \<and> val m = Max (val ` set xs)"
proof -
  assume "xs \<noteq> []"
  then obtain m where m: "py_max xs = Inr m" by (cases xs) simp_all
  then have "val m = Max (val ` set xs)"
    using py_maxD [OF m] by (intro Max_eqI [symmetric]) auto
  with m show ?thesis by blast
qed

lemma py_sorted_props [simp]:
  "mset (py_sorted xs) = mset xs" "set (py_sorted xs) = set xs" "length (py_sorted xs) = length xs"
  "sorted (map val (py_sorted xs))" "py_sorted xs = [] \<longleftrightarrow> xs = []"
  by (simp_all add: py_sorted_def flip: length_0_conv)

lemma py_index_in: "i < length xs \<Longrightarrow> py_index xs (int i) = Inr (xs ! i)"
  by (simp add: py_index_def)

lemma py_sorted_mono:
  assumes "i \<le> j" and "j < length xs"
  shows "val (py_sorted xs ! i) \<le> val (py_sorted xs ! j)"
proof -
  have "sorted (map val (py_sorted xs))" by simp
  from sorted_nth_mono [OF this assms(1)] assms show ?thesis by simp
qed

section \<open>Mean\<close>

lemma stat_median_odd:
  "length xs mod 2 = 1 \<Longrightarrow> stat_median xs = Inr (py_sorted xs ! (length xs div 2))"
  by (cases "xs = []") (simp_all add: stat_median_def Let_def py_index_in)

lemma stat_median_even:
  assumes "xs \<noteq> []" and "length xs mod 2 \<noteq> 1"
  shows "stat_median xs = num_truediv
    (num_add (py_sorted xs ! (length xs div 2 - 1)) (py_sorted xs ! (length xs div 2))) (PInt 2)"
proof -
  let ?k = "length xs div 2"
  have "0 < length xs" using assms(1) by simp
  then have k: "1 \<le> ?k" "?k < length xs" using assms(2) by presburger+
  then have "py_index (py_sorted xs) (int ?k - 1) = Inr (py_sorted xs ! (?k - 1))"
    "py_index (py_sorted xs) (int ?k) = Inr (py_sorted xs ! ?k)"
    using py_index_in [of "?k - 1" "py_sorted xs"] py_index_in [of ?k "py_sorted xs"]
    by (simp_all add: of_nat_diff)
  with assms show ?thesis by (simp add: stat_median_def Let_def)
qed

lemma stat_median_total: "xs \<noteq> [] \<Longrightarrow> \<exists>m. stat_median xs = Inr m"
  using stat_median_odd [of xs] stat_median_even [of xs]
  by (cases "length xs mod 2 = 1") (simp_all add: num_truediv_def)

lemma stat_mean_total: "xs \<noteq> [] \<Longrightarrow> \<exists>m. stat_mean xs = Inr m"
  by (simp add: stat_mean_def Let_def)

lemma stat_mean_val:
  assumes "stat_mean xs = Inr m"
  shows "val m = fl (sum_list (map val xs) / of_nat (length xs)) \<or>
    val m = sum_list (map val xs) / of_nat (length xs)"
  using assms by (auto simp: stat_mean_def Let_def split: if_splits)

lemma mean_exact_bounds:
  fixes vs :: "rat list"
  assumes "vs \<noteq> []" and "\<And>x. x \<in> set vs \<Longrightarrow> lo \<le> x" and "\<And>x. x \<in> set vs \<Longrightarrow> x \<le> hi"
  shows "lo \<le> sum_list vs / of_nat (length vs)" and "sum_list vs / of_nat (length vs) \<le> hi"
  using sum_list_ge_mult [of vs lo] sum_list_le_mult [of vs hi] assms
  by (simp_all add: field_simps)

lemma stat_mean_bounds:
  assumes "stat_mean xs = Inr m" and "\<And>x. x \<in> set xs \<Longrightarrow> num_ok x"
    and "py_min xs = Inr lo" and "py_max xs = Inr hi"
  shows "val lo \<le> val m \<and> val m \<le> val hi"
proof -
  let ?e = "sum_list (map val xs) / of_nat (length (map val xs))"
  have ne: "map val xs \<noteq> []" using assms(1) by (auto simp: stat_mean_def)
  have "val lo \<le> ?e" "?e \<le> val hi"
    by (rule mean_exact_bounds [OF ne]; use py_minD [OF assms(3)] py_maxD [OF assms(4)] in auto)+
  moreover have "is_b64 (val lo)" "is_b64 (val hi)"
    using assms(2) py_minD [OF assms(3)] py_maxD [OF assms(4)] by (auto simp: num_ok_def)
  ultimately show ?thesis
    using stat_mean_val [OF assms(1)] b64.rnd_between [of "val lo" "val hi" ?e]
    by (auto simp: is_b64_def)
qed

lemma stat_mean_wf [wf_intros]: "stat_mean xs = Inr m \<Longrightarrow> wf_num m"
  by (auto simp: stat_mean_def Let_def split: if_splits)

section \<open>Standard deviation\<close>

lemma isqrt_bounds:
  "0 \<le> n \<Longrightarrow> 0 \<le> isqrt n \<and> isqrt n * isqrt n \<le> n \<and> n < (isqrt n + 1) * (isqrt n + 1)"
proof (induction n rule: isqrt.induct)
  case (1 n)
  show ?case
  proof (cases "n \<le> 0")
    case True
    with 1(2) show ?thesis by (simp add: isqrt.simps)
  next
    case False
    let ?r = "isqrt (n div 4)"
    from 1 False have "0 \<le> ?r" "?r * ?r \<le> n div 4" "n div 4 < (?r + 1) * (?r + 1)"
      by (simp_all add: pos_imp_zdiv_nonneg_iff)
    then have "0 \<le> ?r" "4 * (?r * ?r) \<le> n" "n < 4 * ((?r + 1) * (?r + 1))" by linarith+
    with False show ?thesis
      by (auto simp: isqrt.simps [of n] Let_def algebra_simps)
  qed
qed

lemma isqrt_0 [simp]: "isqrt 0 = 0"
  by (simp add: isqrt.simps)

lemma isqrt_nonneg [simp]: "0 \<le> isqrt n"
  using isqrt_bounds [of n] by (cases "0 \<le> n") (auto simp: isqrt.simps)

lemma sqrt_frac_rto_nonneg: "0 \<le> sqrt_frac_rto n m"
  by (simp add: sqrt_frac_rto_def Let_def)

lemma sqrt_frac_rto_0 [simp]: "sqrt_frac_rto 0 m = 0"
  by (simp add: sqrt_frac_rto_def Let_def)

lemma sqrt_frac_rto_pos: "n \<noteq> 0 \<Longrightarrow> 0 < sqrt_frac_rto n m"
  using isqrt_nonneg [of "n div m"]
  by (cases "isqrt (n div m) = 0") (auto simp: sqrt_frac_rto_def Let_def simp del: isqrt_nonneg)

lemma float_sqrt_of_frac_nonneg: "0 \<le> float_sqrt_of_frac n m"
  unfolding float_sqrt_of_frac_def Let_def
  by (auto intro!: b64.rnd_nonneg divide_nonneg_nonneg mult_nonneg_nonneg simp: sqrt_frac_rto_nonneg)

lemma float_sqrt_of_frac_eq_0_iff: "float_sqrt_of_frac n m = 0 \<longleftrightarrow> n = 0"
proof (cases "n = 0")
  case True
  then show ?thesis by (simp add: float_sqrt_of_frac_def Let_def)
next
  case False
  then have "sqrt_frac_rto (n * 2 ^ k) j \<noteq> 0" "sqrt_frac_rto n j \<noteq> 0" for j k
    using sqrt_frac_rto_pos [of "n * 2 ^ k" j] sqrt_frac_rto_pos [of n j] by simp_all
  with False show ?thesis by (simp add: float_sqrt_of_frac_def Let_def)
qed

lemma float_sqrt_of_frac_b64: "is_b64 (float_sqrt_of_frac n m)"
  by (simp add: float_sqrt_of_frac_def Let_def)

lemma sum_list_sq_dev:
  fixes vs :: "rat list"
  shows "sum_list (map (\<lambda>x. (x - m) * (x - m)) vs) =
    sum_list (map (\<lambda>x. x * x) vs) - 2 * m * sum_list vs + of_nat (length vs) * (m * m)"
  by (induction vs) (simp_all add: algebra_simps)

lemma sum_sq_dev_mean:
  assumes "vs \<noteq> []"
  shows "sum_sq_dev vs = (let m = sum_list vs / of_nat (length vs) in sum_list (map (\<lambda>x. (x - m) * (x - m)) vs))"
  using assms unfolding sum_sq_dev_def Let_def sum_list_sq_dev by (simp add: field_simps)

lemma sum_list_sq_eq_0:
  fixes vs :: "rat list"
  shows "sum_list (map (\<lambda>x. (x - m) * (x - m)) vs) = 0 \<longleftrightarrow> (\<forall>x \<in> set vs. x = m)"
proof -
  have "sum_list (map (\<lambda>x. (x - m) * (x - m)) vs) = 0 \<longleftrightarrow>
    (\<forall>y \<in> set (map (\<lambda>x. (x - m) * (x - m)) vs). y = 0)"
    by (rule sum_list_nonneg_eq_0_iff) auto
  then show ?thesis by simp
qed

lemma sum_sq_dev_nonneg: "vs \<noteq> [] \<Longrightarrow> 0 \<le> sum_sq_dev vs"
  by (auto simp: sum_sq_dev_mean Let_def intro!: sum_list_nonneg)

lemma sum_sq_dev_eq_0_iff:
  assumes "vs \<noteq> []"
  shows "sum_sq_dev vs = 0 \<longleftrightarrow> (\<forall>x \<in> set vs. \<forall>y \<in> set vs. x = y)"
proof -
  let ?m = "sum_list vs / of_nat (length vs)"
  have "sum_sq_dev vs = 0 \<longleftrightarrow> (\<forall>x \<in> set vs. x = ?m)"
    by (simp add: sum_sq_dev_mean [OF assms] Let_def sum_list_sq_eq_0)
  moreover have "\<forall>x \<in> set vs. x = ?m" if "\<forall>x \<in> set vs. \<forall>y \<in> set vs. x = y"
  proof
    fix x assume x: "x \<in> set vs"
    with that have "x \<le> ?m" "?m \<le> x"
      by (intro mean_exact_bounds [OF assms]; force)+
    then show "x = ?m" by simp
  qed
  ultimately show ?thesis by metis
qed

lemma stat_stdev_total: "2 \<le> length xs \<Longrightarrow> \<exists>s. stat_stdev xs = Inr s"
  by (simp add: stat_stdev_def split: prod.split)

lemma stat_stdev_props:
  assumes "stat_stdev xs = Inr s"
  shows "0 \<le> val s" and "num_ok s"
    and "val s = 0 \<longleftrightarrow> (\<forall>x \<in> set xs. \<forall>y \<in> set xs. val x = val y)"
proof -
  let ?v = "sum_sq_dev (map val xs) / of_nat (length xs - 1)"
  obtain p q where pq: "quotient_of ?v = (p, q)" by fastforce
  from assms have len: "2 \<le> length xs" by (simp add: stat_stdev_def split: if_splits)
  then have ne: "map val xs \<noteq> []" by auto
  have s: "s = PFloat (float_sqrt_of_frac p q)"
    using assms len unfolding stat_stdev_def pq by simp
  show "0 \<le> val s" by (simp add: s float_sqrt_of_frac_nonneg)
  show "num_ok s" by (simp add: s num_ok_def float_sqrt_of_frac_b64)
  have "?v = of_int p / of_int q" "0 < q"
    using quotient_of_div [OF pq] quotient_of_denom_pos [OF pq] by simp_all
  then have "p = 0 \<longleftrightarrow> ?v = 0" by simp
  also have "\<dots> \<longleftrightarrow> sum_sq_dev (map val xs) = 0" using len by simp
  finally show "val s = 0 \<longleftrightarrow> (\<forall>x \<in> set xs. \<forall>y \<in> set xs. val x = val y)"
    by (simp add: s float_sqrt_of_frac_eq_0_iff sum_sq_dev_eq_0_iff [OF ne])
qed

end
