(* ===== verification/PyValue.thy ===== *)
theory PyValue
  imports PyNum
begin

text \<open>
  The values that flow through the JSON files: what \<^verbatim>\<open>json.load\<close> returns and \<^verbatim>\<open>json.dump\<close>
  writes, with the subscripting, membership, truth-value and \<^verbatim>\<open>dict.get\<close> operations the code
  applies to them. A \<^verbatim>\<open>dict\<close> keeps its insertion order.
\<close>

datatype json =
    JNull
  | JBool bool
  | JNum pynum
  | JStr string
  | JList "json list"
  | JObj "(string \<times> json) list"

text \<open>\<^verbatim>\<open>j[k]\<close> for a string key.\<close>

fun getitem :: "json \<Rightarrow> string \<Rightarrow> json result" where
  "getitem (JObj d) k = (case dict_get d k of None \<Rightarrow> Inl (KeyError k) | Some v \<Rightarrow> Inr v)"
| "getitem _ k = Inl TypeError"

text \<open>\<^verbatim>\<open>j.get(k, default)\<close>; only a \<^verbatim>\<open>dict\<close> has the method.\<close>

fun dict_get_default :: "json \<Rightarrow> string \<Rightarrow> json \<Rightarrow> json result" where
  "dict_get_default (JObj d) k v = Inr (case dict_get d k of None \<Rightarrow> v | Some w \<Rightarrow> w)"
| "dict_get_default _ k v = Inl (AttributeError ''get'')"

fun is_prefix :: "string \<Rightarrow> string \<Rightarrow> bool" where
  "is_prefix [] s = True"
| "is_prefix (c # cs) [] = False"
| "is_prefix (c # cs) (d # ds) = (c = d \<and> is_prefix cs ds)"

fun is_substring :: "string \<Rightarrow> string \<Rightarrow> bool" where
  "is_substring p [] = (p = [])"
| "is_substring p (c # cs) = (is_prefix p (c # cs) \<or> is_substring p cs)"

text \<open>\<^verbatim>\<open>k in j\<close> for a string \<^verbatim>\<open>k\<close>.\<close>

fun contains :: "json \<Rightarrow> string \<Rightarrow> bool result" where
  "contains (JObj d) k = Inr (dict_get d k \<noteq> None)"
| "contains (JList xs) k = Inr (JStr k \<in> set xs)"
| "contains (JStr s) k = Inr (is_substring k s)"
| "contains _ k = Inl TypeError"

fun truthy :: "json \<Rightarrow> bool" where
  "truthy JNull = False"
| "truthy (JBool b) = b"
| "truthy (JNum n) = (val n \<noteq> 0)"
| "truthy (JStr s) = (s \<noteq> [])"
| "truthy (JList xs) = (xs \<noteq> [])"
| "truthy (JObj d) = (d \<noteq> [])"

text \<open>An operand of arithmetic. A \<^verbatim>\<open>bool\<close> is an \<^verbatim>\<open>int\<close> in Python; its use as a measurement is
  outside the model.\<close>

fun as_num :: "json \<Rightarrow> pynum result" where
  "as_num (JNum n) = Inr n"
| "as_num (JBool b) = Inl Unmodelled"
| "as_num _ = Inl TypeError"

text \<open>Iteration over a value: the elements of a list, the keys of a \<^verbatim>\<open>dict\<close>, the characters of a
  string.\<close>

fun iter_json :: "json \<Rightarrow> json list result" where
  "iter_json (JList xs) = Inr xs"
| "iter_json (JObj d) = Inr (map (JStr \<circ> fst) d)"
| "iter_json (JStr s) = Inr (map (\<lambda>c. JStr [c]) s)"
| "iter_json _ = Inl TypeError"

text \<open>\<^verbatim>\<open>isinstance(value, dict)\<close>\<close>

fun is_obj :: "json \<Rightarrow> bool" where
  "is_obj (JObj _) = True"
| "is_obj _ = False"

lemma is_prefix_iff: "is_prefix p s \<longleftrightarrow> (\<exists>t. s = p @ t)"
  by (induction p s rule: is_prefix.induct) auto

lemma is_prefix_append [simp]: "is_prefix p (p @ t)"
  by (simp add: is_prefix_iff)

lemma is_substring_iff: "is_substring p s \<longleftrightarrow> (\<exists>u v. s = u @ p @ v)"
proof (induction s)
  case Nil
  then show ?case by simp
next
  case (Cons c s)
  have "(\<exists>u v. c # s = u @ p @ v) \<longleftrightarrow> (\<exists>v. c # s = p @ v) \<or> (\<exists>u v. s = u @ p @ v)"
    by (metis append_Cons append_Nil append_eq_Cons_conv)
  with Cons show ?case by (simp add: is_prefix_iff)
qed

lemma getitem_Inr_iff: "getitem j k = Inr v \<longleftrightarrow> (\<exists>d. j = JObj d \<and> dict_get d k = Some v)"
  by (cases j) (auto split: option.splits)

lemma as_num_Inr_iff [simp]: "as_num j = Inr n \<longleftrightarrow> j = JNum n"
  by (cases j) auto

lemma mapE_as_num: "mapE as_num js = Inr xs \<longleftrightarrow> js = map JNum xs"
proof (induction js arbitrary: xs)
  case Nil
  then show ?case by auto
next
  case (Cons j js)
  then show ?case by (cases xs) (auto simp: bindE_Inr_iff)
qed

lemma mapE_as_num_JNum [simp]: "mapE as_num (map JNum xs) = Inr xs"
  by (simp add: mapE_as_num)

end
