(* ===== verification/PyText.thy ===== *)
theory PyText
  imports PyValue
begin

text \<open>
  The string operations the code uses. A Python \<^verbatim>\<open>str\<close> is the list of its UTF-8 bytes; white
  space, digits, letters and line boundaries are recognised in ASCII, which is what wrk, Vegeta,
  pidstat and vmstat print. Then the number formats: \<^verbatim>\<open>int(s)\<close> and \<^verbatim>\<open>float(s)\<close> with Python's
  grammar (sign, underscores between digits, exponent), \<^verbatim>\<open>str(n)\<close> and the fixed-point format
  \<^verbatim>\<open>f"{x:.3f}"\<close>. The words for infinities and NaN make \<^verbatim>\<open>float\<close> leave the model.
\<close>

section \<open>Characters\<close>

abbreviation code :: "char \<Rightarrow> int" where
  "code c \<equiv> of_char c"

definition is_space :: "char \<Rightarrow> bool" where
  "is_space c \<longleftrightarrow> (9 \<le> code c \<and> code c \<le> 13) \<or> (28 \<le> code c \<and> code c \<le> 32)"

definition is_linebreak :: "char \<Rightarrow> bool" where
  "is_linebreak c \<longleftrightarrow> (10 \<le> code c \<and> code c \<le> 13) \<or> (28 \<le> code c \<and> code c \<le> 30)"

definition is_digit :: "char \<Rightarrow> bool" where
  "is_digit c \<longleftrightarrow> 48 \<le> code c \<and> code c \<le> 57"

definition is_upper :: "char \<Rightarrow> bool" where
  "is_upper c \<longleftrightarrow> 65 \<le> code c \<and> code c \<le> 90"

definition is_lower :: "char \<Rightarrow> bool" where
  "is_lower c \<longleftrightarrow> 97 \<le> code c \<and> code c \<le> 122"

definition to_upper :: "char \<Rightarrow> char" where
  "to_upper c = (if is_lower c then char_of (code c - 32) else c)"

definition to_lower :: "char \<Rightarrow> char" where
  "to_lower c = (if is_upper c then char_of (code c + 32) else c)"

section \<open>Strings\<close>

definition lstrip :: "string \<Rightarrow> string" where
  "lstrip s = dropWhile is_space s"

definition rstrip :: "string \<Rightarrow> string" where
  "rstrip s = rev (dropWhile is_space (rev s))"

definition strip :: "string \<Rightarrow> string" where
  "strip s = rstrip (lstrip s)"

text \<open>\<^verbatim>\<open>s.split()\<close>: the maximal runs of non-space characters. The accumulator is the word that is
  being read, reversed.\<close>

fun split_acc :: "string \<Rightarrow> string \<Rightarrow> string list" where
  "split_acc w [] = (if w = [] then [] else [rev w])"
| "split_acc w (c # cs) = (if is_space c
     then (if w = [] then split_acc [] cs else rev w # split_acc [] cs)
     else split_acc (c # w) cs)"

definition py_split :: "string \<Rightarrow> string list" where
  "py_split s = split_acc [] s"

text \<open>\<^verbatim>\<open>s.splitlines()\<close>: \<^verbatim>\<open>\r\n\<close> is one boundary, and a final boundary starts no further line.\<close>

fun lines_acc :: "string \<Rightarrow> string \<Rightarrow> string list" where
  "lines_acc w [] = (if w = [] then [] else [rev w])"
| "lines_acc w (c # cs) = (if is_linebreak c
     then rev w # lines_acc [] (if code c = 13 \<and> cs \<noteq> [] \<and> code (hd cs) = 10 then tl cs else cs)
     else lines_acc (c # w) cs)"

definition splitlines :: "string \<Rightarrow> string list" where
  "splitlines s = lines_acc [] s"

text \<open>\<^verbatim>\<open>s.replace(old, new)\<close> for a non-empty \<^verbatim>\<open>old\<close>: all occurrences, left to right.\<close>

function py_replace :: "string \<Rightarrow> string \<Rightarrow> string \<Rightarrow> string" where
  "py_replace old new [] = []"
| "py_replace old new (c # cs) =
     (if old \<noteq> [] \<and> is_prefix old (c # cs) then new @ py_replace old new (drop (length old) (c # cs))
      else c # py_replace old new cs)"
  by pat_completeness auto
termination
  by (relation "measure (\<lambda>(old, new, s). length s)") (auto simp: neq_Nil_conv)

text \<open>\<^verbatim>\<open>s.title()\<close>: a letter after a letter is lower case, any other letter upper case.\<close>

fun title_acc :: "bool \<Rightarrow> string \<Rightarrow> string" where
  "title_acc prev [] = []"
| "title_acc prev (c # cs) =
     (if is_upper c \<or> is_lower c
      then (if prev then to_lower c else to_upper c) # title_acc True cs
      else c # title_acc False cs)"

definition title :: "string \<Rightarrow> string" where
  "title s = title_acc False s"

definition upper :: "string \<Rightarrow> string" where
  "upper s = map to_upper s"

fun join :: "string \<Rightarrow> string list \<Rightarrow> string" where
  "join sep [] = []"
| "join sep [x] = x"
| "join sep (x # y # xs) = x @ sep @ join sep (y # xs)"

text \<open>\<^verbatim>\<open>Path(s).stem\<close> of a path without a trailing slash or dot: the last component without its last
  suffix.\<close>

definition last_component :: "string \<Rightarrow> string" where
  "last_component s = rev (takeWhile (\<lambda>c. c \<noteq> CHR ''/'') (rev s))"

definition stem :: "string \<Rightarrow> string" where
  "stem s = (let name = last_component s;
       suf = takeWhile (\<lambda>c. c \<noteq> CHR ''.'') (rev name);
       base = drop (length suf + 1) (rev name)
     in if suf \<noteq> [] \<and> base \<noteq> [] then rev base else name)"

section \<open>Numbers as text\<close>

definition digit_val :: "char \<Rightarrow> int" where
  "digit_val c = code c - 48"

definition digit_char :: "int \<Rightarrow> char" where
  "digit_char d = char_of (48 + d)"

definition digits_val :: "string \<Rightarrow> int" where
  "digits_val s = foldl (\<lambda>a c. 10 * a + digit_val c) 0 s"

function digits_str :: "int \<Rightarrow> string" where
  "digits_str n = (if n < 10 then [digit_char n] else digits_str (n div 10) @ [digit_char (n mod 10)])"
  by pat_completeness auto
termination
  by (relation "measure nat") auto

declare digits_str.simps [simp del]

definition int_str :: "int \<Rightarrow> string" where
  "int_str n = (if n < 0 then CHR ''-'' # digits_str (- n) else digits_str n)"

text \<open>A run of digits with single underscores between digits.\<close>

fun digit_run :: "string \<Rightarrow> bool" where
  "digit_run [] = False"
| "digit_run [c] = is_digit c"
| "digit_run (c # d # cs) = (is_digit c \<and> (if d = CHR ''_'' then digit_run cs else digit_run (d # cs)))"

definition run_val :: "string \<Rightarrow> int" where
  "run_val s = digits_val (filter is_digit s)"

fun split_sign :: "string \<Rightarrow> int \<times> string" where
  "split_sign [] = (1, [])"
| "split_sign (c # cs) = (if c = CHR ''-'' then (- 1, cs) else if c = CHR ''+'' then (1, cs) else (1, c # cs))"

definition py_int :: "string \<Rightarrow> int result" where
  "py_int s = (let (sg, t) = split_sign (strip s)
     in if digit_run t then Inr (sg * run_val t) else Inl ValueError)"

definition nonfinite_words :: "string list" where
  "nonfinite_words = [''inf'', ''infinity'', ''nan'']"

definition is_exp_char :: "char \<Rightarrow> bool" where
  "is_exp_char c \<longleftrightarrow> c = CHR ''e'' \<or> c = CHR ''E''"

definition parse_decimal :: "string \<Rightarrow> rat result" where
  "parse_decimal t =
     (let mant = takeWhile (\<lambda>c. \<not> is_exp_char c) t;
          ex = drop (length mant) t;
          ip = takeWhile (\<lambda>c. c \<noteq> CHR ''.'') mant;
          fp = drop (length ip + 1) mant;
          (esg, ed) = split_sign (tl ex)
      in if (ip = [] \<or> digit_run ip) \<and> (fp = [] \<or> digit_run fp) \<and> \<not> (ip = [] \<and> fp = [])
            \<and> (ex = [] \<or> digit_run ed)
         then Inr ((of_int (run_val ip) + of_int (run_val fp) / 10 ^ length (filter is_digit fp))
                   * (if ex = [] then 1 else 10 powi (esg * run_val ed)))
         else Inl ValueError)"

definition py_float :: "string \<Rightarrow> pynum result" where
  "py_float s = (let (sg, t) = split_sign (strip s)
     in if map to_lower t \<in> set nonfinite_words then Inl Unmodelled
        else bindE (parse_decimal t) (\<lambda>r. Inr (PFloat (fl (of_int sg * r)))))"

text \<open>\<^verbatim>\<open>f"{x:.kf}"\<close>: the exact value rounded half-even to \<^verbatim>\<open>k\<close> decimals.\<close>

fun pad_digits :: "nat \<Rightarrow> int \<Rightarrow> string" where
  "pad_digits 0 n = []"
| "pad_digits (Suc k) n = pad_digits k (n div 10) @ [digit_char (n mod 10)]"

definition format_fixed :: "nat \<Rightarrow> rat \<Rightarrow> string" where
  "format_fixed k x = (let m = rhe (\<bar>x\<bar> * 10 ^ k)
     in (if x < 0 then ''-'' else []) @ digits_str (m div 10 ^ k)
        @ (if k = 0 then [] else CHR ''.'' # pad_digits k (m mod 10 ^ k)))"

text \<open>\<^verbatim>\<open>str(v)\<close> of a JSON value; the text of a float (\<^verbatim>\<open>repr\<close>) and of a container is outside the
  model.\<close>

fun py_str :: "json \<Rightarrow> string result" where
  "py_str (JStr s) = Inr s"
| "py_str (JNum (PInt n)) = Inr (int_str n)"
| "py_str (JBool b) = Inr (if b then ''True'' else ''False'')"
| "py_str JNull = Inr ''None''"
| "py_str _ = Inl Unmodelled"

section \<open>Splitting\<close>

definition is_word :: "string \<Rightarrow> bool" where
  "is_word w \<longleftrightarrow> w \<noteq> [] \<and> list_all (\<lambda>c. \<not> is_space c) w"

lemma split_acc_words:
  "list_all (\<lambda>c. \<not> is_space c) w \<Longrightarrow> x \<in> set (split_acc w s) \<Longrightarrow> is_word x"
proof (induction w s rule: split_acc.induct)
  case (1 w)
  then show ?case by (auto simp: is_word_def split: if_splits)
next
  case (2 w c cs)
  then show ?case by (cases "is_space c"; cases "w = []") (auto simp: is_word_def)
qed

lemma py_split_words: "w \<in> set (py_split s) \<Longrightarrow> is_word w"
  unfolding py_split_def by (rule split_acc_words) simp_all

lemma split_acc_word:
  "list_all (\<lambda>c. \<not> is_space c) u \<Longrightarrow> split_acc w (u @ s) = split_acc (rev u @ w) s"
  by (induction u arbitrary: w) simp_all

lemma split_acc_spaces: "list_all is_space u \<Longrightarrow> split_acc [] (u @ s) = split_acc [] s"
  by (induction u) simp_all

lemma py_split_cons:
  assumes "is_word w" and "sp \<noteq> []" and "list_all is_space sp"
  shows "py_split (w @ sp @ s) = w # py_split s"
proof -
  obtain c cs where sp: "sp = c # cs" "is_space c" "list_all is_space cs"
    using assms(2,3) by (cases sp) auto
  have "py_split (w @ sp @ s) = split_acc (rev w) (sp @ s)"
    using assms(1) by (simp add: py_split_def split_acc_word is_word_def)
  also have "\<dots> = w # split_acc [] (cs @ s)" using assms(1) sp by (simp add: is_word_def)
  finally show ?thesis using sp(3) by (simp add: py_split_def split_acc_spaces)
qed

lemma py_split_single: "is_word w \<Longrightarrow> py_split w = [w]"
  using split_acc_word [of w "[]" "[]"] by (simp add: py_split_def is_word_def)

lemma is_space_blank: "is_space CHR '' ''"
  by (simp add: is_space_def)

lemma py_split_join: "list_all is_word ws \<Longrightarrow> py_split (join '' '' ws) = ws"
proof (induction "'' ''" ws rule: join.induct)
  case 1
  show ?case by (simp add: py_split_def)
next
  case (2 x)
  then show ?case by (simp add: py_split_single)
next
  case (3 x y xs)
  then show ?case using py_split_cons [of x "'' ''" "join '' '' (y # xs)"]
    by (simp add: is_space_blank)
qed

section \<open>Reading back what is printed\<close>

lemma digit_char_props:
  assumes "0 \<le> d" and "d < 10"
  shows "is_digit (digit_char d)" and "digit_val (digit_char d) = d"
  using assms by (simp_all add: is_digit_def digit_char_def digit_val_def)

lemma digits_val_append: "digits_val (s @ t) = digits_val s * 10 ^ length t + digits_val t"
proof (induction t rule: rev_induct)
  case Nil
  then show ?case by (simp add: digits_val_def)
next
  case (snoc c t)
  then show ?case by (simp add: digits_val_def flip: append_assoc)
qed

lemma digits_str_props:
  "0 \<le> n \<Longrightarrow> digits_val (digits_str n) = n \<and> list_all is_digit (digits_str n) \<and> digits_str n \<noteq> []"
proof (induction n rule: digits_str.induct)
  case (1 n)
  show ?case
  proof (cases "n < 10")
    case True
    with 1 show ?thesis
      by (simp add: digits_str.simps [of n] digits_val_def digit_char_props)
  next
    case False
    have "0 \<le> n mod 10" "n mod 10 < 10" by simp_all
    with 1 False show ?thesis
      by (simp add: digits_str.simps [of n] digits_val_append digit_char_props)
        (simp add: digits_val_def digit_char_props)
  qed
qed

lemma pad_digits_props:
  "0 \<le> n \<Longrightarrow> n < 10 ^ k \<Longrightarrow>
    digits_val (pad_digits k n) = n \<and> list_all is_digit (pad_digits k n) \<and> length (pad_digits k n) = k"
proof (induction k arbitrary: n)
  case 0
  then show ?case by (simp add: digits_val_def)
next
  case (Suc k)
  have "0 \<le> n div 10" "n div 10 < 10 ^ k" using Suc.prems by (simp_all add: pos_imp_zdiv_nonneg_iff)
  note IH = Suc.IH [OF this]
  have "0 \<le> n mod 10" "n mod 10 < 10" by simp_all
  note d = digit_char_props [OF this]
  show ?case using IH d by (simp add: digits_val_append) (simp add: digits_val_def)
qed

lemma digit_not_special:
  "is_digit c \<Longrightarrow> \<not> is_space c \<and> c \<noteq> CHR ''.'' \<and> c \<noteq> CHR ''-'' \<and> c \<noteq> CHR ''+'' \<and> c \<noteq> CHR ''_''
    \<and> \<not> is_exp_char c \<and> to_lower c = c"
  by (auto simp: is_digit_def is_space_def is_exp_char_def to_lower_def is_upper_def)

lemma digits_plain:
  assumes "list_all is_digit s"
  shows "list_all (\<lambda>c. \<not> is_space c) s" and "list_all (\<lambda>c. c \<noteq> CHR ''.'') s"
    and "list_all (\<lambda>c. \<not> is_exp_char c) s"
  using assms by (induction s) (simp_all add: digit_not_special)

lemma digit_run_digits: "s \<noteq> [] \<Longrightarrow> list_all is_digit s \<Longrightarrow> digit_run s"
  by (induction s rule: digit_run.induct) (auto dest: digit_not_special)

lemma filter_digits: "list_all is_digit s \<Longrightarrow> filter is_digit s = s"
  by (simp add: list_all_iff)

lemma strip_no_space:
  assumes "list_all (\<lambda>c. \<not> is_space c) s"
  shows "strip s = s"
proof (cases "s = []")
  case True
  then show ?thesis by (simp add: strip_def lstrip_def rstrip_def)
next
  case False
  then have "\<not> is_space (hd s)" "\<not> is_space (hd (rev s))" using assms by (auto simp: list_all_iff hd_rev)
  with False have "dropWhile is_space s = s" "dropWhile is_space (rev s) = rev s"
    by (simp_all add: dropWhile_eq_self_iff)
  then show ?thesis by (simp add: strip_def lstrip_def rstrip_def)
qed

lemma py_int_digits: "s \<noteq> [] \<Longrightarrow> list_all is_digit s \<Longrightarrow> py_int s = Inr (digits_val s)"
proof -
  assume s: "s \<noteq> []" "list_all is_digit s"
  then obtain c cs where c: "s = c # cs" "is_digit c" by (cases s) auto
  have "strip s = s" using s(2) by (intro strip_no_space digits_plain)
  moreover have "split_sign s = (1, s)" using c digit_not_special [of c] by simp
  ultimately show ?thesis
    using s by (simp add: py_int_def digit_run_digits run_val_def filter_digits)
qed

text \<open>Printing an integer and reading it gives the integer back.\<close>

lemma py_int_int_str: "py_int (int_str n) = Inr n"
proof (cases "n < 0")
  case False
  then show ?thesis using digits_str_props [of n] by (simp add: int_str_def py_int_digits)
next
  case True
  then have d: "digits_val (digits_str (- n)) = - n" "list_all is_digit (digits_str (- n))"
      "digits_str (- n) \<noteq> []"
    using digits_str_props [of "- n"] by simp_all
  have "strip (CHR ''-'' # digits_str (- n)) = CHR ''-'' # digits_str (- n)"
    using d(2) by (intro strip_no_space) (simp add: digits_plain, simp add: is_space_def)
  with True d show ?thesis
    by (simp add: int_str_def py_int_def digit_run_digits run_val_def filter_digits)
qed

lemma takeWhile_stop: "list_all P s \<Longrightarrow> \<not> P c \<Longrightarrow> takeWhile P (s @ c # t) = s"
  by (induction s) simp_all

text \<open>A decimal with digits on both sides of the point is read exactly.\<close>

lemma parse_decimal_digits:
  assumes "list_all is_digit a" and "list_all is_digit b" and "a \<noteq> []" and "b \<noteq> []"
  shows "parse_decimal (a @ CHR ''.'' # b) = Inr (of_int (digits_val a) + of_int (digits_val b) / 10 ^ length b)"
proof -
  let ?t = "a @ CHR ''.'' # b"
  have mant: "takeWhile (\<lambda>c. \<not> is_exp_char c) ?t = ?t"
    using digits_plain(3) [OF assms(1)] digits_plain(3) [OF assms(2)]
    by (auto simp: takeWhile_eq_all_conv list_all_iff is_exp_char_def)
  have ip: "takeWhile (\<lambda>c. c \<noteq> CHR ''.'') ?t = a"
    using digits_plain(2) [OF assms(1)] by (intro takeWhile_stop) simp_all
  show ?thesis
    unfolding parse_decimal_def Let_def mant ip
    using assms by (simp add: digit_run_digits run_val_def filter_digits)
qed

lemma of_int_div_mod:
  "(0::int) < t \<Longrightarrow> of_int (m div t) + of_int (m mod t) / of_int t = (of_int m / of_int t :: rat)"
proof -
  assume t: "0 < t"
  have "(of_int m :: rat) = of_int (m div t * t + m mod t)" by (simp only: div_mult_mod_eq)
  also have "\<dots> = of_int (m div t) * of_int t + of_int (m mod t)" by (simp only: of_int_add of_int_mult)
  finally have e: "(of_int m :: rat) = of_int (m div t) * of_int t + of_int (m mod t)" .
  show ?thesis unfolding e using t by (simp add: add_divide_distrib)
qed

text \<open>The value a reader gets back from \<^verbatim>\<open>f"{x:.kf}"\<close> is within half a unit of the last decimal.\<close>

lemma format_fixed_error:
  assumes "0 \<le> x" and "0 < k"
  shows "\<exists>y. parse_decimal (format_fixed k x) = Inr y \<and> \<bar>y - x\<bar> \<le> 1 / (2 * 10 ^ k)"
proof -
  let ?m = "rhe (\<bar>x\<bar> * 10 ^ k)"
  have m: "0 \<le> ?m" using assms rhe_mono [of 0 "\<bar>x\<bar> * 10 ^ k"] rhe_of_int [of 0] by simp
  have q: "0 \<le> ?m div 10 ^ k" "0 \<le> ?m mod 10 ^ k" "?m mod 10 ^ k < 10 ^ k"
    using m by (simp_all add: pos_imp_zdiv_nonneg_iff)
  note a = digits_str_props [OF q(1)] and b = pad_digits_props [OF q(2,3)]
  have "pad_digits k (?m mod 10 ^ k) \<noteq> []" using b assms(2) by auto
  then have "parse_decimal (format_fixed k x) =
      Inr (of_int (?m div 10 ^ k) + of_int (?m mod 10 ^ k) / 10 ^ k)"
    using a b assms by (simp add: format_fixed_def Let_def parse_decimal_digits)
  moreover have "of_int (?m div 10 ^ k) + of_int (?m mod 10 ^ k) / 10 ^ k = (of_int ?m / 10 ^ k :: rat)"
    using of_int_div_mod [of "10 ^ k" ?m] by simp
  moreover have "\<bar>of_int ?m / 10 ^ k - x\<bar> \<le> 1 / (2 * 10 ^ k)"
    using rhe_error [of "\<bar>x\<bar> * 10 ^ k"] assms(1)
    by (simp add: abs_le_iff field_simps)
  ultimately show ?thesis by simp
qed

end
