(* ===== verification/PyRegex.thy ===== *)
theory PyRegex
  imports PyText
begin

text \<open>
  The fragment of Python's \<^verbatim>\<open>re\<close> module that the parser's patterns use: literals, greedy
  repetitions of a character class (captured or not) and captured alternatives of literals, in
  sequence. \<open>rmatch\<close> matches at the start of a text, backtracking from the longest repetition to
  the shortest as \<^verbatim>\<open>re\<close> does, and returns the captured groups; \<open>rsearch\<close> tries the positions from
  left to right (\<^verbatim>\<open>re.search\<close>).
\<close>

datatype cclass = Space | Digit | DigitDot

fun in_class :: "cclass \<Rightarrow> char \<Rightarrow> bool" where
  "in_class Space c = is_space c"
| "in_class Digit c = is_digit c"
| "in_class DigitDot c = (is_digit c \<or> c = CHR ''.'')"

datatype ritem =
    Lit string
  | Plus cclass
  | GroupPlus cclass
  | GroupAlt "string list"

type_synonym regex = "ritem list"

fun first_some :: "('a \<Rightarrow> 'b option) \<Rightarrow> 'a list \<Rightarrow> 'b option" where
  "first_some f [] = None"
| "first_some f (x # xs) = (case f x of None \<Rightarrow> first_some f xs | Some y \<Rightarrow> Some y)"

text \<open>The numbers of repetitions a greedy \<^verbatim>\<open>+\<close> tries, longest first.\<close>

definition repetitions :: "cclass \<Rightarrow> string \<Rightarrow> nat list" where
  "repetitions cl s = rev [1..<Suc (length (takeWhile (in_class cl) s))]"

primrec rmatch :: "regex \<Rightarrow> string \<Rightarrow> string list option" where
  "rmatch [] s = Some []"
| "rmatch (it # re) s = (case it of
      Lit l \<Rightarrow> if is_prefix l s then rmatch re (drop (length l) s) else None
    | Plus cl \<Rightarrow> first_some (\<lambda>n. rmatch re (drop n s)) (repetitions cl s)
    | GroupPlus cl \<Rightarrow>
        first_some (\<lambda>n. map_option (\<lambda>g. take n s # g) (rmatch re (drop n s))) (repetitions cl s)
    | GroupAlt alts \<Rightarrow>
        first_some (\<lambda>a. if is_prefix a s then map_option (\<lambda>g. a # g) (rmatch re (drop (length a) s))
                        else None) alts)"

fun rsearch :: "regex \<Rightarrow> string \<Rightarrow> string list option" where
  "rsearch re [] = rmatch re []"
| "rsearch re (c # cs) = (case rmatch re (c # cs) of Some g \<Rightarrow> Some g | None \<Rightarrow> rsearch re cs)"

text \<open>Number of groups of a pattern.\<close>

fun item_groups :: "ritem \<Rightarrow> nat" where
  "item_groups (GroupPlus _) = 1"
| "item_groups (GroupAlt _) = 1"
| "item_groups _ = 0"

definition groups :: "regex \<Rightarrow> nat" where
  "groups re = sum_list (map item_groups re)"

section \<open>Matching\<close>

lemma first_some_SomeD: "first_some f xs = Some y \<Longrightarrow> \<exists>x \<in> set xs. f x = Some y"
  by (induction xs) (auto split: option.splits)

lemma first_some_first: "f x = Some y \<Longrightarrow> first_some f (x # xs) = Some y"
  by simp

lemma rmatch_groups: "rmatch re s = Some g \<Longrightarrow> length g = groups re"
proof (induction re arbitrary: s g)
  case Nil
  then show ?case by (simp add: groups_def)
next
  case (Cons it re)
  then show ?case
    by (cases it) (fastforce simp: groups_def split: if_splits dest!: first_some_SomeD)+
qed

lemma rsearch_groups: "rsearch re s = Some g \<Longrightarrow> length g = groups re"
  by (induction re s rule: rsearch.induct) (auto dest: rmatch_groups split: option.splits)

text \<open>The leftmost match wins: a match after a prefix in which no match starts is the one found.\<close>

lemma rsearch_skip:
  assumes "\<And>i. i < length pre \<Longrightarrow> rmatch re (drop i (pre @ s)) = None"
  shows "rsearch re (pre @ s) = rsearch re s"
  using assms
proof (induction pre)
  case Nil
  then show ?case by simp
next
  case (Cons c pre)
  have "rmatch re (c # pre @ s) = None" using Cons.prems [of 0] by simp
  moreover have "rsearch re (pre @ s) = rsearch re s"
    using Cons.prems [of "Suc i" for i] by (intro Cons.IH) simp
  ultimately show ?case by simp
qed

lemma rsearch_here: "rmatch re s = Some g \<Longrightarrow> rsearch re s = Some g"
  by (cases s) simp_all

lemma rmatch_Lit_None: "\<not> is_prefix l s \<Longrightarrow> rmatch (Lit l # re) s = None"
  by simp

lemma repetitions_greedy:
  assumes "u \<noteq> []" and "list_all (in_class cl) u" and "t = [] \<or> \<not> in_class cl (hd t)"
  shows "\<exists>ns. repetitions cl (u @ t) = length u # ns"
proof -
  have "takeWhile (in_class cl) (u @ t) = u"
    using assms(2,3) by (cases t) (auto simp: takeWhile_append list_all_iff)
  moreover obtain n where "length u = Suc n" using assms(1) by (cases u) auto
  ultimately show ?thesis by (simp add: repetitions_def)
qed

lemma rmatch_Plus:
  assumes "u \<noteq> []" and "list_all (in_class cl) u" and "t = [] \<or> \<not> in_class cl (hd t)"
    and "rmatch re t = Some g"
  shows "rmatch (Plus cl # re) (u @ t) = Some g" and "rmatch (GroupPlus cl # re) (u @ t) = Some (u # g)"
  using repetitions_greedy [OF assms(1-3)] assms(4) by auto

lemma rmatch_Lit: "rmatch re t = Some g \<Longrightarrow> rmatch (Lit l # re) (l @ t) = Some g"
  by simp

end
