(* ===== verification/Parser.thy ===== *)
theory Parser
  imports PyRegex
begin

text \<open>
  \<^verbatim>\<open>docs/benchmarking/analysis/parser.py\<close>: the parsers of the four raw outputs of a benchmark run
  (wrk's text report, Vegeta's JSON report, pidstat's and vmstat's tables) and the program that
  writes \<^verbatim>\<open>parsed.json\<close> into the run's directory. A run directory is the record of the files the
  analysis reads and writes; a JSON file is absent, not decodable, or a document.
\<close>

section \<open>Run directories\<close>

datatype json_file = Absent | Garbled | Doc json

fun load_json :: "string \<Rightarrow> json_file \<Rightarrow> json result" where
  "load_json name Absent = Inl (FileNotFoundError name)"
| "load_json name Garbled = Inl (JSONDecodeError name)"
| "load_json name (Doc j) = Inr j"

fun file_exists :: "json_file \<Rightarrow> bool" where
  "file_exists Absent = False"
| "file_exists _ = True"

record run_dir =
  wrk_txt :: "string option"
  vegeta_json :: json_file
  pidstat_txt :: "string option"
  vmstat_txt :: "string option"
  histogram_txt :: "string option"
  parsed_json :: json_file

section \<open>wrk\<close>

definition wrk_patterns :: "(string \<times> regex) list" where
  "wrk_patterns =
    [(''latency_avg_ms'', [Lit ''Latency'', Plus Space, GroupPlus DigitDot, GroupAlt [''ms'', ''us'', ''s'']]),
     (''requests_per_sec'', [Lit ''Requests/sec:'', Plus Space, GroupPlus DigitDot]),
     (''transfer_mb_per_sec'', [Lit ''Transfer/sec:'', Plus Space, GroupPlus DigitDot, GroupAlt [''KB'', ''MB'', ''GB'']]),
     (''total_requests'', [GroupPlus Digit, Plus Space, Lit ''requests in'']),
     (''socket_errors'', [Lit ''Socket errors: connect '', GroupPlus Digit, Lit '', read '', GroupPlus Digit,
        Lit '', write '', GroupPlus Digit, Lit '', timeout '', GroupPlus Digit]),
     (''non_success_responses'', [Lit ''Non-2xx or 3xx responses:'', Plus Space, GroupPlus Digit])]"

text \<open>\<^verbatim>\<open>match.group(i)\<close>\<close>

definition group :: "string list \<Rightarrow> nat \<Rightarrow> string" where
  "group g i = g ! (i - 1)"

definition scale_transfer :: "string \<Rightarrow> pynum \<Rightarrow> pynum result" where
  "scale_transfer unit value =
     (if unit = ''KB'' then num_truediv value (PInt 1024)
      else if unit = ''GB'' then Inr (num_mul value (PInt 1024))
      else Inr value)"

definition scale_latency :: "string \<Rightarrow> pynum \<Rightarrow> pynum result" where
  "scale_latency unit value =
     (if unit = ''us'' then num_truediv value (PInt 1000)
      else if unit = ''s'' then Inr (num_mul value (PInt 1000))
      else Inr value)"

definition wrk_value :: "string \<Rightarrow> string list \<Rightarrow> json result" where
  "wrk_value key g =
     (if key = ''socket_errors'' then
        bindE (py_int (group g 1)) (\<lambda>c.
        bindE (py_int (group g 2)) (\<lambda>r.
        bindE (py_int (group g 3)) (\<lambda>w.
        bindE (py_int (group g 4)) (\<lambda>t.
        Inr (JObj [(''connect'', JNum (PInt c)), (''read'', JNum (PInt r)),
                   (''write'', JNum (PInt w)), (''timeout'', JNum (PInt t))])))))
      else if key = ''transfer_mb_per_sec'' then
        bindE (py_float (group g 1)) (\<lambda>value.
        bindE (scale_transfer (group g 2) value) (\<lambda>v. Inr (JNum v)))
      else if length g = 1 then
        (case py_float (group g 1) of
           Inr v \<Rightarrow> Inr (JNum v)
         | Inl ValueError \<Rightarrow> Inr (JStr (group g 1))
         | Inl e \<Rightarrow> Inl e)
      else
        bindE (py_float (group g 1)) (\<lambda>value.
        bindE (scale_latency (group g 2) value) (\<lambda>v. Inr (JNum v))))"

definition wrk_step :: "string \<Rightarrow> string \<times> regex \<Rightarrow> json dict \<Rightarrow> json dict result" where
  "wrk_step text kp result = (case rsearch (snd kp) text of
      None \<Rightarrow> Inr result
    | Some g \<Rightarrow> bindE (wrk_value (fst kp) g) (\<lambda>v. Inr (dict_put (fst kp) v result)))"

definition parse_wrk :: "string \<Rightarrow> json result" where
  "parse_wrk text = bindE (foldE (wrk_step text) wrk_patterns []) (\<lambda>d. Inr (JObj d))"

section \<open>Vegeta\<close>

text \<open>\<^verbatim>\<open>latencies[key] / 1_000_000\<close>\<close>

definition latency_ms :: "json \<Rightarrow> string \<Rightarrow> json result" where
  "latency_ms latencies key =
     bindE (getitem latencies key) (\<lambda>v.
     bindE (as_num v) (\<lambda>n.
     bindE (num_truediv n (PInt 1000000)) (\<lambda>q. Inr (JNum q))))"

definition getitem2 :: "json \<Rightarrow> string \<Rightarrow> string \<Rightarrow> json result" where
  "getitem2 j k l = bindE (getitem j k) (\<lambda>v. getitem v l)"

definition vegeta_fields :: "json \<Rightarrow> json \<Rightarrow> (string \<times> json result) list" where
  "vegeta_fields data latencies =
       [(''requests'', getitem data ''requests''),
        (''rate'', getitem data ''rate''),
        (''throughput'', getitem data ''throughput''),
        (''success_ratio'', getitem data ''success''),
        (''latency_mean_ms'', latency_ms latencies ''mean''),
        (''latency_p50_ms'', latency_ms latencies ''50th''),
        (''latency_p95_ms'', latency_ms latencies ''95th''),
        (''latency_p99_ms'', latency_ms latencies ''99th''),
        (''latency_max_ms'', latency_ms latencies ''max''),
        (''bytes_in_total'', getitem2 data ''bytes_in'' ''total''),
        (''bytes_in_mean'', getitem2 data ''bytes_in'' ''mean''),
        (''bytes_out_total'', getitem2 data ''bytes_out'' ''total''),
        (''bytes_out_mean'', getitem2 data ''bytes_out'' ''mean''),
        (''status_codes'', dict_get_default data ''status_codes'' (JObj [])),
        (''errors'', dict_get_default data ''errors'' (JList []))]"

definition parse_vegeta :: "json \<Rightarrow> json result" where
  "parse_vegeta data =
     bindE (getitem data ''latencies'') (\<lambda>latencies.
     bindE (displayE (vegeta_fields data latencies)) (\<lambda>d.
     Inr (JObj d)))"

section \<open>pidstat\<close>

definition pidstat_row :: "string list \<Rightarrow> json result" where
  "pidstat_row cols =
     bindE (py_int (cols ! 3)) (\<lambda>pid.
     bindE (py_float (cols ! 8)) (\<lambda>cpu.
     bindE (py_int (cols ! 13)) (\<lambda>rss.
     bindE (py_float (cols ! 14)) (\<lambda>mem.
     Inr (JObj [(''time'', JStr (cols ! 0 @ '' '' @ cols ! 1)), (''pid'', JNum (PInt pid)),
                (''cpu'', JNum cpu), (''rss'', JNum (PInt rss)), (''mem'', JNum mem),
                (''command'', JStr (last cols))])))))"

text \<open>One iteration of the loop: the row it appends, if any. \<^verbatim>\<open>except Exception: pass\<close> drops a line
  whose columns are no numbers.\<close>

definition pidstat_line :: "string \<Rightarrow> json option result" where
  "pidstat_line line =
     (if strip line = [] then Inr None
      else if is_prefix ''#'' line then Inr None
      else if is_prefix ''Linux'' line then Inr None
      else if is_prefix ''Average'' line then Inr None
      else let cols = py_split line in
        if length cols < 17 then Inr None
        else (case pidstat_row cols of
            Inr row \<Rightarrow> Inr (Some row)
          | Inl Unmodelled \<Rightarrow> Inl Unmodelled
          | Inl _ \<Rightarrow> Inr None))"

definition append_row :: "'a option \<Rightarrow> 'a list \<Rightarrow> 'a list" where
  "append_row r rows = (case r of None \<Rightarrow> rows | Some row \<Rightarrow> rows @ [row])"

definition parse_pidstat :: "string \<Rightarrow> json list result" where
  "parse_pidstat text =
     foldE (\<lambda>line rows. bindE (pidstat_line line) (\<lambda>r. Inr (append_row r rows))) (splitlines text) []"

section \<open>vmstat\<close>

definition vmstat_columns :: "(string \<times> nat) list" where
  "vmstat_columns = [(''r'', 0), (''b'', 1), (''free'', 3), (''cache'', 5), (''bi'', 8), (''bo'', 9),
     (''interrupts'', 10), (''context_switches'', 11), (''cpu_user'', 12), (''cpu_system'', 13),
     (''cpu_idle'', 14), (''cpu_wait'', 15)]"

definition vmstat_row :: "string list \<Rightarrow> json result" where
  "vmstat_row cols =
     bindE (displayE (map (\<lambda>(k, i). (k, bindE (py_int (cols ! i)) (\<lambda>n. Inr (JNum (PInt n))))) vmstat_columns))
       (\<lambda>d. Inr (JObj d))"

definition vmstat_line :: "string \<Rightarrow> json option result" where
  "vmstat_line line =
     (if strip line = [] \<or> is_prefix ''procs'' line \<or> is_prefix ''r '' line then Inr None
      else let cols = py_split line in
        if length cols \<noteq> 17 then Inr None
        else bindE (vmstat_row cols) (\<lambda>row. Inr (Some row)))"

definition parse_vmstat :: "string \<Rightarrow> json list result" where
  "parse_vmstat text =
     foldE (\<lambda>line rows. bindE (vmstat_line line) (\<lambda>r. Inr (append_row r rows))) (splitlines text) []"

section \<open>The parser program\<close>

text \<open>The entry of one tool in \<^verbatim>\<open>output\<close>, if its file exists.\<close>

definition entry :: "string \<Rightarrow> 'f option \<Rightarrow> ('f \<Rightarrow> json result) \<Rightarrow> json dict \<Rightarrow> json dict result" where
  "entry key file parse output = (case file of
      None \<Rightarrow> Inr output
    | Some f \<Rightarrow> bindE (parse f) (\<lambda>v. Inr (dict_put key v output)))"

definition vegeta_file :: "json_file \<Rightarrow> json_file option" where
  "vegeta_file f = (if file_exists f then Some f else None)"

definition parse_run :: "run_dir \<Rightarrow> json result" where
  "parse_run run =
     bindE (entry ''wrk'' (wrk_txt run) parse_wrk []) (\<lambda>o1.
     bindE (entry ''vegeta'' (vegeta_file (vegeta_json run))
              (\<lambda>f. bindE (load_json ''vegeta.json'' f) parse_vegeta) o1) (\<lambda>o2.
     bindE (entry ''pidstat'' (pidstat_txt run) (\<lambda>t. bindE (parse_pidstat t) (\<lambda>rows. Inr (JList rows))) o2) (\<lambda>o3.
     bindE (entry ''vmstat'' (vmstat_txt run) (\<lambda>t. bindE (parse_vmstat t) (\<lambda>rows. Inr (JList rows))) o3) (\<lambda>o4.
     Inr (JObj o4)))))"

text \<open>\<^verbatim>\<open>parsed.json\<close> is opened for writing only after all four parsers have returned: \<^verbatim>\<open>open(..., "w")\<close>
  truncates it, which leaves an empty file that does not decode, and \<^verbatim>\<open>json.dump\<close> then fills it. A crash
  of the process between the two would leave the truncated file; \<^verbatim>\<open>json.dump\<close> itself cannot raise on the
  dictionaries, numbers and strings the parsers build.\<close>

definition parser_main :: "(run_dir, unit) action" where
  "parser_main =
     bindA (getA parse_run) (\<lambda>r.
     bindA (liftA r) (\<lambda>output.
     bindA (modifyA (parsed_json_update (\<lambda>_. Garbled))) (\<lambda>_.
     modifyA (parsed_json_update (\<lambda>_. Doc output)))))"

section \<open>What the wrk parser stores\<close>

text \<open>A loop over distinct keys: the entry of a key is what its own pattern gives.\<close>

lemma wrk_step_get:
  "wrk_step text (k, re) d = Inr d' \<Longrightarrow>
    dict_get d' k' = (if k' = k \<and> rsearch re text \<noteq> None
      then (case wrk_value k (the (rsearch re text)) of Inl _ \<Rightarrow> None | Inr v \<Rightarrow> Some v)
      else dict_get d k')"
  by (auto simp: wrk_step_def pydict.get_put split: option.splits elim!: bindE_InrE)

lemma wrk_fold_get:
  assumes "foldE (wrk_step text) ps d = Inr d'" and "distinct (map fst ps)"
  shows "dict_get d' k = (case map_of ps k of
      None \<Rightarrow> dict_get d k
    | Some re \<Rightarrow> (case rsearch re text of
        None \<Rightarrow> dict_get d k
      | Some g \<Rightarrow> (case wrk_value k g of Inl _ \<Rightarrow> None | Inr v \<Rightarrow> Some v)))"
  using assms
proof (induction ps arbitrary: d)
  case Nil
  then show ?case by simp
next
  case (Cons p ps)
  obtain k' re where p: "p = (k', re)" by fastforce
  from Cons.prems(1) obtain d1 where d1: "wrk_step text (k', re) d = Inr d1"
      and rest: "foldE (wrk_step text) ps d1 = Inr d'"
    by (auto simp: p elim: bindE_InrE)
  note IH = Cons.IH [OF rest]
  show ?case
  proof (cases "k = k'")
    case True
    with Cons.prems(2) have "map_of ps k = None" by (auto simp: p map_of_eq_None_iff)
    with True show ?thesis
      using IH Cons.prems(2) wrk_step_get [OF d1, of k] by (auto simp: p split: option.splits)
  next
    case False
    then show ?thesis
      using IH Cons.prems(2) wrk_step_get [OF d1, of k] by (auto simp: p split: option.splits)
  qed
qed

lemma wrk_keys_distinct: "distinct (map fst wrk_patterns)"
  by (simp add: wrk_patterns_def)

lemma wrk_fold_returns:
  assumes "foldE (wrk_step text) ps d = Inr d'" and "(k, re) \<in> set ps" and "rsearch re text = Some g"
  shows "\<not> isl (wrk_value k g)"
  using assms
  by (induction ps arbitrary: d) (auto simp: wrk_step_def bindE_Inr_iff split: option.splits elim!: bindE_InrE)

text \<open>A parse that returns has converted the leftmost match of every pattern that matches, and has no entry
  for a pattern that does not match.\<close>

lemma wrk_stored:
  assumes "parse_wrk text = Inr (JObj d)" and "map_of wrk_patterns k = Some re"
  shows "rsearch re text = Some g \<Longrightarrow> \<exists>v. wrk_value k g = Inr v \<and> dict_get d k = Some v"
    and "rsearch re text = None \<Longrightarrow> dict_get d k = None"
proof -
  from assms(1) have d: "foldE (wrk_step text) wrk_patterns [] = Inr d"
    by (auto simp: parse_wrk_def elim!: bindE_InrE)
  note get = wrk_fold_get [OF d wrk_keys_distinct, of k]
  show "\<exists>v. wrk_value k g = Inr v \<and> dict_get d k = Some v" if "rsearch re text = Some g"
    using get that assms(2) wrk_fold_returns [OF d map_of_SomeD [OF assms(2)] that]
    by (cases "wrk_value k g") simp_all
  show "dict_get d k = None" if "rsearch re text = None"
    using get that assms(2) by simp
qed

text \<open>Where a pattern that starts with a literal is found.\<close>

lemma rsearch_after:
  assumes "\<And>i. i < length pre \<Longrightarrow> \<not> is_prefix l (drop i (pre @ l @ t))"
    and "rmatch re t = Some g"
  shows "rsearch (Lit l # re) (pre @ l @ t) = Some g"
proof -
  have "rsearch (Lit l # re) (pre @ l @ t) = rsearch (Lit l # re) (l @ t)"
    using assms(1) by (intro rsearch_skip) (simp add: rmatch_Lit_None)
  also have "\<dots> = Some g" using assms(2) by (intro rsearch_here rmatch_Lit)
  finally show ?thesis .
qed

lemma not_space_digitdot: "in_class DigitDot c \<Longrightarrow> \<not> in_class Space c"
  by (auto simp: is_space_def is_digit_def)

lemma rmatch_latency:
  assumes "sp \<noteq> []" "list_all (in_class Space) sp" "num \<noteq> []" "list_all (in_class DigitDot) num"
    and "unit \<in> {''ms'', ''us'', ''s''}"
  shows "rmatch [Plus Space, GroupPlus DigitDot, GroupAlt [''ms'', ''us'', ''s'']] (sp @ num @ unit @ post)
    = Some [num, unit]"
proof -
  have alt: "rmatch [GroupAlt [''ms'', ''us'', ''s'']] (unit @ post) = Some [unit]"
    using assms(5) by auto
  have "\<not> in_class DigitDot (hd (unit @ post))"
    using assms(5) by (auto simp: is_digit_def)
  with alt assms(3,4) have "rmatch [GroupPlus DigitDot, GroupAlt [''ms'', ''us'', ''s'']] (num @ unit @ post) = Some [num, unit]"
    by (intro rmatch_Plus(2)) simp_all
  moreover have "\<not> in_class Space (hd (num @ unit @ post))"
    using assms(3,4) not_space_digitdot by (cases num) auto
  ultimately show ?thesis using assms(1,2) by (intro rmatch_Plus(1)) simp_all
qed

text \<open>C26. Latencies are normalised to milliseconds: if the first \<^verbatim>\<open>Latency\<close> of a wrk report is followed
  by blanks, a number and a unit, then a parse that returns stores that number, divided by 1000
  for microseconds, multiplied by 1000 for seconds, unchanged for milliseconds.\<close>

theorem parse_wrk_latency_ms:
  assumes "\<And>i. i < length pre \<Longrightarrow> \<not> is_prefix ''Latency'' (drop i (pre @ ''Latency'' @ sp @ num @ unit @ post))"
    and "sp \<noteq> []" "list_all (in_class Space) sp" "num \<noteq> []" "list_all (in_class DigitDot) num"
    and "unit \<in> {''ms'', ''us'', ''s''}" and "py_float num = Inr (PFloat x)"
    and "parse_wrk (pre @ ''Latency'' @ sp @ num @ unit @ post) = Inr (JObj d)"
  shows "dict_get d ''latency_avg_ms'' = Some (JNum (PFloat
    (if unit = ''us'' then fl (x / 1000) else if unit = ''s'' then fl (x * 1000) else x)))"
proof -
  let ?text = "pre @ ''Latency'' @ sp @ num @ unit @ post"
  let ?re = "[Lit ''Latency'', Plus Space, GroupPlus DigitDot, GroupAlt [''ms'', ''us'', ''s'']]"
  have m: "rsearch ?re ?text = Some [num, unit]"
    by (rule rsearch_after [OF assms(1) rmatch_latency [OF assms(2-6)]])
  have "map_of wrk_patterns ''latency_avg_ms'' = Some ?re" by (simp add: wrk_patterns_def)
  from wrk_stored(1) [OF assms(8) this m] assms(6,7) show ?thesis
    using b64.rnd_int [of 1000]
    by (auto simp: wrk_value_def group_def scale_latency_def num_truediv_def)
qed

theorem parse_wrk_latency_ms_witness:
  "dict_get [(''latency_avg_ms'', JNum (PFloat (1 / 2)))] ''latency_avg_ms'' =
    Some (JNum (PFloat (if ''us'' = ''us'' then fl (500 / 1000) else if ''us'' = ''s'' then fl (500 * 1000) else 500)))"
proof (rule parse_wrk_latency_ms [where pre = "'' ''" and sp = "''  ''" and num = "''500''" and post = "[]"])
  show "\<not> is_prefix ''Latency'' (drop i ('' '' @ ''Latency'' @ ''  '' @ ''500'' @ ''us'' @ []))"
    if "i < length '' ''" for i using that by simp
  show "py_float ''500'' = Inr (PFloat 500)" by code_simp
  show "parse_wrk ('' '' @ ''Latency'' @ ''  '' @ ''500'' @ ''us'' @ []) =
    Inr (JObj [(''latency_avg_ms'', JNum (PFloat (1 / 2)))])" by code_simp
qed (simp_all add: is_space_def is_digit_def)




lemma nowhere_before:
  "list_all (\<lambda>i. \<not> is_prefix l (drop i text)) [0..<n] \<Longrightarrow> i < n \<Longrightarrow> \<not> is_prefix l (drop i text)"
  by (simp add: list_all_iff)

abbreviation report_head :: string where
  "report_head \<equiv> ''    Latency   500.00us\<newline>  360 requests in 3.00s, 1.20MB read\<newline>''"



text \<open>The line on which wrk reports failed connections.\<close>

abbreviation socket_line :: "int \<Rightarrow> int \<Rightarrow> int \<Rightarrow> int \<Rightarrow> string" where
  "socket_line c r w t \<equiv> ''Socket errors: connect '' @ int_str c @ '', read '' @ int_str r @
     '', write '' @ int_str w @ '', timeout '' @ int_str t"

lemma rmatch_count:
  assumes "0 \<le> n" and "t = [] \<or> \<not> is_digit (hd t)" and "rmatch re t = Some g"
  shows "rmatch (GroupPlus Digit # re) (int_str n @ t) = Some (int_str n # g)"
  using digits_str_props [OF assms(1)] assms
  by (intro rmatch_Plus(2)) (simp_all add: int_str_def list_all_iff)

text \<open>C32. The error counts of a wrk report: if the first \<^verbatim>\<open>Socket errors: connect\<close> of a report starts the line
  on which wrk prints the numbers of failed connects, reads, writes and of timeouts, then a parse that
  returns stores those four numbers, each under its own name; a report without the line has no entry.\<close>

theorem parse_wrk_socket_errors:
  assumes "parse_wrk text = Inr (JObj d)"
  shows "(text = pre @ socket_line c r w t @ post \<and>
       (\<forall>i < length pre. \<not> is_prefix ''Socket errors: connect '' (drop i text)) \<and>
       0 \<le> c \<and> 0 \<le> r \<and> 0 \<le> w \<and> 0 \<le> t \<and> (post = [] \<or> \<not> is_digit (hd post)) \<longrightarrow>
     dict_get d ''socket_errors'' = Some (JObj [(''connect'', JNum (PInt c)), (''read'', JNum (PInt r)),
       (''write'', JNum (PInt w)), (''timeout'', JNum (PInt t))])) \<and>
    ((\<forall>i \<le> length text. \<not> is_prefix ''Socket errors: connect '' (drop i text)) \<longrightarrow>
     dict_get d ''socket_errors'' = None)"
proof (intro conjI impI)
  let ?re = "[GroupPlus Digit, Lit '', read '', GroupPlus Digit, Lit '', write '', GroupPlus Digit,
      Lit '', timeout '', GroupPlus Digit]"
  have key: "map_of wrk_patterns ''socket_errors'' = Some (Lit ''Socket errors: connect '' # ?re)"
    by (simp add: wrk_patterns_def)
  {
    assume a: "text = pre @ socket_line c r w t @ post \<and>
       (\<forall>i < length pre. \<not> is_prefix ''Socket errors: connect '' (drop i text)) \<and>
       0 \<le> c \<and> 0 \<le> r \<and> 0 \<le> w \<and> 0 \<le> t \<and> (post = [] \<or> \<not> is_digit (hd post))"
    let ?rest = "int_str c @ '', read '' @ int_str r @ '', write '' @ int_str w @ '', timeout '' @ int_str t @ post"
    have tx: "text = pre @ ''Socket errors: connect '' @ ?rest" using a by simp
    have "rmatch ?re ?rest = Some [int_str c, int_str r, int_str w, int_str t]"
      using a by (intro rmatch_count rmatch_Lit) (simp_all add: is_digit_def)
    moreover have "\<not> is_prefix ''Socket errors: connect '' (drop i (pre @ ''Socket errors: connect '' @ ?rest))"
      if "i < length pre" for i using a that unfolding tx [symmetric] by blast
    ultimately have "rsearch (Lit ''Socket errors: connect '' # ?re) text = Some [int_str c, int_str r, int_str w, int_str t]"
      unfolding tx by (intro rsearch_after)
    from wrk_stored(1) [OF assms key this]
    show "dict_get d ''socket_errors'' = Some (JObj [(''connect'', JNum (PInt c)), (''read'', JNum (PInt r)),
       (''write'', JNum (PInt w)), (''timeout'', JNum (PInt t))])"
      by (simp add: wrk_value_def group_def py_int_int_str)
  }
  assume n: "\<forall>i \<le> length text. \<not> is_prefix ''Socket errors: connect '' (drop i text)"
  have "rsearch (Lit ''Socket errors: connect '' # ?re) (text @ []) = rsearch (Lit ''Socket errors: connect '' # ?re) []"
    using n by (intro rsearch_skip rmatch_Lit_None) simp
  then have "rsearch (Lit ''Socket errors: connect '' # ?re) text = None" by simp
  from wrk_stored(2) [OF assms key this] show "dict_get d ''socket_errors'' = None" .
qed

theorem parse_wrk_socket_errors_witness:
  "\<exists>d. parse_wrk (report_head @ socket_line 0 12 3 45 @ ''\<newline>'') = Inr (JObj d)
    \<and> dict_get d ''socket_errors'' = Some (JObj [(''connect'', JNum (PInt 0)), (''read'', JNum (PInt 12)),
       (''write'', JNum (PInt 3)), (''timeout'', JNum (PInt 45))])"
proof -
  let ?text = "report_head @ socket_line 0 12 3 45 @ ''\<newline>''"
  have "(case parse_wrk ?text of Inr (JObj d) \<Rightarrow> True | _ \<Rightarrow> False)" by code_simp
  then obtain d where d: "parse_wrk ?text = Inr (JObj d)"
    by (auto split: sum.splits json.splits)
  have "list_all (\<lambda>i. \<not> is_prefix ''Socket errors: connect '' (drop i ?text)) [0..<length report_head]" by code_simp
  then have "\<forall>i < length report_head. \<not> is_prefix ''Socket errors: connect '' (drop i ?text)"
    using nowhere_before by blast
  with d show ?thesis
    using parse_wrk_socket_errors [OF d, of report_head 0 12 3 45 "''\<newline>''"] by (simp add: is_digit_def)
qed

section \<open>The table parsers\<close>

text \<open>The rows of a table parser are the rows of its lines, in order.\<close>

lemma rows_loop:
  "foldE (\<lambda>line rows. bindE (f line) (\<lambda>r. Inr (append_row r rows))) ls acc =
    bindE (mapE f ls) (\<lambda>rs. Inr (acc @ List.map_filter id rs))"
proof (induction ls arbitrary: acc)
  case Nil
  then show ?case by (simp add: List.map_filter_simps)
next
  case (Cons l ls)
  then show ?case
    by (cases "f l"; cases "mapE f ls")
      (auto simp: append_row_def List.map_filter_simps split: option.splits)
qed

lemma parse_pidstat_rows:
  "parse_pidstat text = bindE (mapE pidstat_line (splitlines text)) (\<lambda>rs. Inr (List.map_filter id rs))"
  by (simp add: parse_pidstat_def rows_loop)

lemma parse_vmstat_rows:
  "parse_vmstat text = bindE (mapE vmstat_line (splitlines text)) (\<lambda>rs. Inr (List.map_filter id rs))"
  by (simp add: parse_vmstat_def rows_loop)

lemma pidstat_line_raises: "pidstat_line line = Inl e \<Longrightarrow> e = Unmodelled"
  by (auto simp: pidstat_line_def Let_def split: if_splits sum.splits py_error.splits)

lemma map_filter_length: "length (List.map_filter id rs) \<le> length rs"
  by (induction rs) (auto simp: List.map_filter_simps split: option.splits)

lemma map_filter_map: "List.map_filter id (map g xs) = List.map_filter g xs"
  by (induction xs) (auto simp: List.map_filter_simps split: option.split)

lemma in_map_filter: "x \<in> set (List.map_filter id rs) \<longleftrightarrow> Some x \<in> set rs"
  by (induction rs) (auto simp: List.map_filter_simps split: option.splits)

text \<open>What a line of data is for the two parsers.\<close>

definition is_pidstat_data :: "string \<Rightarrow> bool" where
  "is_pidstat_data line \<longleftrightarrow> strip line \<noteq> [] \<and> \<not> is_prefix ''#'' line \<and> \<not> is_prefix ''Linux'' line
     \<and> \<not> is_prefix ''Average'' line \<and> 17 \<le> length (py_split line)"

definition is_vmstat_data :: "string \<Rightarrow> bool" where
  "is_vmstat_data line \<longleftrightarrow> strip line \<noteq> [] \<and> \<not> is_prefix ''procs'' line \<and> \<not> is_prefix ''r '' line
     \<and> length (py_split line) = 17"

text \<open>The pidstat parser never raises: a line that is no row of numbers is dropped. What it returns
  are the converted data lines, in the order of the file.\<close>

theorem parse_pidstat_total:
  "parse_pidstat text = Inl Unmodelled \<or>
   parse_pidstat text = Inr (List.map_filter
     (\<lambda>line. if is_pidstat_data line
        then (case pidstat_row (py_split line) of Inl _ \<Rightarrow> None | Inr row \<Rightarrow> Some row) else None)
     (splitlines text))"
proof (cases "mapE pidstat_line (splitlines text)")
  case (Inl e)
  then obtain line where "pidstat_line line = Inl e" using mapE_Inl by blast
  with Inl show ?thesis using pidstat_line_raises by (auto simp: parse_pidstat_rows)
next
  case (Inr rs)
  let ?g = "\<lambda>line. if is_pidstat_data line
        then (case pidstat_row (py_split line) of Inl _ \<Rightarrow> None | Inr row \<Rightarrow> Some row) else None"
  have "pidstat_line line = Inr r \<Longrightarrow> r = ?g line" for line r
    by (auto simp: pidstat_line_def is_pidstat_data_def Let_def split: if_splits sum.splits py_error.splits)
  then have "rs = map ?g (splitlines text)"
    using Inr by (auto simp: mapE_Inr_iff intro!: nth_equalityI)
  then show ?thesis using Inr by (simp only: parse_pidstat_rows bindE_simps map_filter_map simp_thms)
qed

text \<open>The keys of a vmstat row, all with integer values.\<close>

lemma vmstat_row_shape:
  "vmstat_row cols = Inr row \<Longrightarrow> \<exists>d. row = JObj d \<and> map fst d = map fst vmstat_columns
     \<and> (\<forall>v \<in> snd ` set d. \<exists>n. v = JNum (PInt n))"
  unfolding vmstat_row_def
proof (elim bindE_InrE, goal_cases)
  case (1 d)
  then have d: "map (\<lambda>(k, i). (k, bindE (py_int (cols ! i)) (\<lambda>n. Inr (JNum (PInt n))))) vmstat_columns
      = map (\<lambda>(k, v). (k, Inr v)) d" by (simp add: displayE_Inr_iff)
  have "map fst d = map fst vmstat_columns"
    using arg_cong [OF d, of "map fst"] by (simp add: comp_def case_prod_unfold)
  moreover have "\<exists>n. v = JNum (PInt n)" if "(k, v) \<in> set d" for k v
  proof -
    from that have "(k, Inr v) \<in> set (map (\<lambda>(k, i). (k, bindE (py_int (cols ! i)) (\<lambda>n. Inr (JNum (PInt n))))) vmstat_columns)"
      unfolding d by force
    then obtain i where "bindE (py_int (cols ! i)) (\<lambda>n. Inr (JNum (PInt n))) = Inr v"
      by auto
    then show ?thesis by (auto simp: bindE_Inr_iff)
  qed
  ultimately show ?case using 1 by auto
qed

lemma vmstat_line_cases:
  "vmstat_line line = (if is_vmstat_data line then bindE (vmstat_row (py_split line)) (\<lambda>row. Inr (Some row))
     else Inr None)"
  by (auto simp: vmstat_line_def is_vmstat_data_def Let_def)

text \<open>The vmstat parser keeps one row per data line, in order: when it returns there are as many
  rows as lines with 17 columns that are no header, and every row has the twelve integer metrics.\<close>

theorem parse_vmstat_complete:
  assumes "parse_vmstat text = Inr rows"
  shows "length rows = length (filter is_vmstat_data (splitlines text))
    \<and> (\<forall>row \<in> set rows. \<exists>d. row = JObj d \<and> map fst d = map fst vmstat_columns
         \<and> (\<forall>v \<in> snd ` set d. \<exists>n. v = JNum (PInt n)))"
proof -
  from assms obtain rs where rs: "mapE vmstat_line (splitlines text) = Inr rs" "rows = List.map_filter id rs"
    by (auto simp: parse_vmstat_rows elim!: bindE_InrE)
  have "length (List.map_filter id rs) = length (filter is_vmstat_data ls)"
    if "mapE vmstat_line ls = Inr rs" for ls rs
    using that
    by (induction ls arbitrary: rs)
      (auto simp: List.map_filter_simps vmstat_line_cases split: if_splits elim!: bindE_InrE)
  moreover have "\<exists>d. row = JObj d \<and> map fst d = map fst vmstat_columns \<and> (\<forall>v \<in> snd ` set d. \<exists>n. v = JNum (PInt n))"
    if "row \<in> set rows" for row
  proof -
    from that have "Some row \<in> set rs" by (simp add: rs(2) in_map_filter)
    then obtain i where "i < length rs" "rs ! i = Some row" by (auto simp: in_set_conv_nth)
    with rs(1) obtain line where "vmstat_line line = Inr (Some row)" by (auto simp: mapE_Inr_iff)
    then show ?thesis
      using vmstat_row_shape by (auto simp: vmstat_line_cases split: if_splits elim!: bindE_InrE)
  qed
  ultimately show ?thesis using rs by auto
qed

definition vmstat_header :: string where
  "vmstat_header = '' r  b   swpd   free   buff  cache   si   so    bi    bo   in   cs us sy id wa st''"

definition vmstat_sample :: string where
  "vmstat_sample = '' 1  0      0 100 200 300    0    0     1     2    3    4  5  6 7  8  9''"

theorem parse_vmstat_complete_witness:
  "length [JObj (zip (map fst vmstat_columns) (map (JNum \<circ> PInt) [1, 0, 100, 300, 1, 2, 3, 4, 5, 6, 7, 8]))]
     = length (filter is_vmstat_data (splitlines vmstat_sample))
    \<and> map fst (zip (map fst vmstat_columns) (map (JNum \<circ> PInt) [1, 0, 100, 300, 1, 2, 3, 4, 5, 6, 7, 8]))
     = map fst vmstat_columns"
proof -
  have "parse_vmstat vmstat_sample =
    Inr [JObj (zip (map fst vmstat_columns) (map (JNum \<circ> PInt) [1, 0, 100, 300, 1, 2, 3, 4, 5, 6, 7, 8]))]"
    by code_simp
  from parse_vmstat_complete [OF this] show ?thesis by simp
qed

text \<open>C31. The header that vmstat prints, indented by one blank, is not recognised as one (the code looks
  for \<^verbatim>\<open>r\<close> in the first column): its 17 words are taken for a data line, \<^verbatim>\<open>int("r")\<close> raises, and with
  it the parse of every vmstat output that contains the header.\<close>

theorem vmstat_header_rejected:
  assumes "vmstat_header \<in> set (splitlines text)"
  shows "isl (parse_vmstat text)"
proof -
  have "isl (vmstat_line vmstat_header)" by code_simp
  from mapE_raises [OF assms, of vmstat_line, OF this] show ?thesis
    by (auto simp: parse_vmstat_rows bindE_def split: sum.splits)
qed

theorem vmstat_header_rejected_witness:
  "isl (parse_vmstat (''procs -----------memory----------'' @ [CHR 0x0A] @ vmstat_header @ [CHR 0x0A] @ vmstat_sample))"
  by (rule vmstat_header_rejected) code_simp

section \<open>Vegeta reports\<close>

text \<open>The entries the parser subscripts without a default.\<close>

definition vegeta_required :: "string list" where
  "vegeta_required = [''latencies'', ''requests'', ''rate'', ''throughput'', ''success'', ''bytes_in'', ''bytes_out'']"

lemma latency_ms_int:
  "latency_ms (JObj l) k = Inr v \<Longrightarrow> dict_get l k = Some (JNum (PInt n)) \<Longrightarrow> v = JNum (PFloat (fl (of_int n / 1000000)))"
  by (auto simp: latency_ms_def num_truediv_def)

lemma getitem_Obj: "getitem (JObj d) k = Inr v \<Longrightarrow> dict_get d k = Some v"
  by (simp split: option.splits)

lemma vegeta_get:
  assumes "parse_vegeta (JObj data) = Inr (JObj d)" and "dict_get data ''latencies'' = Some lat"
    and "(k, r) \<in> set (vegeta_fields (JObj data) lat)"
  shows "\<exists>v. r = Inr v \<and> dict_get d k = Some v"
proof -
  from assms(1,2) have d: "displayE (vegeta_fields (JObj data) lat) = Inr d"
    by (auto simp: parse_vegeta_def elim!: bindE_InrE)
  have "distinct (map fst (vegeta_fields (JObj data) lat))" by (simp add: vegeta_fields_def)
  with assms(3) have "map_of (vegeta_fields (JObj data) lat) k = Some r" by simp
  with displayE_get [OF d, of k] show ?thesis by (cases "dict_get d k") auto
qed

text \<open>C25. Vegeta's latencies. Whenever the parser of vegeta's report returns, each latency that is an integer of nanoseconds
  in the report is stored in milliseconds, divided by a million and rounded once, under its own name;
  success ratio, rate and throughput are copied; and the report had every required entry, so that a report that
  lacks one of them raises.\<close>

theorem parse_vegeta_milliseconds:
  assumes "parse_vegeta (JObj data) = Inr (JObj d)" and "dict_get data ''latencies'' = Some (JObj l)"
    and "(key, src) \<in> {(''latency_mean_ms'', ''mean''), (''latency_p50_ms'', ''50th''), (''latency_p95_ms'', ''95th''),
      (''latency_p99_ms'', ''99th''), (''latency_max_ms'', ''max'')}"
    and "dict_get l src = Some (JNum (PInt n))"
  shows "dict_get d key = Some (JNum (PFloat (fl (of_int n / 1000000))))
    \<and> dict_get d ''success_ratio'' = dict_get data ''success'' \<and> dict_get d ''rate'' = dict_get data ''rate''
    \<and> dict_get d ''throughput'' = dict_get data ''throughput''
    \<and> list_all (\<lambda>k. dict_get data k \<noteq> None) vegeta_required"
proof -
  note get = vegeta_get [OF assms(1,2)]
  have "(key, latency_ms (JObj l) src) \<in> set (vegeta_fields (JObj data) (JObj l))"
    using assms(3) by (elim insertE emptyE) (simp_all add: vegeta_fields_def del: getitem.simps)
  from get [OF this] have lat: "dict_get d key = Some (JNum (PFloat (fl (of_int n / 1000000))))"
    using latency_ms_int [OF _ assms(4)] by blast
  have copied: "\<exists>v. dict_get data src = Some v \<and> dict_get d key = Some v"
    if "(key, src) \<in> {(''success_ratio'', ''success''), (''rate'', ''rate''), (''throughput'', ''throughput''),
      (''requests'', ''requests'')}" for key src
  proof -
    from that have "(key, getitem (JObj data) src) \<in> set (vegeta_fields (JObj data) (JObj l))"
      by (elim insertE emptyE) (simp_all add: vegeta_fields_def del: getitem.simps)
    from get [OF this] show ?thesis using getitem_Obj by blast
  qed
  have bytes: "dict_get data src \<noteq> None" if "src \<in> {''bytes_in'', ''bytes_out''}" for src
  proof -
    from that have "\<exists>key. (key, getitem2 (JObj data) src ''total'') \<in> set (vegeta_fields (JObj data) (JObj l))"
      by (elim insertE emptyE; intro exI [of _ "if src = ''bytes_in'' then ''bytes_in_total'' else ''bytes_out_total''"])
        (simp_all add: vegeta_fields_def)
    then obtain v where "getitem2 (JObj data) src ''total'' = Inr v" using get by blast
    then obtain w where "getitem (JObj data) src = Inr w" unfolding getitem2_def by (rule bindE_InrE)
    then show ?thesis using getitem_Obj by fastforce
  qed
  have c: "\<exists>v. dict_get data ''requests'' = Some v \<and> dict_get d ''requests'' = Some v"
      "\<exists>v. dict_get data ''rate'' = Some v \<and> dict_get d ''rate'' = Some v"
      "\<exists>v. dict_get data ''throughput'' = Some v \<and> dict_get d ''throughput'' = Some v"
      "\<exists>v. dict_get data ''success'' = Some v \<and> dict_get d ''success_ratio'' = Some v"
    by (rule copied, simp)+
  have "dict_get data ''bytes_in'' \<noteq> None" "dict_get data ''bytes_out'' \<noteq> None"
    by (rule bytes, simp)+
  then have "list_all (\<lambda>k. dict_get data k \<noteq> None) vegeta_required"
    using assms(2) c unfolding vegeta_required_def by (simp only: list.pred_inject) blast
  with lat c show ?thesis by force
qed

definition vegeta_sample :: "json dict" where
  "vegeta_sample = [(''latencies'', JObj [(''mean'', JNum (PInt 2500000)), (''50th'', JNum (PInt 2000000)),
       (''95th'', JNum (PInt 4000000)), (''99th'', JNum (PInt 5000000)), (''max'', JNum (PInt 8000000))]),
     (''bytes_in'', JObj [(''total'', JNum (PInt 10)), (''mean'', JNum (PInt 1))]),
     (''bytes_out'', JObj [(''total'', JNum (PInt 0)), (''mean'', JNum (PInt 0))]),
     (''requests'', JNum (PInt 10)), (''rate'', JNum (PInt 10)), (''throughput'', JNum (PInt 9)),
     (''success'', JNum (PInt 1))]"

theorem parse_vegeta_milliseconds_witness:
  "\<exists>d. parse_vegeta (JObj vegeta_sample) = Inr (JObj d)
    \<and> dict_get d ''latency_p99_ms'' = Some (JNum (PFloat (fl (5000000 / 1000000))))
    \<and> list_all (\<lambda>k. dict_get vegeta_sample k \<noteq> None) vegeta_required"
proof -
  have "(case parse_vegeta (JObj vegeta_sample) of Inr (JObj d) \<Rightarrow> True | _ \<Rightarrow> False)" by code_simp
  then obtain d where d: "parse_vegeta (JObj vegeta_sample) = Inr (JObj d)"
    by (auto split: sum.splits json.splits)
  show ?thesis
    using d parse_vegeta_milliseconds [OF d, where key = "''latency_p99_ms''" and src = "''99th''" and n = 5000000]
    by (simp add: vegeta_sample_def)
qed

section \<open>The parser program\<close>

lemma parse_run_ignores_parsed [simp]: "parse_run (run\<lparr>parsed_json := f\<rparr>) = parse_run run"
  by (simp add: parse_run_def)

text \<open>A call of the parser program that raises leaves the run directory unchanged; one that returns replaces
  \<^verbatim>\<open>parsed.json\<close> by the document computed from the raw files, and nothing else.\<close>

lemma parser_main_cases:
  "parser_main run = (case parse_run run of
     Inl e \<Rightarrow> (Inl e, run)
   | Inr j \<Rightarrow> (Inr (), run\<lparr>parsed_json := Doc j\<rparr>))"
  by (simp add: parser_main_def action_defs split: sum.splits)

text \<open>The keys of \<^verbatim>\<open>parsed.json\<close> are the tools whose raw file is there, in the fixed order.\<close>

lemma entry_get: "entry k f parse d = Inr d' \<Longrightarrow> dict_get d' k' =
    (if k' = k \<and> f \<noteq> None then (case parse (the f) of Inl _ \<Rightarrow> None | Inr v \<Rightarrow> Some v) else dict_get d k')"
  by (auto simp: entry_def pydict.get_put split: option.splits elim!: bindE_InrE)

lemma parse_run_wrk:
  assumes "parse_run run = Inr (JObj d)"
  shows "dict_get d ''wrk'' = (case wrk_txt run of None \<Rightarrow> None | Some t \<Rightarrow>
    (case parse_wrk t of Inl _ \<Rightarrow> None | Inr v \<Rightarrow> Some v))"
  using assms unfolding parse_run_def
  by (elim bindE_InrE) (auto dest!: entry_get [where k' = "''wrk''"] split: option.splits)

end
