(* ===== verification/Dataset.thy ===== *)
theory Dataset
  imports Parser
begin

text \<open>
  The benchmark dataset directory that the analysis reads and writes, and the calls it makes into
  the plotting library.

  \<^item> A figure is the log of the method calls made on it, with their arguments: matplotlib is not
    part of the repository, so nothing is said about what a call draws.
  \<^item> A dataset is a record: \<^verbatim>\<open>metadata.json\<close>, the tree under \<^verbatim>\<open>raw/\<close> (tools, and their run
    directories), the images under \<^verbatim>\<open>plots/\<close> by their path relative to it, \<^verbatim>\<open>summary.json\<close> and
    \<^verbatim>\<open>report-auto.md\<close>. A directory without images below \<^verbatim>\<open>plots/\<close> is not represented: the code never
    observes one. Images that an earlier run left under \<^verbatim>\<open>plots/\<close> are part of the state.
\<close>

section \<open>Figures\<close>

datatype arg = ANum pynum | AStr string | ABool bool | AList "arg list"

datatype call = Call string "arg list" "(string \<times> arg) list"

type_synonym figure = "call list"

text \<open>A float literal of the source.\<close>

definition flit :: "rat \<Rightarrow> pynum" where
  "flit r = PFloat (fl r)"

abbreviation nums :: "pynum list \<Rightarrow> arg" where
  "nums xs \<equiv> AList (map ANum xs)"

text \<open>\<^verbatim>\<open>f"{x:.kf}"\<close> of a number; an int is converted to float first.\<close>

definition fmt :: "nat \<Rightarrow> pynum \<Rightarrow> string" where
  "fmt k x = format_fixed k (to_float x)"

definition newline :: string where
  "newline = [CHR 0x0A]"

lemma lines_acc_line:
  "list_all (\<lambda>c. \<not> is_linebreak c) l \<Longrightarrow> lines_acc w (l @ s) = lines_acc (rev l @ w) s"
  by (induction l arbitrary: w) simp_all

lemma splitlines_join:
  "list_all (list_all (\<lambda>c. \<not> is_linebreak c)) ls \<Longrightarrow> ls \<noteq> [] \<Longrightarrow> last ls \<noteq> [] \<Longrightarrow>
    splitlines (join newline ls) = ls"
proof (induction newline ls rule: join.induct)
  case (2 x)
  then show ?case using lines_acc_line [of x "[]" "[]"] by (simp add: splitlines_def)
next
  case (3 x y xs)
  have "lines_acc [] (x @ newline @ join newline (y # xs)) = x # lines_acc [] (join newline (y # xs))"
    using 3 lines_acc_line [of x "[]"] by (simp add: newline_def is_linebreak_def)
  with 3 show ?case by (simp add: splitlines_def)
qed simp

section \<open>The dataset directory\<close>

datatype 'a node = File | Dir 'a

type_synonym tool_dir = "(string \<times> run_dir node) list"

record dataset =
  metadata_json :: json_file
  raw :: "(string \<times> tool_dir node) list option"
  plots :: "(string list \<times> figure) list"
  summary_json :: json_file
  report_md :: "string option"

text \<open>\<^verbatim>\<open>sorted(dir.iterdir())\<close>: siblings in the order of their names.\<close>

definition by_name :: "(string \<times> 'a) list \<Rightarrow> (string \<times> 'a) list" where
  "by_name es = sort_key fst es"

text \<open>\<^verbatim>\<open>sorted(directory.glob("run-*"))\<close>: nothing when the directory is missing or a file.\<close>

definition glob_runs :: "tool_dir \<Rightarrow> tool_dir" where
  "glob_runs runs = by_name (filter (\<lambda>e. is_prefix ''run-'' (fst e)) runs)"

definition tool_entry :: "string \<Rightarrow> dataset \<Rightarrow> tool_dir node option" where
  "tool_entry tool ds = (case raw ds of None \<Rightarrow> None | Some es \<Rightarrow> map_of es tool)"

definition tool_runs :: "string \<Rightarrow> dataset \<Rightarrow> tool_dir" where
  "tool_runs tool ds = (case tool_entry tool ds of Some (Dir runs) \<Rightarrow> glob_runs runs | _ \<Rightarrow> [])"

text \<open>\<^verbatim>\<open>run / "parsed.json"\<close>; below a file there is none.\<close>

fun parsed_file :: "run_dir node \<Rightarrow> json_file" where
  "parsed_file File = Absent"
| "parsed_file (Dir run) = parsed_json run"

text \<open>The loop over the run directories that loads every \<^verbatim>\<open>parsed.json\<close> that exists.\<close>

fun load_parsed :: "tool_dir \<Rightarrow> json list result" where
  "load_parsed [] = Inr []"
| "load_parsed ((name, run) # runs) =
     (if file_exists (parsed_file run)
      then bindE (load_json name (parsed_file run)) (\<lambda>data.
           bindE (load_parsed runs) (\<lambda>rest. Inr (data # rest)))
      else load_parsed runs)"

text \<open>The same loop, keeping the runs whose document has an entry for the tool.\<close>

fun load_runs_with :: "string \<Rightarrow> tool_dir \<Rightarrow> json list result" where
  "load_runs_with tool [] = Inr []"
| "load_runs_with tool ((name, run) # runs) =
     (if file_exists (parsed_file run)
      then bindE (load_json name (parsed_file run)) (\<lambda>data.
           bindE (contains data tool) (\<lambda>b.
           bindE (load_runs_with tool runs) (\<lambda>rest. Inr (if b then data # rest else rest))))
      else load_runs_with tool runs)"

text \<open>\<^verbatim>\<open>fig.savefig(output)\<close> under \<^verbatim>\<open>plots/\<close>; an existing image is replaced.\<close>

definition save_figure :: "string list \<Rightarrow> figure \<Rightarrow> (dataset, unit) action" where
  "save_figure path fig = modifyA (plots_update (AList.update path fig))"

section \<open>Frames\<close>

text \<open>Everything of a dataset but its images.\<close>

definition no_plots :: "dataset \<Rightarrow> json_file \<times> (string \<times> tool_dir node) list option \<times> json_file \<times> string option" where
  "no_plots ds = (metadata_json ds, raw ds, summary_json ds, report_md ds)"

lemma keeps_save_figure [intro]: "keeps no_plots (save_figure path fig)"
  unfolding save_figure_def by (rule keeps_modify) (simp add: no_plots_def)

definition image_paths :: "dataset \<Rightarrow> string list set" where
  "image_paths ds = fst ` set (plots ds)"

lemma image_paths_update: "fst ` set (AList.update path fig ps) = insert path (fst ` set ps)"
  by (induction ps) auto

lemma load_parsed_length: "load_parsed runs = Inr ds \<Longrightarrow> length ds \<le> length runs"
proof (induction runs arbitrary: ds)
  case Nil
  then show ?case by simp
next
  case (Cons r runs)
  then show ?case
    by (cases r) (force split: if_splits elim!: bindE_InrE intro: le_SucI)
qed

section \<open>What a plotting function does to the dataset\<close>

text \<open>
  \<open>draws m D Q\<close>: the plotting function \<open>m\<close> leaves everything but images alone, returns exactly on
  the datasets \<open>D\<close>, and has then added the images \<open>Q\<close>. Whether it returns and what it adds may depend
  only on the part of the dataset that plotting does not change (\<open>plots_free\<close>), so that plotting
  functions compose.
\<close>

definition draws :: "(dataset, unit) action \<Rightarrow> (dataset \<Rightarrow> bool) \<Rightarrow> (dataset \<Rightarrow> string list set) \<Rightarrow> bool" where
  "draws m D Q \<longleftrightarrow> keeps no_plots m \<and> (\<forall>ds. fst (m ds) = Inr () \<longleftrightarrow> D ds) \<and>
     (\<forall>ds t. m ds = (Inr (), t) \<longrightarrow> image_paths t = image_paths ds \<union> Q ds)"

definition plots_free :: "(dataset \<Rightarrow> 'a) \<Rightarrow> bool" where
  "plots_free q \<longleftrightarrow> (\<forall>ds t. no_plots ds = no_plots t \<longrightarrow> q ds = q t)"

lemma plots_freeD: "plots_free q \<Longrightarrow> no_plots ds = no_plots t \<Longrightarrow> q ds = q t"
  unfolding plots_free_def by blast

lemma plots_free_const [simp]: "plots_free (\<lambda>_. c)"
  by (simp add: plots_free_def)

lemma plots_free_raw [simp]: "plots_free raw" "plots_free (tool_entry tool)" "plots_free (tool_runs tool)"
  by (simp_all add: plots_free_def no_plots_def tool_entry_def tool_runs_def)

lemma plots_free_comp: "plots_free q \<Longrightarrow> plots_free (\<lambda>ds. f (q ds))"
  unfolding plots_free_def by metis

lemma plots_free_comp2: "plots_free p \<Longrightarrow> plots_free q \<Longrightarrow> plots_free (\<lambda>ds. f (p ds) (q ds))"
  unfolding plots_free_def by metis

lemma plots_free_all:
  assumes "\<And>x. plots_free (D x)"
  shows "plots_free (\<lambda>ds. f (\<lambda>x. D x ds))"
proof -
  have "(\<lambda>x. D x ds) = (\<lambda>x. D x t)" if "no_plots ds = no_plots t" for ds t
    using plots_freeD [OF assms that] by (rule ext)
  then show ?thesis unfolding plots_free_def by metis
qed

lemma draws_return: "draws (returnA ()) (\<lambda>_. True) (\<lambda>_. {})"
  by (simp add: draws_def action_defs)

lemma draws_save_figure: "draws (save_figure path fig) (\<lambda>_. True) (\<lambda>_. {path})"
  by (auto simp: draws_def save_figure_def keeps_save_figure [unfolded save_figure_def]
      action_defs image_paths_def image_paths_update)

lemma draws_keeps: "draws m D Q \<Longrightarrow> keeps no_plots m"
  by (simp add: draws_def)

lemma draws_cong:
  "draws m D Q \<Longrightarrow> (\<And>ds. D ds \<longleftrightarrow> E ds) \<Longrightarrow> (\<And>ds. D ds \<Longrightarrow> Q ds = R ds) \<Longrightarrow> draws m E R"
  unfolding draws_def by (metis fst_conv)

lemma draws_images: "draws m D Q \<Longrightarrow> m ds = (Inr (), t) \<Longrightarrow> image_paths t = image_paths ds \<union> Q ds"
  by (auto simp: draws_def)

lemma draws_rest: "draws m D Q \<Longrightarrow> m ds = (r, t) \<Longrightarrow> no_plots t = no_plots ds"
  by (auto simp: draws_def dest: keeps_snd)

lemma draws_returns: "draws m D Q \<Longrightarrow> m ds = (r, t) \<Longrightarrow> r = Inr () \<longleftrightarrow> D ds"
  unfolding draws_def by (metis fst_conv)

lemma draws_seq:
  assumes m: "draws m D Q" and n: "draws n E R" and E: "plots_free E" and R: "plots_free R"
  shows "draws (bindA m (\<lambda>_. n)) (\<lambda>ds. D ds \<and> E ds) (\<lambda>ds. Q ds \<union> R ds)"
  unfolding draws_def
proof (intro conjI allI impI)
  from m n show "keeps no_plots (bindA m (\<lambda>_. n))" by (auto intro: keeps_bind draws_keeps)
next
  fix ds
  obtain r u where u: "m ds = (r, u)" by fastforce
  note d = draws_returns [OF m u] plots_freeD [OF E draws_rest [OF m u]]
  show "fst (bindA m (\<lambda>_. n) ds) = Inr () \<longleftrightarrow> D ds \<and> E ds"
    using d u n by (cases r) (auto simp: bindA_def draws_def)
  fix t assume run: "bindA m (\<lambda>_. n) ds = (Inr (), t)"
  then have ok: "r = Inr ()" "n u = (Inr (), t)" using u by (auto simp: bindA_def split: sum.splits)
  have "image_paths u = image_paths ds \<union> Q ds" using draws_images [OF m] u ok(1) by simp
  moreover have "image_paths t = image_paths u \<union> R u" by (rule draws_images [OF n ok(2)])
  moreover have "R u = R ds" by (rule plots_freeD [OF R draws_rest [OF m u]])
  ultimately show "image_paths t = image_paths ds \<union> (Q ds \<union> R ds)" by blast
qed

lemma draws_lift:
  "(\<And>x. r = Inr x \<Longrightarrow> draws (f x) (D x) Q) \<Longrightarrow>
   draws (bindA (liftA r) f) (\<lambda>ds. \<exists>x. r = Inr x \<and> D x ds) Q"
  by (cases r) (auto simp: draws_def keeps_def bindA_def liftA_def)

lemma draws_get:
  assumes "\<And>ds. draws (f (g ds)) (D (g ds)) (Q (g ds))"
  shows "draws (bindA (getA g) f) (\<lambda>ds. D (g ds) ds) (\<lambda>ds. Q (g ds) ds)"
  using assms by (auto simp: draws_def keeps_def)

text \<open>A loop of plotting functions, against a list of what each of them does.\<close>

lemma draws_for:
  assumes "list_all2 (\<lambda>x y. draws (f x) (D y) (Q y)) xs ys"
    and "\<And>y. plots_free (D y)" and "\<And>y. plots_free (Q y)"
  shows "draws (forA xs f) (\<lambda>ds. \<forall>y \<in> set ys. D y ds) (\<lambda>ds. \<Union>y \<in> set ys. Q y ds)"
  using assms(1)
proof (induction rule: list_all2_induct)
  case Nil
  then show ?case by (simp add: draws_return)
next
  case (Cons x xs y ys)
  have "plots_free (\<lambda>ds. \<forall>y \<in> set ys. D y ds)" "plots_free (\<lambda>ds. \<Union>y \<in> set ys. Q y ds)"
    using plots_free_all [of D "\<lambda>d. \<forall>y \<in> set ys. d y"] plots_free_all [of Q "\<lambda>q. \<Union>y \<in> set ys. q y"] assms(2,3)
    by blast+
  then have "draws (forA (x # xs) f) (\<lambda>ds. D y ds \<and> (\<forall>y \<in> set ys. D y ds))
      (\<lambda>ds. Q y ds \<union> (\<Union>y \<in> set ys. Q y ds))"
    using Cons by (auto intro!: draws_seq)
  then show ?case by (rule draws_cong) auto
qed

section \<open>An example\<close>

text \<open>A dataset with one parsed run of each tool, used to instantiate the properties.\<close>

definition example_run :: "string \<Rightarrow> json \<Rightarrow> run_dir" where
  "example_run tool doc = \<lparr>wrk_txt = None, vegeta_json = Absent, pidstat_txt = None, vmstat_txt = None,
     histogram_txt = Some (''[0s, 2ms] 7 70% ###'' @ newline @ ''[2ms, 4ms] 3 30% #''),
     parsed_json = Doc (JObj [(tool, doc),
       (''pidstat'', JList [JObj [(''cpu'', JNum (PInt 12)), (''rss'', JNum (PInt 2048))],
                           JObj [(''cpu'', JNum (PInt 20)), (''rss'', JNum (PInt 4096))]])])\<rparr>"

definition example_wrk :: json where
  "example_wrk = JObj [(''requests_per_sec'', JNum (PInt 1000)), (''latency_avg_ms'', JNum (PInt 2)),
     (''transfer_mb_per_sec'', JNum (PInt 5))]"

definition example_vegeta :: json where
  "example_vegeta = JObj [(''latency_mean_ms'', JNum (PInt 3))]"

definition example_dataset :: dataset where
  "example_dataset = \<lparr>metadata_json = Doc (JObj [(''name'', JStr ''demo'')]),
     raw = Some [(''wrk'', Dir [(''run-001'', Dir (example_run ''wrk'' example_wrk))]),
                 (''vegeta'', Dir [(''run-001'', Dir (example_run ''vegeta'' example_vegeta))])],
     plots = [], summary_json = Absent, report_md = None\<rparr>"

definition example_stats :: "int \<Rightarrow> json" where
  "example_stats n = JObj [(''mean'', JNum (PInt n)), (''stddev'', JNum (PFloat 0))]"

definition example_summary :: json where
  "example_summary = JObj
     [(''wrk'', JObj [(''requests_per_sec'', example_stats 1000)]),
      (''vegeta'', JObj [(''latency_p50_ms'', example_stats 2), (''latency_p95_ms'', example_stats 3),
        (''latency_p99_ms'', example_stats 4), (''latency_max_ms'', example_stats 9)])]"

end
