(* ===== verification/Metrics.thy ===== *)
theory Metrics
  imports PyValue
begin

text \<open>
  \<^verbatim>\<open>docs/benchmarking/analysis/metrics.py\<close>: the statistics of a sample (mean, median, extrema,
  standard deviation, coefficient of variation, interpolated percentiles) and the summaries of
  all wrk and all Vegeta runs. The definitions follow the functions of the module one by one;
  \<open>summarize\<close> receives whatever the runs' JSON holds, so a value that is no number raises.
\<close>

section \<open>Statistics of a sample\<close>

definition mean :: "pynum list \<Rightarrow> pynum result" where
  "mean values = (if values \<noteq> [] then stat_mean values else Inr (PFloat 0))"

definition median :: "pynum list \<Rightarrow> pynum result" where
  "median values = (if values \<noteq> [] then stat_median values else Inr (PFloat 0))"

definition minimum :: "pynum list \<Rightarrow> pynum result" where
  "minimum values = (if values \<noteq> [] then py_min values else Inr (PFloat 0))"

definition maximum :: "pynum list \<Rightarrow> pynum result" where
  "maximum values = (if values \<noteq> [] then py_max values else Inr (PFloat 0))"

definition stddev :: "pynum list \<Rightarrow> pynum result" where
  "stddev values = (if length values < 2 then Inr (PFloat 0) else stat_stdev values)"

definition coefficient_of_variation :: "pynum list \<Rightarrow> pynum result" where
  "coefficient_of_variation values =
     (if values = [] then Inr (PFloat 0) else
      bindE (mean values) (\<lambda>avg.
      if val avg = 0 then Inr (PFloat 0) else
      bindE (stddev values) (\<lambda>sd.
      bindE (num_truediv sd avg) (\<lambda>q.
      Inr (num_mul q (PInt 100))))))"

definition percentile :: "pynum list \<Rightarrow> pynum \<Rightarrow> pynum result" where
  "percentile values p =
     (let vs = py_sorted values in
      if vs = [] then Inr (PFloat 0)
      else if length vs = 1 then py_index vs 0
      else bindE (num_truediv p (PInt 100)) (\<lambda>q.
        let rank = num_mul (PInt (int (length vs) - 1)) q;
            lower = num_trunc rank;
            upper = min (lower + 1) (int (length vs) - 1);
            weight = num_sub rank (PInt lower)
        in bindE (py_index vs lower) (\<lambda>a.
           bindE (py_index vs upper) (\<lambda>b.
           Inr (num_add (num_mul a (num_sub (PInt 1) weight)) (num_mul b weight))))))"

section \<open>Summaries\<close>

definition summarize_nums :: "pynum list \<Rightarrow> json result" where
  "summarize_nums values =
     bindE (mean values) (\<lambda>m.
     bindE (median values) (\<lambda>md.
     bindE (minimum values) (\<lambda>lo.
     bindE (maximum values) (\<lambda>hi.
     bindE (stddev values) (\<lambda>sd.
     bindE (coefficient_of_variation values) (\<lambda>cv.
     bindE (percentile values (PInt 50)) (\<lambda>p50.
     bindE (percentile values (PInt 90)) (\<lambda>p90.
     bindE (percentile values (PInt 95)) (\<lambda>p95.
     bindE (percentile values (PInt 99)) (\<lambda>p99.
     Inr (JObj [(''count'', JNum (PInt (int (length values)))),
                (''mean'', JNum m), (''median'', JNum md), (''min'', JNum lo), (''max'', JNum hi),
                (''stddev'', JNum sd), (''coefficient_of_variation'', JNum cv),
                (''p50'', JNum p50), (''p90'', JNum p90), (''p95'', JNum p95),
                (''p99'', JNum p99)])))))))))))"

definition summarize :: "json list \<Rightarrow> json result" where
  "summarize values = bindE (mapE as_num values) summarize_nums"

text \<open>\<^verbatim>\<open>[run for run in runs if tool in run]\<close>\<close>

fun runs_with :: "string \<Rightarrow> json list \<Rightarrow> json list result" where
  "runs_with tool [] = Inr []"
| "runs_with tool (run # runs) =
     bindE (contains run tool) (\<lambda>b.
     bindE (runs_with tool runs) (\<lambda>rest.
     Inr (if b then run # rest else rest)))"

text \<open>\<^verbatim>\<open>summarize(run[tool][key] for run in valid_runs)\<close>\<close>

definition summarize_key :: "json list \<Rightarrow> string \<Rightarrow> string \<Rightarrow> json result" where
  "summarize_key valid_runs tool key =
     bindE (mapE (\<lambda>run. bindE (getitem run tool) (\<lambda>t. getitem t key)) valid_runs) summarize"

definition summarize_keys :: "string \<Rightarrow> string list \<Rightarrow> json list \<Rightarrow> json result" where
  "summarize_keys tool keys runs =
     bindE (runs_with tool runs) (\<lambda>valid_runs.
     bindE (mapE (\<lambda>key. bindE (summarize_key valid_runs tool key) (\<lambda>s. Inr (key, s))) keys) (\<lambda>d.
     Inr (JObj d)))"

definition wrk_metrics :: "string list" where
  "wrk_metrics = [''requests_per_sec'', ''latency_avg_ms'', ''transfer_mb_per_sec'']"

definition vegeta_metrics :: "string list" where
  "vegeta_metrics = [''rate'', ''latency_mean_ms'', ''latency_p50_ms'', ''latency_p95_ms'',
     ''latency_p99_ms'', ''latency_max_ms'', ''success_ratio'', ''throughput'']"

definition summarize_wrk :: "json list \<Rightarrow> json result" where
  "summarize_wrk runs = summarize_keys ''wrk'' wrk_metrics runs"

definition summarize_vegeta :: "json list \<Rightarrow> json result" where
  "summarize_vegeta runs = summarize_keys ''vegeta'' vegeta_metrics runs"

section \<open>Percentiles evaluated\<close>

text \<open>
  The rank \<open>(n - 1) * (p / 100)\<close> as the code rounds it, and the interpolation of two
  neighbouring order statistics; the interpolation weight is exact, because the fractional part
  of a float is a float.
\<close>

definition rank_of :: "nat \<Rightarrow> pynum \<Rightarrow> rat" where
  "rank_of n p = fl (of_nat (n - 1) * fl (quot p (PInt 100)))"

definition lerp :: "rat \<Rightarrow> rat \<Rightarrow> rat \<Rightarrow> rat" where
  "lerp a b w = fl (fl (a * fl (1 - w)) + fl (b * w))"

lemma quot_100_bounds:
  assumes "num_ok p" and "0 \<le> val p" and "val p \<le> 100"
  shows "0 \<le> quot p (PInt 100)" and "quot p (PInt 100) \<le> 1"
  using assms b64.rnd_int [of 100] num_ok_to_float [of p] by (cases p; simp)+

lemma rank_of_bounds:
  assumes "num_ok p" and "0 \<le> val p" and "val p \<le> 100" and "1 \<le> n" and "n \<le> 2 ^ 53"
  shows "0 \<le> rank_of n p" and "rank_of n p \<le> of_nat (n - 1)" and "is_b64 (rank_of n p)"
proof -
  let ?q = "fl (quot p (PInt 100))"
  have q: "0 \<le> ?q" "?q \<le> 1"
    using b64.rnd_between [of 0 1 "quot p (PInt 100)"] quot_100_bounds [OF assms(1-3)] by simp_all
  then have "0 \<le> of_nat (n - 1) * ?q" "of_nat (n - 1) * ?q \<le> of_nat (n - 1)"
    by (simp_all add: mult_left_le)
  moreover have "fl (of_nat (n - 1)) = of_nat (n - 1)"
    using assms(5) by (intro b64.rnd_nat) simp
  ultimately show "0 \<le> rank_of n p" "rank_of n p \<le> of_nat (n - 1)"
    unfolding rank_of_def using b64.rnd_between [of 0 "of_nat (n - 1)"] by simp_all
  show "is_b64 (rank_of n p)" by (simp add: rank_of_def)
qed

text \<open>
  For \<open>0 \<le> p \<le> 100\<close> the interpolation never indexes out of range, and it is \<open>lerp\<close> of the two
  neighbouring order statistics.
\<close>

lemma percentile_eval:
  assumes n: "2 \<le> length xs" "length xs \<le> 2 ^ 53"
    and ok: "\<And>x. x \<in> set xs \<Longrightarrow> num_ok x"
    and p: "num_ok p" "0 \<le> val p" "val p \<le> 100"
  defines "r \<equiv> rank_of (length xs) p"
  defines "i \<equiv> nat \<lfloor>r\<rfloor>"
  defines "j \<equiv> min (i + 1) (length xs - 1)"
  shows "percentile xs p =
      Inr (PFloat (lerp (val (py_sorted xs ! i)) (val (py_sorted xs ! j)) (r - of_int \<lfloor>r\<rfloor>)))"
    and "i < length xs" and "j < length xs" and "i \<le> j" and "0 \<le> r"
proof -
  have n1: "1 \<le> length xs" using n(1) by linarith
  note rb = rank_of_bounds [OF p n1 n(2), folded r_def]
  have "\<lfloor>r\<rfloor> \<le> int (length xs - 1)" using rb(2) floor_mono [of r "of_nat (length xs - 1)"] by simp
  then have i: "int i = \<lfloor>r\<rfloor>" "i \<le> length xs - 1" using rb(1) by (simp_all add: i_def)
  then show ilt: "i < length xs" and jlt: "j < length xs" and "i \<le> j" and "0 \<le> r"
    using n rb(1) by (simp_all add: j_def)
  have small: "\<bar>int k\<bar> \<le> 2 ^ 53" if "k < length xs" for k
    using that n(2) by simp
  have nf: "fl (of_int (int (length xs) - 1)) = of_nat (length xs - 1)"
    using b64.rnd_nat [of "length xs - 1"] n by (simp add: of_nat_diff)
  have i_fl: "fl (of_int \<lfloor>r\<rfloor>) = of_int \<lfloor>r\<rfloor>"
    using b64.rnd_int [OF small [OF ilt]] i(1) by simp
  have w: "fl (r - of_int \<lfloor>r\<rfloor>) = r - of_int \<lfloor>r\<rfloor>"
    using is_b64_frac [OF rb(3,1)] by (simp add: is_b64_def)
  have up: "min (\<lfloor>r\<rfloor> + 1) (int (length xs) - 1) = int j"
    using i n unfolding j_def min_def by (simp split: if_split) linarith
  have at: "py_index (py_sorted xs) (int k) = Inr (py_sorted xs ! k)" if "k < length xs" for k
    using that by (simp add: py_index_in)
  have okn: "num_ok (py_sorted xs ! k)" if "k < length xs" for k
    using ok that by (metis nth_mem py_sorted_props(2,3))
  have mulw: "num_mul x (PFloat v) = PFloat (fl (val x * v))" if "num_ok x" for x v
    using that by (cases x) (simp_all add: num_ok_def is_b64_def)
  have ne: "xs \<noteq> []" "length xs \<noteq> 1" using n by auto
  have rank: "num_mul (PInt (int (length xs) - 1)) (PFloat (fl (quot p (PInt 100)))) = PFloat r"
    using nf by (simp add: r_def rank_of_def)
  have wt: "num_sub (PFloat r) (PInt \<lfloor>r\<rfloor>) = PFloat (r - of_int \<lfloor>r\<rfloor>)"
    using i_fl w by simp
  have one: "num_sub (PInt 1) (PFloat v) = PFloat (fl (1 - v))" for v by simp
  show "percentile xs p =
      Inr (PFloat (lerp (val (py_sorted xs ! i)) (val (py_sorted xs ! j)) (r - of_int \<lfloor>r\<rfloor>)))"
    unfolding percentile_def Let_def num_truediv_def
    using ne rb(1) at [OF ilt] at [OF jlt] i(1)
    by (simp add: rank wt one up mulw okn ilt jlt lerp_def del: num_sub.simps num_mul.simps)
qed

section \<open>The statistics never raise on numbers\<close>

lemma percentile_total:
  assumes "length xs \<le> 2 ^ 53" and "\<And>x. x \<in> set xs \<Longrightarrow> num_ok x"
    and "num_ok p" and "0 \<le> val p" and "val p \<le> 100"
  shows "\<exists>v. percentile xs p = Inr v"
proof (cases "2 \<le> length xs")
  case True
  with percentile_eval(1) [OF True assms] show ?thesis by blast
next
  case False
  then consider "xs = []" | "length xs = 1" by (metis One_nat_def Suc_1 le_less_Suc_eq length_0_conv less_one not_le_imp_less not_less_eq)
  then show ?thesis
  proof cases
    case 1
    then show ?thesis by (simp add: percentile_def)
  next
    case 2
    then show ?thesis by (simp add: percentile_def Let_def py_index_def)
  qed
qed

lemma coefficient_of_variation_total:
  "\<exists>v. coefficient_of_variation xs = Inr v"
proof (cases "xs = []")
  case True
  then show ?thesis by (simp add: coefficient_of_variation_def)
next
  case False
  then obtain m where m: "mean xs = Inr m" using stat_mean_total by (auto simp: mean_def)
  obtain s where s: "stddev xs = Inr s"
    using stat_stdev_total [of xs] unfolding stddev_def by (cases "length xs < 2") auto
  show ?thesis using False m s
    by (simp add: coefficient_of_variation_def num_truediv_def)
qed

lemma statistics_total:
  "\<exists>v. mean xs = Inr v" "\<exists>v. median xs = Inr v" "\<exists>v. minimum xs = Inr v" "\<exists>v. maximum xs = Inr v"
  "\<exists>v. stddev xs = Inr v"
  using stat_mean_total [of xs] stat_median_total [of xs] py_min_val [of xs] py_max_val [of xs]
    stat_stdev_total [of xs]
  by (auto simp: mean_def median_def minimum_def maximum_def stddev_def not_less)

lemma num_ok_small [simp]: "num_ok (PInt 50)" "num_ok (PInt 90)" "num_ok (PInt 95)" "num_ok (PInt 99)"
  "num_ok (PInt 100)"
  by (simp_all add: num_ok_PInt)

lemma summarize_nums_total:
  assumes "length xs \<le> 2 ^ 53" and "\<And>x. x \<in> set xs \<Longrightarrow> num_ok x"
  shows "\<exists>d. summarize_nums xs = Inr (JObj d) \<and>
    map fst d = [''count'', ''mean'', ''median'', ''min'', ''max'', ''stddev'',
      ''coefficient_of_variation'', ''p50'', ''p90'', ''p95'', ''p99'']"
proof -
  obtain a b c d e f where s: "mean xs = Inr a" "median xs = Inr b" "minimum xs = Inr c"
      "maximum xs = Inr d" "stddev xs = Inr e" "coefficient_of_variation xs = Inr f"
    using statistics_total [of xs] coefficient_of_variation_total [of xs] by blast
  obtain g h i j where p: "percentile xs (PInt 50) = Inr g" "percentile xs (PInt 90) = Inr h"
      "percentile xs (PInt 95) = Inr i" "percentile xs (PInt 99) = Inr j"
    using percentile_total [OF assms, of "PInt 50"] percentile_total [OF assms, of "PInt 90"]
      percentile_total [OF assms, of "PInt 95"] percentile_total [OF assms, of "PInt 99"] by auto
  show ?thesis by (simp add: summarize_nums_def s p)
qed

section \<open>Order statistics as percentiles\<close>

lemma fl_val: "num_ok x \<Longrightarrow> fl (val x) = val x"
  by (simp add: num_ok_def is_b64_def)

lemma lerp_0: "is_b64 a \<Longrightarrow> lerp a b 0 = a"
  by (simp add: lerp_def is_b64_def)

lemma lerp_half: "lerp a b (1 / 2) = fl (fl a + fl b) / 2"
proof -
  have h: "fl (1 / 2) = 1 / 2"
    using b64.rnd_half [of 1] by simp
  have "lerp a b (1 / 2) = fl (fl (a / 2) + fl (b / 2))"
    by (simp add: lerp_def h)
  also have "\<dots> = fl ((fl a + fl b) / 2)"
    by (simp add: b64.rnd_half add_divide_distrib)
  finally show ?thesis by (simp add: b64.rnd_half)
qed

lemma rank_of_50: "1 \<le> n \<Longrightarrow> n \<le> 2 ^ 53 \<Longrightarrow> rank_of n (PInt 50) = of_nat (n - 1) / 2"
proof -
  assume n: "1 \<le> n" "n \<le> 2 ^ 53"
  have h: "fl (1 / 2) = (1 / 2 :: rat)" using b64.rnd_half [of 1] by simp
  have "rank_of n (PInt 50) = fl (of_nat (n - 1) / 2)" by (simp add: rank_of_def h)
  also have "\<dots> = of_nat (n - 1) / 2"
    using n b64.rnd_nat [of "n - 1"] by (simp add: b64.rnd_half)
  finally show ?thesis .
qed

lemma rank_of_ends:
  assumes "1 \<le> n" and "n \<le> 2 ^ 53"
  shows "rank_of n (PInt 0) = 0" and "rank_of n (PInt 100) = of_nat (n - 1)"
  using assms b64.rnd_nat [of "n - 1"] by (simp_all add: rank_of_def)

lemma sorted_ends:
  assumes "xs \<noteq> []"
  shows "val (py_sorted xs ! 0) = Min (val ` set xs)"
    and "val (py_sorted xs ! (length xs - 1)) = Max (val ` set xs)"
proof -
  have *: "py_sorted xs ! k \<in> set xs" if "k < length xs" for k
    using that by (metis nth_mem py_sorted_props(2,3))
  have ex: "\<exists>k < length xs. x = py_sorted xs ! k" if "x \<in> set xs" for x
    using that by (metis in_set_conv_nth py_sorted_props(2,3))
  have "val (py_sorted xs ! 0) \<le> val x" if "x \<in> set xs" for x
    using ex [OF that] py_sorted_mono [of 0] by auto
  then show "val (py_sorted xs ! 0) = Min (val ` set xs)"
    using assms * by (intro Min_eqI [symmetric]) auto
  have "val x \<le> val (py_sorted xs ! (length xs - 1))" if "x \<in> set xs" for x
    using ex [OF that] py_sorted_mono [of _ "length xs - 1"] by fastforce
  then show "val (py_sorted xs ! (length xs - 1)) = Max (val ` set xs)"
    using assms * by (intro Max_eqI [symmetric]) auto
qed

section \<open>Interpolation and its rounding error\<close>

text \<open>
  The specification of a percentile: exact linear interpolation of the sorted sample at position
  \<open>r\<close> (a rational between \<open>0\<close> and \<open>n - 1\<close>).
\<close>

definition interp :: "rat list \<Rightarrow> rat \<Rightarrow> rat" where
  "interp vs r = (let i = nat \<lfloor>r\<rfloor>; w = r - of_int \<lfloor>r\<rfloor>
     in vs ! i * (1 - w) + vs ! min (i + 1) (length vs - 1) * w)"

lemma frac_bounds: "0 \<le> r - of_int \<lfloor>r\<rfloor>" "r - of_int \<lfloor>r\<rfloor> \<le> (1 :: rat)"
  by linarith+

lemma convex_between:
  fixes a b w :: rat
  assumes "0 \<le> w" and "w \<le> 1" and "lo \<le> a" and "a \<le> hi" and "lo \<le> b" and "b \<le> hi"
  shows "lo \<le> a * (1 - w) + b * w" and "a * (1 - w) + b * w \<le> hi"
proof -
  have "lo * (1 - w) + lo * w \<le> a * (1 - w) + b * w"
    using assms by (intro add_mono mult_right_mono) simp_all
  moreover have "a * (1 - w) + b * w \<le> hi * (1 - w) + hi * w"
    using assms by (intro add_mono mult_right_mono) simp_all
  ultimately show "lo \<le> a * (1 - w) + b * w" "a * (1 - w) + b * w \<le> hi"
    by (simp_all add: algebra_simps)
qed

lemma lerp_upper:
  assumes "0 \<le> a" and "0 \<le> b" and "0 \<le> w" and "w \<le> 1"
  shows "lerp a b w \<le> (a * (1 - w) + b * w) * (1 + eps) ^ 3"
proof -
  let ?u = "1 + eps"
  have u: "1 \<le> ?u" using eps_bounds by simp
  have nn: "0 \<le> fl (1 - w)" using assms by (intro b64.rnd_nonneg) simp
  have "fl (a * fl (1 - w)) \<le> a * fl (1 - w) * ?u"
    using assms nn by (intro b64.rnd_le_factor mult_nonneg_nonneg)
  also have "\<dots> \<le> a * ((1 - w) * ?u) * ?u"
    using assms u by (intro mult_right_mono mult_left_mono b64.rnd_le_factor) simp_all
  finally have 1: "fl (a * fl (1 - w)) \<le> a * (1 - w) * ?u ^ 2"
    by (simp add: power2_eq_square mult.assoc)
  have "fl (b * w) \<le> b * w * ?u" using assms by (intro b64.rnd_le_factor) simp
  also have "\<dots> \<le> b * w * ?u ^ 2"
    using assms u by (intro mult_left_mono) (simp_all add: power2_eq_square)
  finally have 2: "fl (b * w) \<le> b * w * ?u ^ 2" .
  have "0 \<le> fl (a * fl (1 - w)) + fl (b * w)"
    using assms nn by (intro add_nonneg_nonneg b64.rnd_nonneg mult_nonneg_nonneg) simp_all
  then have "lerp a b w \<le> (fl (a * fl (1 - w)) + fl (b * w)) * ?u"
    unfolding lerp_def by (rule b64.rnd_le_factor)
  also have "\<dots> \<le> (a * (1 - w) * ?u ^ 2 + b * w * ?u ^ 2) * ?u"
    using 1 2 u by (intro mult_right_mono add_mono) simp_all
  finally show ?thesis by (simp add: algebra_simps power3_eq_cube power2_eq_square)
qed

lemma lerp_lower:
  assumes "0 \<le> a" and "0 \<le> b" and "0 \<le> w" and "w \<le> 1"
  shows "(a * (1 - w) + b * w) * (1 - eps) ^ 3 \<le> lerp a b w"
proof -
  let ?u = "1 - eps"
  have u: "0 \<le> ?u" "?u \<le> 1" using eps_bounds by simp_all
  have nn: "0 \<le> fl (1 - w)" using assms by (intro b64.rnd_nonneg) simp
  have "a * ((1 - w) * ?u) * ?u \<le> a * fl (1 - w) * ?u"
    using assms u by (intro mult_right_mono mult_left_mono b64.rnd_ge_factor) simp_all
  also have "\<dots> \<le> fl (a * fl (1 - w))"
    using assms nn by (intro b64.rnd_ge_factor mult_nonneg_nonneg)
  finally have 1: "a * (1 - w) * ?u ^ 2 \<le> fl (a * fl (1 - w))"
    by (simp add: power2_eq_square mult.assoc)
  have "b * w * ?u ^ 2 \<le> b * w * ?u"
    using assms u by (intro mult_left_mono) (simp_all add: power2_eq_square mult_left_le)
  also have "\<dots> \<le> fl (b * w)" using assms by (intro b64.rnd_ge_factor) simp
  finally have 2: "b * w * ?u ^ 2 \<le> fl (b * w)" .
  have "(a * (1 - w) * ?u ^ 2 + b * w * ?u ^ 2) * ?u \<le> (fl (a * fl (1 - w)) + fl (b * w)) * ?u"
    using 1 2 u by (intro mult_right_mono add_mono) simp_all
  also have "\<dots> \<le> lerp a b w"
    unfolding lerp_def using assms nn
    by (intro b64.rnd_ge_factor add_nonneg_nonneg b64.rnd_nonneg mult_nonneg_nonneg) simp_all
  finally show ?thesis by (simp add: algebra_simps power3_eq_cube power2_eq_square)
qed

lemma in_sorted_range:
  assumes "k < length xs"
  shows "Min (val ` set xs) \<le> val (py_sorted xs ! k)" and "val (py_sorted xs ! k) \<le> Max (val ` set xs)"
proof -
  have "py_sorted xs ! k \<in> set xs" using assms by (metis nth_mem py_sorted_props(2,3))
  then show "Min (val ` set xs) \<le> val (py_sorted xs ! k)" "val (py_sorted xs ! k) \<le> Max (val ` set xs)"
    by auto
qed

lemma sorted_nth_ok:
  "(\<And>x. x \<in> set xs \<Longrightarrow> num_ok x) \<Longrightarrow> k < length xs \<Longrightarrow> num_ok (py_sorted xs ! k)"
  by (metis nth_mem py_sorted_props(2,3))

section \<open>The 50th percentile\<close>

lemma floor_half_nat: "\<lfloor>of_nat m / (2 :: rat)\<rfloor> = int (m div 2)"
  using floor_divide_of_nat_eq [where 'a = rat, of m 2] by simp

lemma frac_half_odd:
  "m = 2 * j + 1 \<Longrightarrow> of_nat m / (2 :: rat) - of_int \<lfloor>of_nat m / (2 :: rat)\<rfloor> = 1 / 2"
  unfolding floor_half_nat by (simp add: add_divide_distrib)

lemma p50_odd:
  assumes "2 \<le> length xs" "length xs \<le> 2 ^ 53" "\<And>x. x \<in> set xs \<Longrightarrow> num_ok x" "length xs mod 2 = 1"
  shows "percentile xs (PInt 50) = Inr (PFloat (val (py_sorted xs ! (length xs div 2))))"
proof -
  let ?n = "length xs"
  note pe = percentile_eval(1) [OF assms(1-3) num_ok_small(1), simplified]
  have r: "rank_of ?n (PInt 50) = of_nat (?n - 1) / 2"
    using assms(1,2) by (intro rank_of_50) linarith+
  have "?n - 1 = 2 * (?n div 2)" using assms(4) by presburger
  then have "of_nat (?n - 1) / (2 :: rat) = of_nat (?n div 2)" by simp
  moreover have "is_b64 (val (py_sorted xs ! (?n div 2)))"
    using assms(1,3) by (intro sorted_nth_ok [unfolded num_ok_def]) (auto simp: num_ok_def)
  ultimately show ?thesis using pe r by (simp add: lerp_0)
qed

lemma p50_even:
  assumes "2 \<le> length xs" "length xs \<le> 2 ^ 53" "\<And>x. x \<in> set xs \<Longrightarrow> num_ok x" "length xs mod 2 \<noteq> 1"
  shows "percentile xs (PInt 50) = Inr (PFloat (lerp (val (py_sorted xs ! (length xs div 2 - 1)))
    (val (py_sorted xs ! (length xs div 2))) (1 / 2)))"
proof -
  let ?n = "length xs" and ?k = "length xs div 2"
  have r: "rank_of ?n (PInt 50) = of_nat (?n - 1) / 2"
    using assms(1,2) by (intro rank_of_50) linarith+
  have k: "(?n - 1) div 2 = ?k - 1" "?n - 1 = 2 * (?k - 1) + 1" "min (?k - 1 + 1) (?n - 1) = ?k"
    using assms(1,4) by presburger+
  have v: "0 \<le> val (PInt 50)" "val (PInt 50) \<le> 100" by simp_all
  show ?thesis
    using percentile_eval(1) [OF assms(1-3) num_ok_small(1) v]
    unfolding r frac_half_odd [OF k(2)]
    unfolding floor_half_nat k(1) nat_int k(3) by blast
qed

lemma lerp_half_quot:
  assumes "num_ok x" and "num_ok y"
  shows "lerp (val x) (val y) (1 / 2) = fl (quot (num_add x y) (PInt 2))"
  using assms b64.rnd_int [of 2]
  by (cases x; cases y)
    (simp_all add: lerp_half b64.rnd_half b64.rnd_idem num_ok_def is_b64_def)

section \<open>Properties\<close>

lemma p50_median_even:
  assumes "xs \<noteq> []" "length xs \<le> 2 ^ 53" "\<And>x. x \<in> set xs \<Longrightarrow> num_ok x" "even (length xs)"
  defines "h \<equiv> fl (val (py_sorted xs ! (length xs div 2 - 1)) + val (py_sorted xs ! (length xs div 2))) / 2"
  shows "percentile xs (PInt 50) = Inr (PFloat h)" and "median xs = Inr (PFloat h)"
proof -
  let ?k = "length xs div 2"
  have n: "2 \<le> length xs" "length xs mod 2 \<noteq> 1" using assms(1,4) by (cases xs; cases "tl xs"; auto)+
  have ok: "num_ok (py_sorted xs ! (?k - 1))" "num_ok (py_sorted xs ! ?k)"
    using n(1) assms(3) by (auto intro: sorted_nth_ok)
  then have h: "lerp (val (py_sorted xs ! (?k - 1))) (val (py_sorted xs ! ?k)) (1 / 2) = h"
    by (simp add: h_def lerp_half fl_val)
  with p50_even [OF n(1) assms(2,3) n(2)] show "percentile xs (PInt 50) = Inr (PFloat h)" by simp
  from stat_median_even [OF assms(1) n(2)] assms(1) h ok show "median xs = Inr (PFloat h)"
    by (simp add: median_def num_truediv_def lerp_half_quot [symmetric])
qed

lemma p50_median_odd:
  assumes "length xs \<le> 2 ^ 53" "\<And>x. x \<in> set xs \<Longrightarrow> num_ok x" "odd (length xs)"
  shows "\<exists>a b. percentile xs (PInt 50) = Inr a \<and> median xs = Inr b \<and> val a = val b"
proof (cases "length xs = 1")
  case True
  then show ?thesis by (auto simp: percentile_def median_def Let_def py_index_def stat_median_odd)
next
  case False
  with assms(3) have n: "2 \<le> length xs" "length xs mod 2 = 1" by (cases xs; cases "tl xs"; simp add: odd_iff_mod_2_eq_one)+
  from p50_odd [OF n(1) assms(1,2) n(2)] stat_median_odd [OF n(2)] n(1) show ?thesis
    by (auto simp: median_def)
qed

text \<open>A benchmark's numbers are far from the ends of the exponent range: zero, or between \<open>2 ^ -1000\<close> and
  \<open>2 ^ 1000\<close>. Halves and sums of two of them are normal numbers, so that \<open>fl\<close> rounds them as the full
  format does.\<close>

definition moderate :: "rat \<Rightarrow> bool" where
  "moderate x \<longleftrightarrow> x = 0 \<or> 2 powi (- 1000) \<le> x \<and> x \<le> 2 powi 1000"

lemma fl_powi: "fl (2 powi k) = 2 powi k"
  using fl_exact [of 1 k] by simp

lemma normal_rangeI: "x = 0 \<or> 2 powi (- 1002) \<le> x \<and> x \<le> 2 powi 1002 \<Longrightarrow> normal_range x"
  using powi2_le_iff [of "- 1022" "- 1002"] powi2_less_iff [of 1002 1023] powi2_pos [of "- 1002"]
  unfolding normal_range_def by linarith

lemma powi2_double: "2 * (2::rat) powi k = 2 powi (k + 1)"
  by (simp add: powi2_add)

lemma halves_binary64:
  assumes "moderate u" and "moderate v" and "is_b64 u" and "is_b64 v"
  shows "Option.bind (binary64 (u / 2)) (\<lambda>p. Option.bind (binary64 (v / 2)) (\<lambda>q. binary64 (p + q))) = Some (fl (u + v) / 2)"
    and "Option.bind (binary64 (u + v)) (\<lambda>s. binary64 (s / 2)) = Some (fl (u + v) / 2)"
proof -
  note d = powi2_double [of "- 1001"] powi2_double [of "- 1002"] powi2_double [of 1000] powi2_double [of 1001]
  have pos: "(0::rat) < 2 powi (- 1002)" "(0::rat) < 2 powi 1000" by (rule powi2_pos)+
  have half: "normal_range (u / 2)" "normal_range (v / 2)" "normal_range ((u + v) / 2)" "normal_range (u + v)"
    using assms(1,2) d pos unfolding moderate_def by (intro normal_rangeI; force)+
  have f: "fl (u / 2) = u / 2" "fl (v / 2) = v / 2" "fl ((u + v) / 2) = fl (u + v) / 2"
    using assms(3,4) by (simp_all add: b64.rnd_half is_b64_def)
  show "Option.bind (binary64 (u / 2)) (\<lambda>p. Option.bind (binary64 (v / 2)) (\<lambda>q. binary64 (p + q))) = Some (fl (u + v) / 2)"
    using half(1-3) by (simp only: binary64_fl f bind.bind_lunit add_divide_distrib [symmetric])
  have "u + v = 0 \<or> 2 powi (- 1000) \<le> u + v \<and> u + v \<le> 2 powi 1001"
    using assms(1,2) d pos unfolding moderate_def by force
  then have "fl (u + v) = 0 \<or> 2 powi (- 1000) \<le> fl (u + v) \<and> fl (u + v) \<le> 2 powi 1001"
    using b64.rnd_between [OF fl_powi fl_powi, of "- 1000" "u + v" 1001] by auto
  then have "normal_range (fl (u + v) / 2)"
    using d pos by (intro normal_rangeI; force)
  then show "Option.bind (binary64 (u + v)) (\<lambda>s. binary64 (s / 2)) = Some (fl (u + v) / 2)"
    using half(4) by (simp add: binary64_fl b64.rnd_half b64.rnd_idem)
qed

text \<open>C24. The 50th percentile is the median: on every sample of non-negative numbers that are exact as floats and each
  zero or between \<open>2 ^ -1000\<close> and \<open>2 ^ 1000\<close>, \<^verbatim>\<open>percentile(values, 50)\<close> and \<^verbatim>\<open>median(values)\<close> return and agree,
  although one halves the two middle values and adds and the other adds and halves. The range keeps
  away from overflow and underflow: on a sample of even size, rounding to the full binary64 format at
  every operation gives the same results as the model. (Near the ends of the range the two do differ:
  the sum of two values may overflow, and the half of the least positive float is rounded to zero.)\<close>

theorem p50_is_median:
  assumes "length xs \<le> 2 ^ 53" and "\<And>x. x \<in> set xs \<Longrightarrow> num_ok x" and "\<And>x. x \<in> set xs \<Longrightarrow> moderate (val x)"
  shows "\<exists>a b. percentile xs (PInt 50) = Inr a \<and> median xs = Inr b \<and> val a = val b \<and>
    (xs \<noteq> [] \<and> even (length xs) \<longrightarrow>
      (let u = val (py_sorted xs ! (length xs div 2 - 1)); v = val (py_sorted xs ! (length xs div 2)) in
       Option.bind (binary64 (u / 2)) (\<lambda>p. Option.bind (binary64 (v / 2)) (\<lambda>q. binary64 (p + q))) = Some (val a) \<and>
       Option.bind (binary64 (u + v)) (\<lambda>s. binary64 (s / 2)) = Some (val b)))"
proof -
  consider "xs = []" | "odd (length xs)" | "xs \<noteq> []" "even (length xs)" by blast
  then show ?thesis
  proof cases
    case 1
    then show ?thesis by (simp add: percentile_def median_def)
  next
    case 2
    with p50_median_odd [OF assms(1,2)] show ?thesis by blast
  next
    case 3
    have k: "length xs div 2 - 1 < length xs" "length xs div 2 < length xs" using 3(1) by (cases xs; simp)+
    note ok = sorted_nth_ok [OF assms(2) k(1), unfolded num_ok_def] sorted_nth_ok [OF assms(2) k(2), unfolded num_ok_def]
    have "moderate (val (py_sorted xs ! i))" if "i < length xs" for i
      using that assms(3) by (metis nth_mem py_sorted_props(2,3))
    from halves_binary64 [OF this [OF k(1)] this [OF k(2)] ok] p50_median_even [OF 3(1) assms(1,2) 3(2)]
    show ?thesis by (simp add: Let_def)
  qed
qed

theorem p50_is_median_witness:
  "\<exists>a b. percentile [PInt 3, PFloat (1 / 2), PInt 7, PInt 4] (PInt 50) = Inr a
     \<and> median [PInt 3, PFloat (1 / 2), PInt 7, PInt 4] = Inr b \<and> val a = val b
     \<and> Option.bind (binary64 (3 + 4)) (\<lambda>s. binary64 (s / 2)) = Some (val b)"
proof -
  let ?xs = "[PInt 3, PFloat (1 / 2), PInt 7, PInt 4]"
  have ok: "num_ok x" if "x \<in> set ?xs" for x
    using that b64.rnd_half [of 1] by (auto simp: num_ok_PInt) (simp add: num_ok_def is_b64_def)
  have "(2::rat) powi (- 1000) \<le> 2 powi (- 1)" "(2::rat) powi 3 \<le> 2 powi 1000" by (simp_all only: powi2_le_iff)
  moreover have "(2::rat) powi (- 1) = 1 / 2" "(2::rat) powi 3 = 8" by (simp_all add: power_int_def)
  ultimately have "moderate q" if "1 / 2 \<le> q" "q \<le> 8" for q using that unfolding moderate_def by linarith
  then have m: "moderate (val x)" if "x \<in> set ?xs" for x using that by fastforce
  have n: "length ?xs \<le> 2 ^ 53" "?xs \<noteq> [] \<and> even (length ?xs)" by simp_all
  have s: "val (py_sorted ?xs ! (length ?xs div 2 - 1)) = 3" "val (py_sorted ?xs ! (length ?xs div 2)) = 4"
    by code_simp+
  from p50_is_median [OF n(1) ok m, unfolded s Let_def] obtain a b where
    "percentile ?xs (PInt 50) = Inr a" "median ?xs = Inr b" "val a = val b"
    "Option.bind (binary64 (3 + 4)) (\<lambda>s. binary64 (s / 2)) = Some (val b)"
    using n(2) by blast
  then show ?thesis by blast
qed

text \<open>The 0th and the 100th percentile are the minimum and the maximum of the sample, exactly.\<close>

theorem percentile_ends:
  assumes "xs \<noteq> []" and "length xs \<le> 2 ^ 53" and "\<And>x. x \<in> set xs \<Longrightarrow> num_ok x"
  shows "\<exists>a b lo hi. percentile xs (PInt 0) = Inr a \<and> minimum xs = Inr lo \<and> val a = val lo
    \<and> percentile xs (PInt 100) = Inr b \<and> maximum xs = Inr hi \<and> val b = val hi"
proof -
  obtain lo hi where m: "minimum xs = Inr lo" "val lo = Min (val ` set xs)"
      "maximum xs = Inr hi" "val hi = Max (val ` set xs)"
    using py_min_val [OF assms(1)] py_max_val [OF assms(1)] assms(1)
    by (auto simp: minimum_def maximum_def)
  have "\<exists>a b. percentile xs (PInt 0) = Inr a \<and> val a = Min (val ` set xs) \<and>
      percentile xs (PInt 100) = Inr b \<and> val b = Max (val ` set xs)"
  proof (cases "length xs = 1")
    case True
    then show ?thesis using sorted_ends [OF assms(1)] assms(1)
      by (simp add: percentile_def Let_def py_index_def)
  next
    case False
    with assms(1) have n: "2 \<le> length xs" by (cases xs; cases "tl xs") simp_all
    have ends: "is_b64 (val (py_sorted xs ! 0))" "is_b64 (val (py_sorted xs ! (length xs - 1)))"
      using sorted_nth_ok [of xs] assms n by (auto simp: num_ok_def)
    have r: "rank_of (length xs) (PInt 0) = 0" "rank_of (length xs) (PInt 100) = of_nat (length xs - 1)"
      using rank_of_ends [of "length xs"] n assms(2) by linarith+
    have k: "min (Suc (length xs - Suc 0)) (length xs - Suc 0) = length xs - Suc 0" by simp
    show ?thesis
      using percentile_eval(1) [OF n assms(2,3), of "PInt 0"]
        percentile_eval(1) [OF n assms(2,3), of "PInt 100"] ends sorted_ends [OF assms(1)]
      unfolding r by (simp add: lerp_0)
  qed
  with m show ?thesis by auto
qed

theorem percentile_ends_witness:
  "\<exists>a b lo hi. percentile [PInt 3, PInt 7, PInt 4] (PInt 0) = Inr a
    \<and> minimum [PInt 3, PInt 7, PInt 4] = Inr lo \<and> val a = val lo
    \<and> percentile [PInt 3, PInt 7, PInt 4] (PInt 100) = Inr b
    \<and> maximum [PInt 3, PInt 7, PInt 4] = Inr hi \<and> val b = val hi"
  by (rule percentile_ends) (auto simp: num_ok_PInt)

text \<open>C4. A percentile of a sample of non-negative numbers is the exact linear interpolation of the
  sorted sample at the rank the code computes, up to three roundings; the exact interpolation
  lies between the minimum and the maximum. (For two or more numbers and \<open>0 \<le> p \<le> 100\<close>; the bound on the error is
  relative, as it is in the machine's format as long as no product is subnormal.)\<close>

theorem percentile_interpolates:
  assumes "2 \<le> length xs" and "length xs \<le> 2 ^ 53" and "\<And>x. x \<in> set xs \<Longrightarrow> num_ok x \<and> 0 \<le> val x"
    and "num_ok p" and "0 \<le> val p" and "val p \<le> 100"
  shows "\<exists>v e. percentile xs p = Inr v
    \<and> e = interp (map val (py_sorted xs)) (rank_of (length xs) p)
    \<and> e * (1 - eps) ^ 3 \<le> val v \<and> val v \<le> e * (1 + eps) ^ 3
    \<and> Min (val ` set xs) \<le> e \<and> e \<le> Max (val ` set xs)"
proof -
  have ok: "\<And>x. x \<in> set xs \<Longrightarrow> num_ok x" using assms(3) by blast
  let ?r = "rank_of (length xs) p"
  let ?a = "val (py_sorted xs ! nat \<lfloor>?r\<rfloor>)" and ?w = "?r - of_int \<lfloor>?r\<rfloor>"
  let ?b = "val (py_sorted xs ! min (nat \<lfloor>?r\<rfloor> + 1) (length xs - 1))"
  note pe = percentile_eval [OF assms(1,2) ok assms(4-6)]
  have ab: "Min (val ` set xs) \<le> ?a" "?a \<le> Max (val ` set xs)" "Min (val ` set xs) \<le> ?b"
      "?b \<le> Max (val ` set xs)"
    using in_sorted_range pe(2,3) by blast+
  have "0 \<le> Min (val ` set xs)" using assms(1,3) by (subst Min_ge_iff) auto
  then have nn: "0 \<le> ?a" "0 \<le> ?b" using ab by linarith+
  have e: "interp (map val (py_sorted xs)) ?r = ?a * (1 - ?w) + ?b * ?w"
    using pe(2,3) by (simp add: interp_def Let_def)
  show ?thesis unfolding e
    using pe(1) lerp_lower [OF nn frac_bounds] lerp_upper [OF nn frac_bounds]
      convex_between [OF frac_bounds ab] by simp
qed

theorem percentile_interpolates_witness:
  "\<exists>v e. percentile [PInt 3, PInt 7, PInt 4] (PInt 95) = Inr v
    \<and> e = interp (map val (py_sorted [PInt 3, PInt 7, PInt 4])) (rank_of (length [PInt 3, PInt 7, PInt 4]) (PInt 95))
    \<and> e * (1 - eps) ^ 3 \<le> val v \<and> val v \<le> e * (1 + eps) ^ 3
    \<and> Min (val ` set [PInt 3, PInt 7, PInt 4]) \<le> e \<and> e \<le> Max (val ` set [PInt 3, PInt 7, PInt 4])"
  by (rule percentile_interpolates) (auto simp: num_ok_PInt)

text \<open>The rounding is visible: of two equal measurements \<open>1.7\<close>, the 95th percentile that the
  code reports is larger than the maximum it reports beside it.\<close>

theorem p95_above_maximum:
  "\<exists>v m. percentile [PFloat (fl (17 / 10)), PFloat (fl (17 / 10))] (PInt 95) = Inr v
    \<and> maximum [PFloat (fl (17 / 10)), PFloat (fl (17 / 10))] = Inr m \<and> val m < val v"
proof -
  let ?x = "PFloat (fl (17 / 10))"
  have r: "rank_of (Suc (Suc 0)) (PInt 95) = fl (19 / 20)" by (simp add: rank_of_def b64.rnd_idem)
  have f: "fl (19 / 20) = 4278419646001971 / 2 ^ 52" by code_simp
  have z: "\<lfloor>4278419646001971 / 4503599627370496 :: rat\<rfloor> = 0" by (simp add: floor_eq_iff)
  have "percentile [?x, ?x] (PInt 95) = Inr (PFloat (lerp (fl (17 / 10)) (fl (17 / 10)) (4278419646001971 / 2 ^ 52)))"
    using percentile_eval(1) [of "[?x, ?x]" "PInt 95"] by (simp add: r f z py_sorted_def)
  moreover have "fl (17 / 10) < lerp (fl (17 / 10)) (fl (17 / 10)) (4278419646001971 / 2 ^ 52)"
    by code_simp
  ultimately show ?thesis by (simp add: maximum_def max2_def)
qed

text \<open>C29. The mean of a sample lies between its minimum and its maximum: it is the exact mean rounded
  once, and rounding cannot leave an interval with representable ends.\<close>

theorem mean_within_extrema:
  assumes "xs \<noteq> []" and "\<And>x. x \<in> set xs \<Longrightarrow> num_ok x"
  shows "\<exists>m lo hi. mean xs = Inr m \<and> minimum xs = Inr lo \<and> maximum xs = Inr hi
    \<and> val lo \<le> val m \<and> val m \<le> val hi"
proof -
  obtain m lo hi where s: "stat_mean xs = Inr m" "py_min xs = Inr lo" "py_max xs = Inr hi"
    using stat_mean_total py_min_val py_max_val assms(1) by blast
  with stat_mean_bounds [OF s(1) assms(2) s(2,3)] show ?thesis
    using assms(1) by (simp add: mean_def minimum_def maximum_def)
qed

theorem mean_within_extrema_witness:
  "\<exists>m lo hi. mean [PInt 3, PInt 7, PInt 4] = Inr m \<and> minimum [PInt 3, PInt 7, PInt 4] = Inr lo
    \<and> maximum [PInt 3, PInt 7, PInt 4] = Inr hi \<and> val lo \<le> val m \<and> val m \<le> val hi"
  by (rule mean_within_extrema) (auto simp: num_ok_PInt)

text \<open>The standard deviation is a non-negative float, and of two or more measurements it is zero
  exactly when all of them are equal; of fewer it is zero. (With the bounded exponents of the machine's
  format a tiny deviation may underflow to zero.)\<close>

lemma stddev_zero_iff_constant:
  "\<exists>s. stddev xs = Inr s \<and> num_ok s \<and> 0 \<le> val s
    \<and> (val s = 0 \<longleftrightarrow> (\<forall>x y. {x, y} \<subseteq> set xs \<longrightarrow> val x = val y))"
proof (cases "length xs < 2")
  case True
  then have "xs = [] \<or> (\<exists>x. xs = [x])" by (cases xs; cases "tl xs") simp_all
  with True show ?thesis by (auto simp: stddev_def)
next
  case False
  then obtain s where s: "stat_stdev xs = Inr s" using stat_stdev_total [of xs] by auto
  with stat_stdev_props [OF s] False show ?thesis by (auto simp: stddev_def)
qed

section \<open>Samples of floats: the order of the runs does not matter\<close>

definition all_float :: "pynum list \<Rightarrow> bool" where
  "all_float xs \<longleftrightarrow> list_all (\<lambda>x. \<not> is_int x) xs"

lemma float_val_inj: "\<not> is_int x \<Longrightarrow> \<not> is_int y \<Longrightarrow> val x = val y \<Longrightarrow> x = y"
  by (cases x; cases y) simp_all

lemma all_float_map: "all_float xs \<Longrightarrow> xs = map PFloat (map val xs)"
  by (induction xs) (auto simp: all_float_def elim!: is_int.elims)

lemma perm_facts:
  assumes "mset xs = mset ys"
  shows "set xs = set ys" and "length xs = length ys" and "xs = [] \<longleftrightarrow> ys = []"
    and "mset (map f xs) = mset (map f ys)" and "list_all P xs = list_all P ys"
  using assms by (auto simp: list_all_iff dest: mset_eq_setD mset_eq_length)

lemma sum_list_perm:
  fixes f :: "'a \<Rightarrow> rat"
  shows "mset xs = mset ys \<Longrightarrow> sum_list (map f xs) = sum_list (map f ys)"
  by (metis mset_map sum_mset_sum_list)

lemma py_sorted_perm:
  assumes "all_float xs" and "mset xs = mset ys"
  shows "py_sorted xs = py_sorted ys"
proof -
  have "inj_on val (set xs)"
    using assms(1) by (intro inj_onI float_val_inj) (auto simp: all_float_def list_all_iff)
  then show ?thesis
    unfolding py_sorted_def using assms(2) by (intro sort_key_inj_key_eq) simp_all
qed

lemma extrema_perm:
  assumes "all_float xs" and "mset xs = mset ys" and "xs \<noteq> []"
  shows "py_min xs = py_min ys" and "py_max xs = py_max ys"
proof -
  have ne: "ys \<noteq> []" and st: "set ys = set xs" using assms perm_facts by auto
  have fl: "\<not> is_int x" if "x \<in> set xs" for x
    using that assms(1) by (simp add: all_float_def list_all_iff)
  obtain m n where m: "py_min xs = Inr m" "py_min ys = Inr n" "val m = val n"
    using py_min_val [OF assms(3)] py_min_val [OF ne] st by auto
  then show "py_min xs = py_min ys"
    using float_val_inj [of m n] fl py_minD [of xs m] py_minD [of ys n] st by simp
  obtain a b where b: "py_max xs = Inr a" "py_max ys = Inr b" "val a = val b"
    using py_max_val [OF assms(3)] py_max_val [OF ne] st by auto
  then show "py_max xs = py_max ys"
    using float_val_inj [of a b] fl py_maxD [of xs a] py_maxD [of ys b] st by simp
qed

lemma moments_perm:
  assumes "mset xs = mset ys"
  shows "mean xs = mean ys" and "stddev xs = stddev ys"
proof -
  note p = perm_facts [OF assms]
  have "sum_list (map val xs) = sum_list (map val ys)" using assms by (rule sum_list_perm)
  then show "mean xs = mean ys" using p by (simp add: mean_def stat_mean_def)
  have "sum_list (map (\<lambda>x. x * x) (map val xs)) = sum_list (map (\<lambda>x. x * x) (map val ys))"
    using p(4) by (rule sum_list_perm)
  then have "sum_sq_dev (map val xs) = sum_sq_dev (map val ys)"
    using sum_list_perm [OF assms, of val] p(2) by (simp add: sum_sq_dev_def)
  then show "stddev xs = stddev ys" using p(2) by (simp add: stddev_def stat_stdev_def)
qed

text \<open>C30. The summary of a sample of floats does not depend on the order in which the runs were
  read.\<close>

theorem summarize_order_independent:
  assumes "all_float xs" and "mset xs = mset ys"
  shows "summarize (map JNum xs) = summarize (map JNum ys)"
proof -
  note p = perm_facts [OF assms(2)]
  have s: "py_sorted xs = py_sorted ys" using assms by (rule py_sorted_perm)
  have "median xs = median ys" using s p(3) by (simp add: median_def stat_median_def)
  moreover have "percentile xs q = percentile ys q" for q by (simp add: percentile_def s)
  moreover have "minimum xs = minimum ys" "maximum xs = maximum ys"
    using extrema_perm [OF assms] p(3) by (auto simp: minimum_def maximum_def)
  moreover have "coefficient_of_variation xs = coefficient_of_variation ys"
    unfolding coefficient_of_variation_def p(3) moments_perm [OF assms(2)] ..
  ultimately have "summarize_nums xs = summarize_nums ys"
    unfolding summarize_nums_def moments_perm [OF assms(2)] p(2) by (simp only:)
  then show ?thesis by (simp add: summarize_def)
qed

theorem summarize_order_independent_witness:
  "summarize (map JNum [PFloat 3, PFloat 7, PFloat 3]) = summarize (map JNum [PFloat 7, PFloat 3, PFloat 3])"
  by (rule summarize_order_independent) (simp_all add: all_float_def)

text \<open>Summarising measurements returns the eleven statistics, in the documented order, for every
  list of numbers (the empty list included), and raises as soon as one measurement is no number.\<close>

theorem summarize_total:
  assumes "length js \<le> 2 ^ 53" and "\<And>n. JNum n \<in> set js \<Longrightarrow> num_ok n"
  shows "(\<exists>d. summarize js = Inr (JObj d) \<and>
      map fst d = [''count'', ''mean'', ''median'', ''min'', ''max'', ''stddev'',
        ''coefficient_of_variation'', ''p50'', ''p90'', ''p95'', ''p99'']
      \<and> dict_get d ''count'' = Some (JNum (PInt (int (length js)))))
    \<longleftrightarrow> js \<in> range (map JNum)"
proof
  assume "js \<in> range (map JNum)"
  then obtain xs where js: "js = map JNum xs" by blast
  have ok: "\<And>x. x \<in> set xs \<Longrightarrow> num_ok x" "length xs \<le> 2 ^ 53" using assms by (auto simp: js)
  then obtain d where d: "summarize_nums xs = Inr (JObj d)" using summarize_nums_total by blast
  then have "dict_get d ''count'' = Some (JNum (PInt (int (length js))))"
    unfolding summarize_nums_def js by (auto elim!: bindE_InrE)
  with d summarize_nums_total [OF ok(2,1)]
  show "\<exists>d. summarize js = Inr (JObj d) \<and>
      map fst d = [''count'', ''mean'', ''median'', ''min'', ''max'', ''stddev'',
        ''coefficient_of_variation'', ''p50'', ''p90'', ''p95'', ''p99'']
      \<and> dict_get d ''count'' = Some (JNum (PInt (int (length js))))"
    by (auto simp: summarize_def js)
next
  assume "\<exists>d. summarize js = Inr (JObj d) \<and>
      map fst d = [''count'', ''mean'', ''median'', ''min'', ''max'', ''stddev'',
        ''coefficient_of_variation'', ''p50'', ''p90'', ''p95'', ''p99'']
      \<and> dict_get d ''count'' = Some (JNum (PInt (int (length js))))"
  then obtain d where "summarize js = Inr (JObj d)" by blast
  then show "js \<in> range (map JNum)" by (auto simp: summarize_def mapE_as_num elim!: bindE_InrE)
qed

theorem summarize_total_witness:
  "(\<exists>d. summarize [JNum (PInt 3), JStr ''x''] = Inr (JObj d) \<and>
      map fst d = [''count'', ''mean'', ''median'', ''min'', ''max'', ''stddev'',
        ''coefficient_of_variation'', ''p50'', ''p90'', ''p95'', ''p99'']
      \<and> dict_get d ''count'' = Some (JNum (PInt (int (length [JNum (PInt 3), JStr ''x''])))))
    \<longleftrightarrow> [JNum (PInt 3), JStr ''x''] \<in> range (map JNum)"
  by (rule summarize_total) (auto simp: num_ok_PInt)

section \<open>Summaries of the runs\<close>

lemma runs_with_objs:
  "runs_with tool (map JObj ds) = Inr (map JObj (filter (\<lambda>d. dict_get d tool \<noteq> None) ds))"
  by (induction ds) (auto simp: bindE_def)

lemma summarize_keys_missing:
  assumes "runs_with tool runs = Inr valid" and "run \<in> set valid"
    and "getitem run tool = Inr (JObj t)" and "k \<in> set keys" and "dict_get t k = None"
  shows "isl (summarize_keys tool keys runs)"
proof -
  have "isl (bindE (getitem run tool) (\<lambda>t. getitem t k))" using assms(3,5) by simp
  then have "isl (mapE (\<lambda>run. bindE (getitem run tool) (\<lambda>t. getitem t k)) valid)"
    using mapE_raises [OF assms(2), of "\<lambda>run. bindE (getitem run tool) (\<lambda>t. getitem t k)"] by simp
  then have "isl (bindE (summarize_key valid tool k) (\<lambda>s. Inr (k, s)))"
    by (auto simp: summarize_key_def bindE_def split: sum.splits)
  then have "isl (mapE (\<lambda>k. bindE (summarize_key valid tool k) (\<lambda>s. Inr (k, s))) keys)"
    using mapE_raises [OF assms(4), of "\<lambda>k. bindE (summarize_key valid tool k) (\<lambda>s. Inr (k, s))"] by simp
  then show ?thesis
    by (auto simp: summarize_keys_def assms(1) bindE_def split: sum.splits)
qed

lemma summarize_keys_shape:
  "summarize_keys tool keys runs = Inr j \<Longrightarrow> \<exists>d. j = JObj d \<and> map fst d = keys"
proof -
  assume "summarize_keys tool keys runs = Inr j"
  then obtain valid d where d: "j = JObj d"
      "mapE (\<lambda>k. bindE (summarize_key valid tool k) (\<lambda>s. Inr (k, s))) keys = Inr d"
    unfolding summarize_keys_def by (auto elim!: bindE_InrE)
  with mapE_tag show ?thesis by blast
qed

text \<open>One incomplete run spoils the summary: if the parsed output of a single wrk run lacks one
  of the three summarised metrics (the parser leaves out what it cannot find), \<^verbatim>\<open>summarize_wrk\<close>
  raises for the whole set of runs; runs without wrk output at all are ignored.\<close>

theorem summarize_wrk_incomplete_run:
  assumes "d \<in> set ds" and "dict_get d ''wrk'' = Some (JObj t)"
    and "k \<in> set wrk_metrics" and "dict_get t k = None"
  shows "isl (summarize_wrk (map JObj ds)) \<and>
    summarize_wrk (map JObj (filter (\<lambda>d. dict_get d ''wrk'' \<noteq> None) ds)) = summarize_wrk (map JObj ds)"
proof
  show "isl (summarize_wrk (map JObj ds))"
    unfolding summarize_wrk_def
    by (rule summarize_keys_missing [OF runs_with_objs _ _ assms(3,4), of "JObj d"]) (use assms(1,2) in auto)
  show "summarize_wrk (map JObj (filter (\<lambda>d. dict_get d ''wrk'' \<noteq> None) ds)) = summarize_wrk (map JObj ds)"
    unfolding summarize_wrk_def summarize_keys_def runs_with_objs by simp
qed

theorem summarize_wrk_incomplete_run_witness:
  "isl (summarize_wrk (map JObj [[(''wrk'', JObj [(''latency_avg_ms'', JNum (PInt 1))])], []]))"
  using summarize_wrk_incomplete_run [of "[(''wrk'', JObj [(''latency_avg_ms'', JNum (PInt 1))])]"
      "[[(''wrk'', JObj [(''latency_avg_ms'', JNum (PInt 1))])], []]"
      "[(''latency_avg_ms'', JNum (PInt 1))]" "''requests_per_sec''"]
  by (simp add: wrk_metrics_def)

end
