(* ===== verification/WrkPlots.thy ===== *)
theory WrkPlots
  imports Dataset Metrics
begin

text \<open>
  \<^verbatim>\<open>docs/benchmarking/analysis/wrk_plots.py\<close>: three box plots over the runs and an error bar of the
  summary. Every function that ends in \<^verbatim>\<open>_save\<close> is an action on the dataset that adds or replaces one
  image; the figure is the log of the plotting calls. A directory argument \<^verbatim>\<open>dataset/raw/tool\<close> is the
  name of the tool, an output argument is the path below \<^verbatim>\<open>plots/\<close>.
\<close>

section \<open>Helpers\<close>

definition text_opts :: "string \<Rightarrow> (string \<times> arg) list" where
  "text_opts ha = [(''fontsize'', ANum (PInt 9)), (''ha'', AStr ha), (''va'', AStr ''center'')]"

definition annotate_boxplot :: "figure \<Rightarrow> pynum list \<Rightarrow> string \<Rightarrow> figure result" where
  "annotate_boxplot ax values unit =
     (if values = [] then Inr ax else
      bindE (stat_mean values) (\<lambda>mean.
      bindE (stat_median values) (\<lambda>median.
      bindE (py_max values) (\<lambda>hi.
      bindE (py_min values) (\<lambda>lo.
      let x = PInt 1 in
      Inr (ax @
        [Call ''text'' [ANum (num_sub x (flit (22 / 100))), ANum mean, AStr (''Mean'' @ newline @ fmt 3 mean @ unit)]
           ((''color'', AStr ''green'') # text_opts ''right''),
         Call ''text'' [ANum (num_add x (flit (22 / 100))), ANum median, AStr (''Median'' @ newline @ fmt 3 median @ unit)]
           ((''color'', AStr ''tab:orange'') # text_opts ''left''),
         Call ''text'' [ANum (num_add x (flit (12 / 100))), ANum hi, AStr (''Max'' @ newline @ fmt 3 hi @ unit)]
           (text_opts ''left''),
         Call ''text'' [ANum (num_add x (flit (12 / 100))), ANum lo, AStr (''Min'' @ newline @ fmt 3 lo @ unit)]
           (text_opts ''left'')]))))))"

definition save :: "figure \<Rightarrow> string list \<Rightarrow> (dataset, unit) action" where
  "save fig path = save_figure path
     (fig @ [Call ''tight_layout'' [] [], Call ''savefig'' [] [(''dpi'', ANum (PInt 200))]])"

definition wrk_load_runs :: "tool_dir \<Rightarrow> json list result" where
  "wrk_load_runs runs = load_runs_with ''wrk'' runs"

section \<open>Box plots\<close>

definition boxplot_calls :: "pynum list \<Rightarrow> string \<Rightarrow> string \<Rightarrow> figure" where
  "boxplot_calls values ttl ylabel =
     [Call ''subplots'' [] [(''figsize'', nums [PInt 6, PInt 5])],
      Call ''boxplot'' [nums values] [(''patch_artist'', ABool True), (''showmeans'', ABool True)],
      Call ''set_title'' [AStr ttl] [],
      Call ''set_ylabel'' [AStr ylabel] [],
      Call ''grid'' [] [(''axis'', AStr ''y''), (''alpha'', ANum (flit (3 / 10)))]]"

text \<open>The body the three box plots share: the metric of every run, nothing when there is no run.\<close>

definition run_values :: "string \<Rightarrow> string \<Rightarrow> json list \<Rightarrow> pynum list result" where
  "run_values tool key runs =
     bindE (mapE (\<lambda>run. bindE (getitem run tool) (\<lambda>t. getitem t key)) runs) (mapE as_num)"

definition boxplot_of :: "pynum list \<Rightarrow> string \<Rightarrow> string \<Rightarrow> string \<Rightarrow> string list \<Rightarrow> (dataset, unit) action" where
  "boxplot_of values ttl ylabel unit path =
     (if values = [] then returnA () else
      bindA (liftA (annotate_boxplot (boxplot_calls values ttl ylabel) values unit)) (\<lambda>fig.
      save fig path))"

definition wrk_boxplot :: "string \<Rightarrow> string \<Rightarrow> string \<Rightarrow> string \<Rightarrow> string \<Rightarrow> string list \<Rightarrow> (dataset, unit) action" where
  "wrk_boxplot key ttl ylabel unit tool path =
     bindA (getA (tool_runs tool)) (\<lambda>dir.
     bindA (liftA (wrk_load_runs dir)) (\<lambda>runs.
     bindA (liftA (run_values ''wrk'' key runs)) (\<lambda>values.
     boxplot_of values ttl ylabel unit path)))"

definition throughput_boxplot :: "string \<Rightarrow> string list \<Rightarrow> (dataset, unit) action" where
  "throughput_boxplot = wrk_boxplot ''requests_per_sec'' ''wrk Throughput'' ''Requests / second'' []"

definition latency_boxplot :: "string \<Rightarrow> string list \<Rightarrow> (dataset, unit) action" where
  "latency_boxplot = wrk_boxplot ''latency_avg_ms'' ''wrk Mean Latency'' ''Latency (ms)'' '' ms''"

definition transfer_boxplot :: "string \<Rightarrow> string list \<Rightarrow> (dataset, unit) action" where
  "transfer_boxplot = wrk_boxplot ''transfer_mb_per_sec'' ''wrk Transfer Rate'' ''Transfer (MB/s)'' '' MB/s''"

section \<open>Error bar\<close>

definition annotate_opts :: "(string \<times> arg) list \<Rightarrow> (string \<times> arg) list" where
  "annotate_opts extra = [(''xytext'', nums [PInt 8, PInt 0]), (''textcoords'', AStr ''offset points'')] @ extra"

definition y_lower :: "pynum \<Rightarrow> pynum \<Rightarrow> pynum" where
  "y_lower avg std = max2 (PInt 0) (num_sub avg (num_mul std (PInt 3)))"

definition y_upper :: "pynum \<Rightarrow> pynum \<Rightarrow> pynum" where
  "y_upper avg std = num_add avg (num_mul std (PInt 3))"

definition errorbar_calls :: "pynum \<Rightarrow> pynum \<Rightarrow> figure" where
  "errorbar_calls avg std =
     [Call ''subplots'' [] [(''figsize'', nums [PInt 6, PInt 5])],
      Call ''errorbar'' [] [(''x'', nums [PInt 1]), (''y'', nums [avg]), (''yerr'', nums [std]),
        (''fmt'', AStr ''o''), (''markersize'', ANum (PInt 8)), (''capsize'', ANum (PInt 8)),
        (''linewidth'', ANum (PInt 2))],
      Call ''annotate'' [AStr (fmt 0 avg), nums [PInt 1, avg]] (annotate_opts [(''va'', AStr ''center'')]),
      Call ''annotate'' [AStr (''+'' @ fmt 0 std), nums [PInt 1, num_add avg std]]
        (annotate_opts [(''fontsize'', ANum (PInt 8))]),
      Call ''annotate'' [AStr (''-'' @ fmt 0 std), nums [PInt 1, num_sub avg std]]
        (annotate_opts [(''fontsize'', ANum (PInt 8))]),
      Call ''set_xlim'' [ANum (flit (1 / 2)), ANum (flit (3 / 2))] [],
      Call ''set_xticks'' [nums [PInt 1]] [],
      Call ''set_xticklabels'' [AList [AStr ''wrk'']] [],
      Call ''set_ylabel'' [AStr ''Requests / second''] [],
      Call ''set_title'' [AStr (''wrk Throughput (Mean '' @ [CHR 0xC2, CHR 0xB1] @ '' Std Dev)'')] [],
      Call ''grid'' [] [(''axis'', AStr ''y''), (''alpha'', ANum (flit (3 / 10)))],
      Call ''set_ylim'' [ANum (y_lower avg std), ANum (y_upper avg std)] []]"

definition throughput_errorbar :: "json \<Rightarrow> string list \<Rightarrow> (dataset, unit) action" where
  "throughput_errorbar summary path =
     bindA (liftA (bindE (getitem summary ''wrk'') (\<lambda>w. getitem w ''requests_per_sec''))) (\<lambda>stats.
     bindA (liftA (bindE (getitem stats ''mean'') as_num)) (\<lambda>mean.
     bindA (liftA (bindE (getitem stats ''stddev'') as_num)) (\<lambda>std.
     save (errorbar_calls mean std) path)))"

section \<open>All wrk plots\<close>

definition generate :: "json \<Rightarrow> (dataset, unit) action" where
  "generate summary =
     bindA (throughput_boxplot ''wrk'' [''wrk-throughput-boxplot.png'']) (\<lambda>_.
     bindA (throughput_errorbar summary [''wrk-throughput-errorbar.png'']) (\<lambda>_.
     bindA (latency_boxplot ''wrk'' [''wrk-latency-boxplot.png'']) (\<lambda>_.
     transfer_boxplot ''wrk'' [''wrk-transfer-boxplot.png''])))"

definition wrk_images :: "string list set" where
  "wrk_images = {[''wrk-throughput-boxplot.png''], [''wrk-throughput-errorbar.png''],
     [''wrk-latency-boxplot.png''], [''wrk-transfer-boxplot.png'']}"

section \<open>Properties\<close>

lemma annotate_total: "\<exists>fig. annotate_boxplot ax values unit = Inr fig"
proof (cases "values = []")
  case False
  then obtain m d h l where "stat_mean values = Inr m" "stat_median values = Inr d"
    "py_max values = Inr h" "py_min values = Inr l"
    using stat_mean_total py_min_val py_max_val stat_median_total by metis
  then show ?thesis by (simp add: annotate_boxplot_def Let_def)
qed (simp add: annotate_boxplot_def)

lemma draws_save: "draws (save fig path) (\<lambda>_. True) (\<lambda>_. {path})"
  unfolding save_def by (rule draws_save_figure)

lemma draws_boxplot_of:
  "draws (boxplot_of values ttl ylabel unit path) (\<lambda>_. True) (\<lambda>_. if values = [] then {} else {path})"
proof (cases "values = []")
  case False
  obtain fig where fig: "annotate_boxplot (boxplot_calls values ttl ylabel) values unit = Inr fig"
    using annotate_total by blast
  show ?thesis using False by (simp add: boxplot_of_def fig draws_save)
qed (simp add: boxplot_of_def draws_return)

lemma run_values_empty: "run_values tool key runs = Inr values \<Longrightarrow> values = [] \<longleftrightarrow> runs = []"
  by (auto simp: run_values_def elim!: bindE_InrE dest!: mapE_length)

text \<open>A metric of every loaded run is a number; the images of a box plot over the runs, none without
  runs.\<close>

definition numeric :: "string \<Rightarrow> string \<Rightarrow> json list \<Rightarrow> bool" where
  "numeric tool key runs \<longleftrightarrow> (\<exists>vs. run_values tool key runs = Inr vs)"

definition if_runs :: "json list result \<Rightarrow> 'a set \<Rightarrow> 'a set" where
  "if_runs r P = (if r = Inr [] then {} else P)"

lemma numeric_iff:
  "numeric tool key runs \<longleftrightarrow> (\<forall>run \<in> set runs. \<exists>v. bindE (getitem run tool) (\<lambda>t. getitem t key) = Inr (JNum v))"
proof (induction runs)
  case Nil
  then show ?case by (simp add: numeric_def run_values_def)
next
  case (Cons run runs)
  then show ?case
    by (auto simp: numeric_def run_values_def bindE_Inr_iff)
qed

lemma draws_boxplot_runs:
  "draws (bindA (getA (tool_runs tool)) (\<lambda>dir. bindA (liftA (load dir)) (\<lambda>runs.
     bindA (liftA (run_values name key runs)) (\<lambda>values. boxplot_of values ttl ylabel unit path))))
   (\<lambda>ds. \<exists>runs. load (tool_runs tool ds) = Inr runs \<and> numeric name key runs)
   (\<lambda>ds. if_runs (load (tool_runs tool ds)) {path})"
proof -
  have inner: "draws (bindA (liftA (run_values name key runs)) (\<lambda>values. boxplot_of values ttl ylabel unit path))
      (\<lambda>_. numeric name key runs) (\<lambda>_. if runs = [] then {} else {path})" for runs
    by (rule draws_cong, rule draws_lift, rule draws_cong, rule draws_boxplot_of)
      (auto simp: numeric_def dest: run_values_empty)
  have "draws (bindA (liftA (load dir)) (\<lambda>runs. bindA (liftA (run_values name key runs))
      (\<lambda>values. boxplot_of values ttl ylabel unit path)))
      (\<lambda>_. \<exists>runs. load dir = Inr runs \<and> numeric name key runs) (\<lambda>_. if_runs (load dir) {path})" for dir
    by (rule draws_lift, rule draws_cong, rule inner) (auto simp: if_runs_def)
  then show ?thesis by (rule draws_get)
qed

lemma draws_wrk_boxplot:
  "draws (wrk_boxplot key ttl ylabel unit tool path)
     (\<lambda>ds. \<exists>runs. wrk_load_runs (tool_runs tool ds) = Inr runs \<and> numeric ''wrk'' key runs)
     (\<lambda>ds. if_runs (wrk_load_runs (tool_runs tool ds)) {path})"
  unfolding wrk_boxplot_def by (rule draws_boxplot_runs)

text \<open>The summary has the two numbers of the error bar.\<close>

definition has_errorbar :: "json \<Rightarrow> bool" where
  "has_errorbar summary \<longleftrightarrow> (\<exists>stats avg std.
     bindE (getitem summary ''wrk'') (\<lambda>w. getitem w ''requests_per_sec'') = Inr stats \<and>
     getitem stats ''mean'' = Inr (JNum avg) \<and> getitem stats ''stddev'' = Inr (JNum std))"

lemma draws_throughput_errorbar:
  "draws (throughput_errorbar summary path) (\<lambda>_. has_errorbar summary) (\<lambda>_. {path})"
  unfolding throughput_errorbar_def
  by (rule draws_cong, (rule draws_lift)+, rule draws_save) (auto simp: has_errorbar_def bindE_Inr_iff)

lemmas wrk_plot_defs = throughput_boxplot_def latency_boxplot_def transfer_boxplot_def

lemma draws_generate:
  "draws (generate summary)
     (\<lambda>ds. has_errorbar summary \<and> (\<exists>runs. wrk_load_runs (tool_runs ''wrk'' ds) = Inr runs \<and>
        (\<forall>key \<in> set wrk_metrics. numeric ''wrk'' key runs)))
     (\<lambda>ds. if wrk_load_runs (tool_runs ''wrk'' ds) = Inr [] then {[''wrk-throughput-errorbar.png'']} else wrk_images)"
proof -
  note free = plots_free_comp [OF plots_free_raw(3)]
  show ?thesis
    unfolding generate_def wrk_plot_defs
    by (rule draws_cong, (rule draws_seq draws_wrk_boxplot draws_throughput_errorbar)+)
      (auto simp: if_runs_def wrk_images_def wrk_metrics_def intro!: plots_free_comp2 free)
qed

text \<open>C36. wrk plots. \<^verbatim>\<open>generate\<close> of \<^verbatim>\<open>wrk_plots.py\<close> returns exactly when the summary has the mean and
  standard deviation of the throughput and every loaded wrk run has the three metrics as numbers; it
  has then drawn the error bar, and the three box plots exactly when there is a run. Whether it
  returns or raises, it changes nothing but images.\<close>

theorem wrk_generate_images:
  assumes "generate summary ds = (r, t)"
  shows "no_plots t = no_plots ds \<and>
    (r = Inr () \<longleftrightarrow> has_errorbar summary \<and> (\<exists>runs. wrk_load_runs (tool_runs ''wrk'' ds) = Inr runs \<and>
        (\<forall>key \<in> set wrk_metrics. numeric ''wrk'' key runs))) \<and>
    (r = Inr () \<longrightarrow> image_paths t = image_paths ds \<union>
      (if wrk_load_runs (tool_runs ''wrk'' ds) = Inr [] then {[''wrk-throughput-errorbar.png'']} else wrk_images))"
  using draws_rest [OF draws_generate assms] draws_returns [OF draws_generate assms]
    draws_images [OF draws_generate] assms by blast

theorem wrk_generate_images_witness:
  "fst (generate example_summary example_dataset) = Inr () \<and>
   image_paths (snd (generate example_summary example_dataset)) = wrk_images"
proof -
  have runs: "wrk_load_runs (tool_runs ''wrk'' example_dataset) = Inr [JObj [(''wrk'', example_wrk),
      (''pidstat'', JList [JObj [(''cpu'', JNum (PInt 12)), (''rss'', JNum (PInt 2048))],
                          JObj [(''cpu'', JNum (PInt 20)), (''rss'', JNum (PInt 4096))]])]]"
    by code_simp
  have "has_errorbar example_summary"
    by (simp add: has_errorbar_def example_summary_def example_stats_def)
  moreover have "image_paths example_dataset = {}" by code_simp
  ultimately show ?thesis
    using wrk_generate_images [of example_summary example_dataset, OF surjective_pairing]
    by (simp add: runs numeric_iff example_wrk_def wrk_metrics_def)
qed

text \<open>The limits of the error bar in binary64 arithmetic.\<close>

lemma val_max2: "val (max2 a b) = max (val a) (val b)"
  by (simp add: max2_def)

lemma triple_float: "is_b64 s \<Longrightarrow> 0 \<le> s \<Longrightarrow> s \<le> fl (s * 3)"
  using b64.rnd_mono [of s "s * 3"] by (simp add: is_b64_def)

text \<open>Error bar limits. For a non-negative mean and standard deviation as the summary stores
  them, the y axis of the error bar starts at zero or above, contains the mean and the end of the
  upper bar, and contains the end of the lower bar unless that end is negative.\<close>

theorem errorbar_limits:
  assumes "num_ok avg" and "0 \<le> val avg" and "is_b64 s" and "0 \<le> s"
  defines "lo \<equiv> val (y_lower avg (PFloat s))" and "hi \<equiv> val (y_upper avg (PFloat s))"
  shows "0 \<le> lo \<and> lo \<le> val avg \<and> val avg \<le> hi \<and> val (num_add avg (PFloat s)) \<le> hi \<and>
    lo \<le> max 0 (val (num_sub avg (PFloat s)))"
proof -
  have m: "to_float avg = val avg" "fl (val avg) = val avg"
    using assms(1) by (auto simp: num_ok_to_float num_ok_def is_b64_def)
  have three: "num_mul (PFloat s) (PInt 3) = PFloat (fl (s * 3))"
    using b64.rnd_int [of 3] by simp
  have ops: "val (num_add avg (PFloat a)) = fl (val avg + a)" "val (num_sub avg (PFloat a)) = fl (val avg - a)" for a
    using m(1) by (cases avg; simp)+
  let ?t = "fl (s * 3)"
  have t: "0 \<le> ?t" "s \<le> ?t" using triple_float assms(3,4) order_trans by blast+
  have "lo = max 0 (fl (val avg - ?t))"
    by (simp add: lo_def y_lower_def three val_max2 ops del: num_mul.simps num_sub.simps)
  moreover have "hi = fl (val avg + ?t)" by (simp add: hi_def y_upper_def three ops del: num_mul.simps num_add.simps)
  moreover have "fl (val avg - ?t) \<le> fl (val avg)" "fl (val avg) \<le> fl (val avg + ?t)"
    "fl (val avg + s) \<le> fl (val avg + ?t)" "fl (val avg - ?t) \<le> fl (val avg - s)"
    using t by (auto intro: b64.rnd_mono)
  ultimately show ?thesis using assms(2) m(2)
    by (auto simp: ops simp del: num_add.simps num_sub.simps)
qed

theorem errorbar_limits_witness:
  "num_ok (PInt 1000) \<and> val (y_lower (PInt 1000) (PFloat 250)) = 250 \<and>
   0 \<le> val (y_lower (PInt 1000) (PFloat 250)) \<and> val (PInt 1000) \<le> val (y_upper (PInt 1000) (PFloat 250))"
proof -
  have h: "num_ok (PInt 1000)" "0 \<le> val (PInt 1000)" "is_b64 (250::rat)" "(0::rat) \<le> 250"
    using b64.rnd_int [of 250] by (simp_all add: num_ok_PInt is_b64_def)
  have "val (y_lower (PInt 1000) (PFloat 250)) = 250" by code_simp
  then show ?thesis using errorbar_limits [OF h] h(1) by blast
qed

end
