(* ===== verification/VegetaPlots.thy ===== *)
theory VegetaPlots
  imports WrkPlots
begin

text \<open>
  \<^verbatim>\<open>docs/benchmarking/analysis/vegeta_plots.py\<close>: the latency box plot, the percentile curve of the
  summary, and the histogram of latencies summed over the runs, with the parser of vegeta's
  \<^verbatim>\<open>histogram.txt\<close>. The module has its own copies of \<^verbatim>\<open>_annotate_boxplot\<close> and \<^verbatim>\<open>_save\<close>, equal to those
  of \<^verbatim>\<open>wrk_plots.py\<close> statement for statement; its \<^verbatim>\<open>_load_runs\<close> globs \<^verbatim>\<open>run-*/parsed.json\<close>, which lists
  the run directories that have the file in the same order.
\<close>

section \<open>Helpers\<close>

definition vegeta_annotate_boxplot :: "figure \<Rightarrow> pynum list \<Rightarrow> string \<Rightarrow> figure result" where
  "vegeta_annotate_boxplot = annotate_boxplot"

definition vegeta_save :: "figure \<Rightarrow> string list \<Rightarrow> (dataset, unit) action" where
  "vegeta_save = save"

text \<open>\<^verbatim>\<open>sorted(glob("run-*/parsed.json"))\<close>: the runs that have the file.\<close>

definition parsed_runs :: "tool_dir \<Rightarrow> tool_dir" where
  "parsed_runs runs = filter (\<lambda>(_, run). file_exists (parsed_file run)) runs"

fun vegeta_load :: "tool_dir \<Rightarrow> json list result" where
  "vegeta_load [] = Inr []"
| "vegeta_load ((name, run) # runs) =
     bindE (load_json name (parsed_file run)) (\<lambda>data.
     bindE (contains data ''vegeta'') (\<lambda>b.
     bindE (vegeta_load runs) (\<lambda>rest. Inr (if b then data # rest else rest))))"

definition vegeta_load_runs :: "tool_dir \<Rightarrow> json list result" where
  "vegeta_load_runs runs = vegeta_load (parsed_runs runs)"

section \<open>Box plot and percentile curve\<close>

definition vegeta_latency_boxplot :: "string \<Rightarrow> string list \<Rightarrow> (dataset, unit) action" where
  "vegeta_latency_boxplot tool path =
     bindA (getA (tool_runs tool)) (\<lambda>dir.
     bindA (liftA (vegeta_load_runs dir)) (\<lambda>runs.
     bindA (liftA (run_values ''vegeta'' ''latency_mean_ms'' runs)) (\<lambda>values.
     if values = [] then returnA () else
     bindA (liftA (vegeta_annotate_boxplot
       (boxplot_calls values ''Vegeta Mean Latency Across Runs'' ''Latency (ms)'') values '' ms'')) (\<lambda>fig.
     vegeta_save fig path))))"

definition percentile_keys :: "string list" where
  "percentile_keys = [''latency_p50_ms'', ''latency_p95_ms'', ''latency_p99_ms'', ''latency_max_ms'']"

definition percentile_labels :: "string list" where
  "percentile_labels = [''P50'', ''P95'', ''P99'', ''Max'']"

definition percentile_calls :: "pynum list \<Rightarrow> figure" where
  "percentile_calls values =
     [Call ''subplots'' [] [(''figsize'', nums [PInt 7, PInt 4])],
      Call ''plot'' [AList (map AStr percentile_labels), nums values]
        [(''marker'', AStr ''o''), (''linewidth'', ANum (PInt 2))]]
     @ map (\<lambda>(x, y). Call ''annotate'' [AStr (fmt 3 y), AList [AStr x, ANum y]]
         [(''xytext'', nums [PInt 0, PInt 7]), (''textcoords'', AStr ''offset points''),
          (''ha'', AStr ''center''), (''fontsize'', ANum (PInt 9))]) (zip percentile_labels values)
     @ [Call ''set_title'' [AStr ''Vegeta Latency Percentiles''] [],
        Call ''set_ylabel'' [AStr ''Latency (ms)''] [],
        Call ''grid'' [] [(''alpha'', ANum (flit (3 / 10)))]]"

definition latency_percentiles :: "json \<Rightarrow> string list \<Rightarrow> (dataset, unit) action" where
  "latency_percentiles summary path =
     bindA (liftA (contains summary ''vegeta'')) (\<lambda>b.
     if \<not> b then returnA () else
     bindA (liftA (getitem summary ''vegeta'')) (\<lambda>stats.
     bindA (liftA (mapE (\<lambda>k. bindE (getitem stats k) (\<lambda>s. getitem s ''mean'')) percentile_keys)) (\<lambda>js.
     bindA (liftA (mapE as_num js)) (\<lambda>values.
     vegeta_save (percentile_calls values) path))))"

section \<open>Histogram\<close>

text \<open>One line of \<^verbatim>\<open>histogram.txt\<close>: the bucket (two words) and its count, or nothing.\<close>

definition histogram_line :: "string \<Rightarrow> (string \<times> int) option" where
  "histogram_line raw_line =
     (let line = strip raw_line in
      if line = [] \<or> is_prefix ''Bucket'' line then None else
      let parts = py_split line in
      if length parts < 3 then None else
      let bucket = parts ! 0 @ '' '' @ parts ! 1 in
      case py_int (parts ! 2) of Inl _ \<Rightarrow> None | Inr n \<Rightarrow> Some (bucket, n))"

definition load_histogram :: "string option \<Rightarrow> string list \<times> int list" where
  "load_histogram histogram_file =
     (case histogram_file of None \<Rightarrow> ([], [])
      | Some text \<Rightarrow> fold (\<lambda>line (buckets, counts). case histogram_line line of
          None \<Rightarrow> (buckets, counts)
        | Some (bucket, n) \<Rightarrow> (buckets @ [bucket], counts @ [n])) (splitlines text) ([], []))"

text \<open>\<^verbatim>\<open>aggregate[bucket] = aggregate.get(bucket, 0) + count\<close>\<close>

definition add_count :: "string \<times> int \<Rightarrow> int dict \<Rightarrow> int dict" where
  "add_count bc aggregate = (case bc of (bucket, n) \<Rightarrow>
     dict_put bucket ((case dict_get aggregate bucket of None \<Rightarrow> 0 | Some m \<Rightarrow> m) + n) aggregate)"

fun histogram_of :: "run_dir node \<Rightarrow> string option" where
  "histogram_of File = None"
| "histogram_of (Dir run) = histogram_txt run"

definition aggregate_histograms :: "tool_dir \<Rightarrow> int dict" where
  "aggregate_histograms runs = fold (\<lambda>(_, run) aggregate.
     let (buckets, counts) = load_histogram (histogram_of run)
     in fold add_count (zip buckets counts) aggregate) runs []"

definition histogram_calls :: "int dict \<Rightarrow> figure" where
  "histogram_calls aggregate =
     [Call ''subplots'' [] [(''figsize'', nums [PInt 9, PInt 5])],
      Call ''bar'' [AList (map (AStr \<circ> fst) aggregate), nums (map (PInt \<circ> snd) aggregate)] [],
      Call ''set_title'' [AStr ''Aggregate Latency Histogram''] [],
      Call ''set_xlabel'' [AStr ''Latency Bucket''] [],
      Call ''set_ylabel'' [AStr ''Requests''] [],
      Call ''xticks'' [] [(''rotation'', ANum (PInt 30)), (''ha'', AStr ''right'')],
      Call ''grid'' [] [(''axis'', AStr ''y''), (''alpha'', ANum (flit (3 / 10)))]]"

definition latency_histogram :: "string \<Rightarrow> string list \<Rightarrow> (dataset, unit) action" where
  "latency_histogram tool path =
     bindA (getA (tool_runs tool)) (\<lambda>dir.
     let aggregate = aggregate_histograms dir in
     if aggregate = [] then returnA () else vegeta_save (histogram_calls aggregate) path)"

section \<open>All vegeta plots\<close>

definition vegeta_generate :: "json \<Rightarrow> (dataset, unit) action" where
  "vegeta_generate summary =
     bindA (liftA (contains summary ''vegeta'')) (\<lambda>b.
     if \<not> b then returnA () else
     bindA (getA (tool_entry ''vegeta'')) (\<lambda>dir.
     if dir = None then returnA () else
     bindA (vegeta_latency_boxplot ''vegeta'' [''vegeta'', ''latency-boxplot.png'']) (\<lambda>_.
     bindA (latency_percentiles summary [''vegeta'', ''latency-percentiles.png'']) (\<lambda>_.
     latency_histogram ''vegeta'' [''vegeta'', ''latency-histogram.png'']))))"

section \<open>The histogram adds up the counts\<close>

definition histogram_rows :: "string option \<Rightarrow> (string \<times> int) list" where
  "histogram_rows f = (case f of None \<Rightarrow> [] | Some text \<Rightarrow> List.map_filter histogram_line (splitlines text))"

lemma load_histogram_rows: "load_histogram f = (map fst (histogram_rows f), map snd (histogram_rows f))"
proof (cases f)
  case (Some s)
  have "fold (\<lambda>line (buckets, counts). case histogram_line line of
          None \<Rightarrow> (buckets, counts)
        | Some (bucket, n) \<Rightarrow> (buckets @ [bucket], counts @ [n])) ls (bs, cs)
      = (bs @ map fst (List.map_filter histogram_line ls), cs @ map snd (List.map_filter histogram_line ls))" for ls bs cs
    by (induction ls arbitrary: bs cs) (auto simp: List.map_filter_simps split: option.splits)
  then show ?thesis using Some by (simp add: load_histogram_def histogram_rows_def)
qed (simp add: load_histogram_def histogram_rows_def)

definition all_rows :: "tool_dir \<Rightarrow> (string \<times> int) list" where
  "all_rows runs = concat (map (\<lambda>(_, run). histogram_rows (histogram_of run)) runs)"

lemma aggregate_rows: "aggregate_histograms runs = fold add_count (all_rows runs) []"
proof -
  have "fold (\<lambda>(_, run) a. fold add_count (histogram_rows (histogram_of run)) a) runs d =
      fold add_count (all_rows runs) d" for d
    by (induction runs arbitrary: d) (auto simp: all_rows_def)
  then show ?thesis
    by (simp add: aggregate_histograms_def load_histogram_rows zip_map_fst_snd)
qed

definition counts_for :: "string \<Rightarrow> (string \<times> int) list \<Rightarrow> int list" where
  "counts_for b rows = map snd (filter (\<lambda>r. fst r = b) rows)"

lemma add_count_get1:
  "dict_get (add_count r d) b =
    (if b = fst r then Some ((case dict_get d b of None \<Rightarrow> 0 | Some m \<Rightarrow> m) + snd r) else dict_get d b)"
  by (cases r) (simp add: add_count_def pydict.get_put)

lemma add_count_get:
  "dict_get (fold add_count rows d) b =
    (if counts_for b rows = [] then dict_get d b
     else Some ((case dict_get d b of None \<Rightarrow> 0 | Some m \<Rightarrow> m) + sum_list (counts_for b rows)))"
proof (induction rows arbitrary: d)
  case Nil
  then show ?case by (simp add: counts_for_def)
next
  case (Cons r rows)
  show ?case
    by (auto simp: Cons.IH add_count_get1 counts_for_def split: option.splits)
qed

lemma add_count_keys:
  "set (dict_keys (fold add_count rows d)) = set (dict_keys d) \<union> set (map fst rows)
   \<and> (distinct (dict_keys d) \<longrightarrow> distinct (dict_keys (fold add_count rows d)))"
proof (induction rows arbitrary: d)
  case Nil
  then show ?case by simp
next
  case (Cons r rows)
  have "set (dict_keys (add_count r d)) = insert (fst r) (set (dict_keys d))"
    by (cases r) (auto simp: add_count_def dict_keys_put)
  moreover have "distinct (dict_keys d) \<Longrightarrow> distinct (dict_keys (add_count r d))"
    by (cases r) (simp add: add_count_def pydict.wf_put)
  ultimately show ?case using Cons.IH [of "add_count r d"] by auto
qed

lemma sum_dict_put:
  "distinct (dict_keys d) \<Longrightarrow> sum_list (map snd (dict_put k v d)) =
     sum_list (map snd d) + v - (case dict_get d k of None \<Rightarrow> 0 | Some m \<Rightarrow> (m::int))"
proof (induction d)
  case Nil
  then show ?case by simp
next
  case (Cons e d)
  have "dict_get d k = None" if "fst e = k"
    using Cons.prems that by (simp add: map_of_eq_None_iff)
  then show ?case using Cons by (cases e) auto
qed

lemma add_count_sum:
  "distinct (dict_keys d) \<Longrightarrow>
    sum_list (map snd (fold add_count rows d)) = sum_list (map snd d) + sum_list (map snd rows)"
proof (induction rows arbitrary: d)
  case Nil
  then show ?case by simp
next
  case (Cons r rows)
  have "distinct (dict_keys (add_count r d))"
    using Cons.prems by (cases r) (simp add: add_count_def pydict.wf_put)
  moreover have "sum_list (map snd (add_count r d)) = sum_list (map snd d) + snd r"
    using Cons.prems by (cases r) (simp add: add_count_def sum_dict_put)
  ultimately show ?case by (simp add: Cons.IH)
qed

text \<open>C14. The aggregated latency histogram. Every bucket that occurs in some run gets the sum of its
  counts over all runs and lines, no other bucket appears and none appears twice, and no request
  is lost: the bars add up to all counts that were read.\<close>

theorem histogram_conserves_counts:
  "let agg = aggregate_histograms runs; rows = all_rows runs in
     distinct (dict_keys agg) \<and> set (dict_keys agg) = set (map fst rows) \<and>
     (\<forall>b. dict_get agg b = (if counts_for b rows = [] then None else Some (sum_list (counts_for b rows)))) \<and>
     sum_list (map snd agg) = sum_list (map snd rows)"
  using add_count_keys [of "all_rows runs" "[]"] add_count_sum [of "[]" "all_rows runs"]
  by (simp add: aggregate_rows Let_def add_count_get)

section \<open>Reading back a histogram\<close>

text \<open>A row as vegeta prints it, e.g. \<^verbatim>\<open>[0s,    2ms]   1000  100.00%  #######\<close>: the two bounds and the count, padded
  to columns by one or more blanks, and after the count whatever is left of the line (percentage, bar, trailing
  blanks), separated from it by a blank.\<close>

record histogram_row =
  bucket_from :: string
  from_pad :: string
  bucket_to :: string
  to_pad :: string
  bucket_count :: int
  row_rest :: string

definition row_line :: "histogram_row \<Rightarrow> string" where
  "row_line r = bucket_from r @ from_pad r @ bucket_to r @ to_pad r @ int_str (bucket_count r) @ row_rest r"

definition row_entry :: "histogram_row \<Rightarrow> string \<times> int" where
  "row_entry r = (bucket_from r @ '' '' @ bucket_to r, bucket_count r)"

definition is_pad :: "string \<Rightarrow> bool" where
  "is_pad s \<longleftrightarrow> s \<noteq> [] \<and> list_all (\<lambda>c. c = CHR '' '') s"

definition wf_row :: "histogram_row \<Rightarrow> bool" where
  "wf_row r \<longleftrightarrow> is_word (bucket_from r) \<and> \<not> is_prefix ''Bucket'' (bucket_from r) \<and> is_pad (from_pad r) \<and>
     is_word (bucket_to r) \<and> is_pad (to_pad r) \<and>
     (row_rest r = [] \<or> hd (row_rest r) = CHR '' '') \<and> list_all (\<lambda>c. \<not> is_linebreak c) (row_rest r)"

lemma is_word_int_str: "is_word (int_str n)"
proof -
  have "list_all (\<lambda>c. \<not> is_space c) (digits_str m) \<and> digits_str m \<noteq> []" if "0 \<le> m" for m
    using digits_str_props [OF that] digits_plain [of "digits_str m"] by blast
  from this [of n] this [of "- n"] show ?thesis
    by (auto simp: is_word_def int_str_def is_space_def)
qed

lemma rstrip_append: "u \<noteq> [] \<Longrightarrow> \<not> is_space (last u) \<Longrightarrow> rstrip (u @ w) = u @ rstrip w"
proof -
  assume "u \<noteq> []" "\<not> is_space (last u)"
  then have "dropWhile is_space (rev u) = rev u" by (simp add: dropWhile_eq_self_iff hd_rev)
  then show ?thesis
    by (cases "\<forall>c \<in> set w. is_space c") (auto simp: rstrip_def dropWhile_append)
qed

lemma rstrip_hd: "rstrip s = [] \<or> hd (rstrip s) = hd s"
proof -
  have "s = rev (dropWhile is_space (rev s)) @ rev (takeWhile is_space (rev s))"
    by (metis rev_append rev_rev_ident takeWhile_dropWhile_id)
  then show ?thesis unfolding rstrip_def by (metis hd_append2)
qed

lemma is_word_ends: "is_word w \<Longrightarrow> w \<noteq> [] \<and> \<not> is_space (hd w) \<and> \<not> is_space (last w)"
  by (auto simp: is_word_def list_all_iff)

lemma is_pad_space: "is_pad s \<Longrightarrow> s \<noteq> [] \<and> list_all is_space s"
  by (auto simp: is_pad_def is_space_def elim!: list.pred_mono_strong)

lemma py_split_head: "is_word w \<Longrightarrow> r = [] \<or> is_space (hd r) \<Longrightarrow> \<exists>ws. py_split (w @ r) = w # ws"
proof (cases r)
  case (Cons c cs)
  assume "is_word w" "r = [] \<or> is_space (hd r)"
  with Cons show ?thesis using py_split_cons [of w "[c]" cs] by simp
qed (simp add: py_split_single)

lemma is_prefix_no_space:
  "list_all (\<lambda>c. \<not> is_space c) p \<Longrightarrow> is_space c \<Longrightarrow> is_prefix p (a @ c # s) \<longleftrightarrow> is_prefix p a"
  by (induction p a rule: is_prefix.induct) (auto elim: is_prefix.elims)

lemma strip_row:
  assumes "wf_row r"
  shows "strip (row_line r) = row_line (r\<lparr>row_rest := rstrip (row_rest r)\<rparr>)"
proof -
  let ?u = "bucket_from r @ from_pad r @ bucket_to r @ to_pad r @ int_str (bucket_count r)"
  have "is_word (bucket_from r)" using assms by (simp add: wf_row_def)
  then have "dropWhile is_space (row_line r) = row_line r"
    using is_word_ends [of "bucket_from r"] by (simp add: row_line_def dropWhile_eq_self_iff)
  moreover have "rstrip (?u @ row_rest r) = ?u @ rstrip (row_rest r)"
    using is_word_ends [OF is_word_int_str] by (intro rstrip_append) simp_all
  ultimately show ?thesis by (simp add: strip_def lstrip_def row_line_def)
qed

lemma histogram_line_row:
  assumes "wf_row r"
  shows "histogram_line (row_line r) = Some (row_entry r)"
proof -
  let ?r = "rstrip (row_rest r)"
  note wf = assms [unfolded wf_row_def]
  have "?r = [] \<or> is_space (hd ?r)" using rstrip_hd [of "row_rest r"] wf by (auto simp: rstrip_def is_space_blank)
  then obtain ws where "py_split (int_str (bucket_count r) @ ?r) = int_str (bucket_count r) # ws"
    using py_split_head [OF is_word_int_str] by blast
  then have parts: "py_split (strip (row_line r)) = bucket_from r # bucket_to r # int_str (bucket_count r) # ws"
    unfolding strip_row [OF assms] using wf is_pad_space by (simp add: row_line_def py_split_cons)
  obtain c cs where "from_pad r = c # cs" "is_space c" using wf is_pad_space [of "from_pad r"] by (cases "from_pad r") auto
  then have "\<not> is_prefix ''Bucket'' (strip (row_line r))"
    unfolding strip_row [OF assms] using wf is_prefix_no_space [of "''Bucket''" c]
    by (simp add: row_line_def is_space_def)
  moreover have "strip (row_line r) \<noteq> []" using parts by (auto simp: py_split_def)
  ultimately show ?thesis
    by (simp add: histogram_line_def Let_def parts py_int_int_str row_entry_def)
qed

lemma row_one_line:
  assumes "wf_row r"
  shows "list_all (\<lambda>c. \<not> is_linebreak c) (row_line r) \<and> row_line r \<noteq> []"
proof -
  have w: "list_all (\<lambda>c. \<not> is_linebreak c) w \<and> w \<noteq> []" if "is_word w" for w
    using that by (auto simp: is_word_def list_all_iff is_space_def is_linebreak_def)
  have "list_all (\<lambda>c. \<not> is_linebreak c) s" if "is_pad s" for s
    using that by (auto simp: is_pad_def is_linebreak_def elim!: list.pred_mono_strong)
  with w w [OF is_word_int_str] assms show ?thesis by (simp add: wf_row_def row_line_def)
qed

text \<open>C34. Reading a histogram. The table vegeta prints, a header line that starts with \<^verbatim>\<open>Bucket\<close> and one line
  per bucket whose columns are padded by any numbers of blanks, is read back exactly: the buckets in
  their order, each with its count; the header, percentages and bars are skipped.\<close>

theorem load_histogram_reads_back:
  assumes "list_all wf_row rows" and "rows \<noteq> []" and "list_all (\<lambda>c. \<not> is_linebreak c) heading"
  shows "load_histogram (Some (join newline ((''Bucket'' @ heading) # map row_line rows))) =
    (map (fst \<circ> row_entry) rows, map (snd \<circ> row_entry) rows)"
proof -
  let ?ls = "(''Bucket'' @ heading) # map row_line rows"
  have rows: "\<forall>r \<in> set rows. wf_row r" using assms(1) by (simp add: list_all_iff)
  have "list_all (list_all (\<lambda>c. \<not> is_linebreak c)) (map row_line rows)"
    unfolding list_all_iff [of "list_all _"] set_map using rows row_one_line by blast
  moreover have "last ?ls \<noteq> []" using assms(2) rows row_one_line by (simp add: last_map)
  ultimately have "splitlines (join newline ?ls) = ?ls"
    using assms(3) by (intro splitlines_join) (simp_all add: is_linebreak_def)
  moreover have "strip (''Bucket'' @ heading) = ''Bucket'' @ rstrip heading"
    using rstrip_append [of "''Bucket''" heading] by (simp add: strip_def lstrip_def is_space_def)
  then have "histogram_line (''Bucket'' @ heading) = None" by (simp add: histogram_line_def Let_def)
  moreover have "List.map_filter histogram_line (map row_line rows) = map row_entry rows"
    using assms(1) by (induction rows) (simp_all add: List.map_filter_simps histogram_line_row)
  ultimately show ?thesis by (simp add: load_histogram_rows histogram_rows_def List.map_filter_simps)
qed

text \<open>The table of the docstring of \<^verbatim>\<open>load_histogram\<close>.\<close>

definition docstring_rows :: "histogram_row list" where
  "docstring_rows =
    [\<lparr>bucket_from = ''[0s,'', from_pad = ''    '', bucket_to = ''2ms]'', to_pad = ''   '', bucket_count = 1000,
      row_rest = ''  100.00%  #######''\<rparr>,
     \<lparr>bucket_from = ''[2ms,'', from_pad = ''   '', bucket_to = ''4ms]'', to_pad = ''   '', bucket_count = 0,
      row_rest = ''     0.00%''\<rparr>]"

theorem load_histogram_reads_back_witness:
  "map row_line docstring_rows = [''[0s,    2ms]   1000  100.00%  #######'', ''[2ms,   4ms]   0     0.00%''] \<and>
   load_histogram (Some (join newline ((''Bucket'' @ ''         #     %        Histogram'') # map row_line docstring_rows))) =
   ([''[0s, 2ms]'', ''[2ms, 4ms]''], [1000, 0])"
proof
  show "map row_line docstring_rows = [''[0s,    2ms]   1000  100.00%  #######'', ''[2ms,   4ms]   0     0.00%'']"
    by code_simp
  have "list_all wf_row docstring_rows" "list_all (\<lambda>c. \<not> is_linebreak c) ''         #     %        Histogram''"
    by code_simp+
  from load_histogram_reads_back [OF this(1) _ this(2)]
  show "load_histogram (Some (join newline ((''Bucket'' @ ''         #     %        Histogram'') # map row_line docstring_rows))) =
   ([''[0s, 2ms]'', ''[2ms, 4ms]''], [1000, 0])"
    by (simp add: docstring_rows_def row_entry_def del: append.simps)
qed

section \<open>Which images are drawn\<close>

lemma draws_vegeta_boxplot:
  "draws (vegeta_latency_boxplot tool path)
     (\<lambda>ds. \<exists>runs. vegeta_load_runs (tool_runs tool ds) = Inr runs \<and> numeric ''vegeta'' ''latency_mean_ms'' runs)
     (\<lambda>ds. if_runs (vegeta_load_runs (tool_runs tool ds)) {path})"
  unfolding vegeta_latency_boxplot_def vegeta_annotate_boxplot_def vegeta_save_def boxplot_of_def [symmetric]
  by (rule draws_boxplot_runs)

text \<open>The summary has the numbers of the percentile curve.\<close>

definition has_percentiles :: "json \<Rightarrow> bool" where
  "has_percentiles summary \<longleftrightarrow> (\<exists>stats vs. getitem summary ''vegeta'' = Inr stats \<and>
     mapE (\<lambda>k. bindE (getitem stats k) (\<lambda>s. getitem s ''mean'')) percentile_keys = Inr (map JNum vs))"

lemma draws_latency_percentiles:
  "contains summary ''vegeta'' = Inr True \<Longrightarrow>
    draws (latency_percentiles summary path) (\<lambda>_. has_percentiles summary) (\<lambda>_. {path})"
  unfolding latency_percentiles_def vegeta_save_def
  by (simp, rule draws_cong, (rule draws_lift)+, rule draws_save) (auto simp: has_percentiles_def mapE_as_num)

lemma draws_latency_histogram:
  "draws (latency_histogram tool path) (\<lambda>_. True)
     (\<lambda>ds. if aggregate_histograms (tool_runs tool ds) = [] then {} else {path})"
proof -
  have "draws (let a = aggregate_histograms dir in if a = [] then returnA () else vegeta_save (histogram_calls a) path)
     (\<lambda>_. True) (\<lambda>_. if aggregate_histograms dir = [] then {} else {path})" for dir
    by (simp add: Let_def draws_return vegeta_save_def draws_save)
  then show ?thesis unfolding latency_histogram_def by (rule draws_get)
qed

definition vegeta_images :: "dataset \<Rightarrow> string list set" where
  "vegeta_images ds =
     if_runs (vegeta_load_runs (tool_runs ''vegeta'' ds)) {[''vegeta'', ''latency-boxplot.png'']} \<union>
     {[''vegeta'', ''latency-percentiles.png'']} \<union>
     (if aggregate_histograms (tool_runs ''vegeta'' ds) = [] then {} else {[''vegeta'', ''latency-histogram.png'']})"

definition vegeta_drawable :: "json \<Rightarrow> dataset \<Rightarrow> bool" where
  "vegeta_drawable summary ds \<longleftrightarrow> has_percentiles summary \<and>
     (\<exists>runs. vegeta_load_runs (tool_runs ''vegeta'' ds) = Inr runs \<and> numeric ''vegeta'' ''latency_mean_ms'' runs)"

lemma draws_vegeta_body:
  assumes "contains summary ''vegeta'' = Inr True"
  shows "draws (bindA (vegeta_latency_boxplot ''vegeta'' [''vegeta'', ''latency-boxplot.png'']) (\<lambda>_.
     bindA (latency_percentiles summary [''vegeta'', ''latency-percentiles.png'']) (\<lambda>_.
     latency_histogram ''vegeta'' [''vegeta'', ''latency-histogram.png'']))) (vegeta_drawable summary) vegeta_images"
proof -
  note free = plots_free_comp [OF plots_free_raw(3)]
  show ?thesis
    by (rule draws_cong,
        (rule draws_seq draws_vegeta_boxplot draws_latency_percentiles draws_latency_histogram assms)+)
      (auto simp: vegeta_drawable_def vegeta_images_def intro!: plots_free_comp2 free)
qed

lemma draws_vegeta_generate:
  assumes "contains summary ''vegeta'' = Inr True"
  shows "draws (vegeta_generate summary) (\<lambda>ds. tool_entry ''vegeta'' ds = None \<or> vegeta_drawable summary ds)
    (\<lambda>ds. if tool_entry ''vegeta'' ds = None then {} else vegeta_images ds)"
proof -
  have "draws (if dir = None then returnA () else
      bindA (vegeta_latency_boxplot ''vegeta'' [''vegeta'', ''latency-boxplot.png'']) (\<lambda>_.
      bindA (latency_percentiles summary [''vegeta'', ''latency-percentiles.png'']) (\<lambda>_.
      latency_histogram ''vegeta'' [''vegeta'', ''latency-histogram.png''])))
     (\<lambda>ds. dir = None \<or> vegeta_drawable summary ds) (\<lambda>ds. if dir = None then {} else vegeta_images ds)"
    for dir :: "tool_dir node option"
    using draws_vegeta_body [OF assms] draws_return by (cases dir) simp_all
  then show ?thesis
    unfolding vegeta_generate_def assms bindA_simps(2) not_True_eq_False if_False
    by (rule draws_get [where g = "tool_entry ''vegeta''" and D = "\<lambda>dir ds. dir = None \<or> vegeta_drawable summary ds"
        and Q = "\<lambda>dir ds. if dir = None then {} else vegeta_images ds"])
qed

text \<open>C35. Vegeta plots. \<^verbatim>\<open>generate\<close> of \<^verbatim>\<open>vegeta_plots.py\<close> does nothing when the summary has no vegeta entry
  or \<^verbatim>\<open>raw/vegeta\<close> is missing. Otherwise it returns exactly when the summary has the four percentile
  means and every loaded run has a numeric mean latency; it has then drawn the percentile curve, the
  box plot if there is a run, and the histogram if some histogram line was read. Whether it returns
  or raises, it changes nothing but images.\<close>

theorem vegeta_generate_images:
  assumes "summary = JObj d" and "vegeta_generate summary ds = (r, t)"
  defines "active \<equiv> dict_get d ''vegeta'' \<noteq> None \<and> tool_entry ''vegeta'' ds \<noteq> None"
  shows "no_plots t = no_plots ds \<and> (r = Inr () \<longleftrightarrow> \<not> active \<or> vegeta_drawable summary ds) \<and>
    (r = Inr () \<longrightarrow> image_paths t = image_paths ds \<union> (if active then vegeta_images ds else {}))"
proof (cases "dict_get d ''vegeta'' = None")
  case True
  then have "vegeta_generate summary = returnA ()"
    using assms(1) by (simp add: vegeta_generate_def)
  then show ?thesis using assms True by (simp add: returnA_def)
next
  case False
  then have "contains summary ''vegeta'' = Inr True" using assms(1) by simp
  note d = draws_vegeta_generate [OF this]
  have "active \<longleftrightarrow> tool_entry ''vegeta'' ds \<noteq> None" using False by (simp add: active_def)
  then show ?thesis
    using draws_rest [OF d assms(2)] draws_returns [OF d assms(2)] draws_images [OF d] assms(2) by auto
qed

theorem vegeta_generate_images_witness:
  "fst (vegeta_generate example_summary example_dataset) = Inr () \<and>
   image_paths (snd (vegeta_generate example_summary example_dataset)) =
     {[''vegeta'', ''latency-boxplot.png''], [''vegeta'', ''latency-percentiles.png''], [''vegeta'', ''latency-histogram.png'']}"
proof -
  have runs: "vegeta_load_runs (tool_runs ''vegeta'' example_dataset) = Inr [JObj [(''vegeta'', example_vegeta),
      (''pidstat'', JList [JObj [(''cpu'', JNum (PInt 12)), (''rss'', JNum (PInt 2048))],
                          JObj [(''cpu'', JNum (PInt 20)), (''rss'', JNum (PInt 4096))]])]]"
    by code_simp
  have agg: "aggregate_histograms (tool_runs ''vegeta'' example_dataset) = [(''[0s, 2ms]'', 7), (''[2ms, 4ms]'', 3)]"
    by code_simp
  have "has_percentiles example_summary"
    unfolding has_percentiles_def
    by (intro exI [of _ "[PInt 2, PInt 3, PInt 4, PInt 9]"] exI)
      (auto simp: example_summary_def example_stats_def percentile_keys_def)
  moreover have "image_paths example_dataset = {}" "tool_entry ''vegeta'' example_dataset \<noteq> None" by code_simp+
  ultimately show ?thesis
    using vegeta_generate_images [OF example_summary_def surjective_pairing, of example_dataset]
    by (simp add: vegeta_drawable_def vegeta_images_def runs agg numeric_iff example_vegeta_def if_runs_def insert_commute
        example_summary_def [symmetric])
qed

end
