(* ===== verification/SystemPlots.thy ===== *)
theory SystemPlots
  imports WrkPlots
begin

text \<open>
  \<^verbatim>\<open>docs/benchmarking/analysis/system_plots.py\<close>: time series and distributions of the \<^verbatim>\<open>pidstat\<close> and
  \<^verbatim>\<open>vmstat\<close> samples of every tool found under \<^verbatim>\<open>raw/\<close>. Runs of different length are aligned by repeating
  the last sample (\<open>pad\<close>) and averaged sample by sample (\<open>aggregate\<close>). The module has its own copies of
  \<^verbatim>\<open>_annotate_boxplot\<close> and \<^verbatim>\<open>_save\<close>, equal to those of \<^verbatim>\<open>wrk_plots.py\<close> statement for statement.
\<close>

section \<open>Utilities\<close>

definition sys_annotate_boxplot :: "figure \<Rightarrow> pynum list \<Rightarrow> string \<Rightarrow> figure result" where
  "sys_annotate_boxplot = annotate_boxplot"

definition sys_save :: "figure \<Rightarrow> string list \<Rightarrow> (dataset, unit) action" where
  "sys_save = save"

definition sys_load_runs :: "tool_dir \<Rightarrow> json list result" where
  "sys_load_runs runs = load_parsed runs"

definition pad :: "pynum list \<Rightarrow> nat \<Rightarrow> pynum list" where
  "pad series n =
     (if series = [] then replicate n (PFloat 0)
      else if n \<le> length series then take n series
      else series @ replicate (n - length series) (last series))"

definition longest :: "'a list list \<Rightarrow> nat" where
  "longest ss = foldr (\<lambda>s m. max (length s) m) ss 0"

text \<open>One iteration of the loop over the sample numbers.\<close>

definition aggregate_at :: "pynum list list \<Rightarrow> nat \<Rightarrow> (pynum \<times> pynum \<times> pynum) result" where
  "aggregate_at padded i =
     bindE (mapE (\<lambda>run. py_index run (int i)) padded) (\<lambda>values.
     bindE (stat_mean values) (\<lambda>avg.
     bindE (py_min values) (\<lambda>lo.
     bindE (py_max values) (\<lambda>hi. Inr (avg, lo, hi)))))"

definition aggregate :: "pynum list list \<Rightarrow> (pynum list \<times> pynum list \<times> pynum list) result" where
  "aggregate series_list =
     (if series_list = [] then Inr ([], [], []) else
      let max_len = longest series_list;
          padded = map (\<lambda>s. pad s max_len) series_list
      in bindE (mapE (aggregate_at padded) [0..<max_len]) (\<lambda>rows.
         Inr (map fst rows, map (fst \<circ> snd) rows, map (snd \<circ> snd) rows)))"

text \<open>\<^verbatim>\<open>xs.index(v)\<close> for a value that occurs in \<^verbatim>\<open>xs\<close>: numbers are compared by value.\<close>

definition index_of :: "pynum \<Rightarrow> pynum list \<Rightarrow> nat" where
  "index_of v xs = length (takeWhile (\<lambda>x. val x \<noteq> val v) xs)"

definition point :: "nat \<Rightarrow> pynum \<Rightarrow> int \<Rightarrow> string \<Rightarrow> call" where
  "point idx y off label = Call ''annotate'' [AStr label, AList [ANum (PInt (int idx)), ANum y]]
     [(''xytext'', nums [PInt 0, PInt off]), (''textcoords'', AStr ''offset points''),
      (''ha'', AStr ''center''), (''fontsize'', ANum (PInt 8))]"

definition band_calls :: "pynum list \<Rightarrow> pynum \<Rightarrow> pynum \<Rightarrow> string \<Rightarrow> string \<Rightarrow> figure" where
  "band_calls avgs peak low ttl ylabel =
     (let peak_idx = index_of peak avgs; low_idx = index_of low avgs in
     [Call ''subplots'' [] [(''figsize'', nums [PInt 10, PInt 5])],
      Call ''plot'' [nums (map (PInt \<circ> int) [0..<length avgs]), nums avgs] [(''linewidth'', ANum (PInt 2))],
      Call ''scatter'' [nums [PInt (int peak_idx)], nums [peak]] [(''s'', ANum (PInt 35))],
      Call ''scatter'' [nums [PInt (int low_idx)], nums [low]] [(''s'', ANum (PInt 35))],
      point peak_idx peak 10 (''Max '' @ fmt 1 peak),
      point low_idx low (- 15) (''Min '' @ fmt 1 low),
      Call ''set_title'' [AStr ttl] [],
      Call ''set_xlabel'' [AStr ''Sample''] [],
      Call ''set_ylabel'' [AStr ylabel] [],
      Call ''grid'' [] [(''axis'', AStr ''y''), (''alpha'', ANum (flit (3 / 10)))]])"

text \<open>The minimum and maximum series are passed and not used, as in the source.\<close>

definition plot_band :: "pynum list \<Rightarrow> pynum list \<Rightarrow> pynum list \<Rightarrow> string \<Rightarrow> string \<Rightarrow> string list \<Rightarrow> (dataset, unit) action" where
  "plot_band avgs mins maxs ttl ylabel path =
     (if avgs = [] then returnA () else
      bindA (liftA (py_max avgs)) (\<lambda>peak.
      bindA (liftA (py_min avgs)) (\<lambda>low.
      sys_save (band_calls avgs peak low ttl ylabel) path)))"

definition sys_boxplot_calls :: "pynum list \<Rightarrow> string \<Rightarrow> string \<Rightarrow> figure" where
  "sys_boxplot_calls values ttl ylabel =
     [Call ''subplots'' [] [(''figsize'', nums [PInt 6, PInt 5])],
      Call ''boxplot'' [nums values] [(''showmeans'', ABool True), (''patch_artist'', ABool True)],
      Call ''set_title'' [AStr ttl] [],
      Call ''set_ylabel'' [AStr ylabel] [],
      Call ''grid'' [] [(''axis'', AStr ''y''), (''alpha'', ANum (flit (3 / 10)))]]"

definition sys_boxplot :: "pynum list \<Rightarrow> string \<Rightarrow> string \<Rightarrow> string list \<Rightarrow> string \<Rightarrow> (dataset, unit) action" where
  "sys_boxplot values ttl ylabel path unit =
     (if values = [] then returnA () else
      bindA (liftA (sys_annotate_boxplot (sys_boxplot_calls values ttl ylabel) values unit)) (\<lambda>fig.
      sys_save fig path))"

section \<open>Samples\<close>

text \<open>
  \<^verbatim>\<open>[f(sample) for sample in run.get(source, [])]\<close> for every run, keeping the non-empty lists. The two
  expressions \<^verbatim>\<open>f\<close> of the source are \<^verbatim>\<open>sample[key]\<close> and \<^verbatim>\<open>sample["rss"] / 1024\<close>.
\<close>

definition run_samples :: "(json \<Rightarrow> json result) \<Rightarrow> string \<Rightarrow> json \<Rightarrow> json list result" where
  "run_samples f source run =
     bindE (dict_get_default run source (JList [])) (\<lambda>j.
     bindE (iter_json j) (mapE f))"

definition collect_series :: "(json \<Rightarrow> json result) \<Rightarrow> string \<Rightarrow> json list \<Rightarrow> json list list result" where
  "collect_series f source runs =
     bindE (mapE (run_samples f source) runs) (\<lambda>ss. Inr (filter (\<lambda>s. s \<noteq> []) ss))"

definition field :: "string \<Rightarrow> json \<Rightarrow> json result" where
  "field key sample = getitem sample key"

definition rss_mb :: "json \<Rightarrow> json result" where
  "rss_mb sample =
     bindE (getitem sample ''rss'') (\<lambda>j.
     bindE (as_num j) (\<lambda>n.
     bindE (num_truediv n (PInt 1024)) (\<lambda>q. Inr (JNum q))))"

text \<open>The two bodies the plotting functions share.\<close>

definition timeseries_of :: "json list list \<Rightarrow> string \<Rightarrow> string \<Rightarrow> string list \<Rightarrow> (dataset, unit) action" where
  "timeseries_of js ttl ylabel path =
     (if js = [] then returnA () else
      bindA (liftA (mapE (mapE as_num) js)) (\<lambda>ss.
      bindA (liftA (aggregate ss)) (\<lambda>(avgs, mins, maxs).
      plot_band avgs mins maxs ttl ylabel path)))"

definition samples :: "(json \<Rightarrow> json result) \<Rightarrow> string \<Rightarrow> tool_dir \<Rightarrow> json list list result" where
  "samples f source dir = bindE (sys_load_runs dir) (collect_series f source)"

definition pidstat_timeseries :: "(json \<Rightarrow> json result) \<Rightarrow> string \<Rightarrow> string \<Rightarrow> string \<Rightarrow> string list \<Rightarrow> (dataset, unit) action" where
  "pidstat_timeseries f ttl ylabel tool path =
     bindA (getA (tool_runs tool)) (\<lambda>dir.
     bindA (liftA (samples f ''pidstat'' dir)) (\<lambda>js.
     timeseries_of js ttl ylabel path))"

definition pidstat_distribution :: "(json \<Rightarrow> json result) \<Rightarrow> string \<Rightarrow> string \<Rightarrow> string \<Rightarrow> string \<Rightarrow> string list \<Rightarrow> (dataset, unit) action" where
  "pidstat_distribution f ttl ylabel unit tool path =
     bindA (getA (tool_runs tool)) (\<lambda>dir.
     bindA (liftA (samples f ''pidstat'' dir)) (\<lambda>js.
     bindA (liftA (mapE as_num (concat js))) (\<lambda>values.
     sys_boxplot values ttl ylabel path unit)))"

section \<open>CPU and memory\<close>

definition cpu_timeseries :: "string \<Rightarrow> string list \<Rightarrow> (dataset, unit) action" where
  "cpu_timeseries = pidstat_timeseries (field ''cpu'') ''CPU Utilisation Over Time'' ''CPU %''"

definition cpu_distribution :: "string \<Rightarrow> string list \<Rightarrow> (dataset, unit) action" where
  "cpu_distribution = pidstat_distribution (field ''cpu'') ''CPU Utilisation Distribution'' ''CPU %'' ''%''"

definition memory_timeseries :: "string \<Rightarrow> string list \<Rightarrow> (dataset, unit) action" where
  "memory_timeseries = pidstat_timeseries rss_mb ''Resident Memory Over Time'' ''RSS (MB)''"

definition memory_distribution :: "string \<Rightarrow> string list \<Rightarrow> (dataset, unit) action" where
  "memory_distribution = pidstat_distribution rss_mb ''Resident Memory Distribution'' ''RSS (MB)'' '' MB''"

section \<open>vmstat\<close>

definition vmstat_series :: "tool_dir \<Rightarrow> string \<Rightarrow> json list list result" where
  "vmstat_series dir key = samples (field key) ''vmstat'' dir"

definition vmstat_timeseries :: "string \<Rightarrow> string \<Rightarrow> string \<Rightarrow> string \<Rightarrow> string list \<Rightarrow> (dataset, unit) action" where
  "vmstat_timeseries key ttl ylabel tool path =
     bindA (getA (tool_runs tool)) (\<lambda>dir.
     bindA (liftA (vmstat_series dir key)) (\<lambda>js.
     timeseries_of js ttl ylabel path))"

definition cpu_idle_timeseries :: "string \<Rightarrow> string list \<Rightarrow> (dataset, unit) action" where
  "cpu_idle_timeseries = vmstat_timeseries ''cpu_idle'' ''CPU Idle Time'' ''Idle %''"

definition run_queue_timeseries :: "string \<Rightarrow> string list \<Rightarrow> (dataset, unit) action" where
  "run_queue_timeseries = vmstat_timeseries ''r'' ''Run Queue Length'' ''Processes''"

definition context_switch_timeseries :: "string \<Rightarrow> string list \<Rightarrow> (dataset, unit) action" where
  "context_switch_timeseries = vmstat_timeseries ''context_switches'' ''Context Switches'' ''Switches / second''"

definition interrupts_timeseries :: "string \<Rightarrow> string list \<Rightarrow> (dataset, unit) action" where
  "interrupts_timeseries = vmstat_timeseries ''interrupts'' ''Interrupt Rate'' ''Interrupts / second''"

definition cpu_user_timeseries :: "string \<Rightarrow> string list \<Rightarrow> (dataset, unit) action" where
  "cpu_user_timeseries = vmstat_timeseries ''cpu_user'' ''CPU User Time'' ''User %''"

definition cpu_system_timeseries :: "string \<Rightarrow> string list \<Rightarrow> (dataset, unit) action" where
  "cpu_system_timeseries = vmstat_timeseries ''cpu_system'' ''CPU System Time'' ''System %''"

definition cpu_wait_timeseries :: "string \<Rightarrow> string list \<Rightarrow> (dataset, unit) action" where
  "cpu_wait_timeseries = vmstat_timeseries ''cpu_wait'' ''CPU I/O Wait'' ''Wait %''"

definition disk_read_timeseries :: "string \<Rightarrow> string list \<Rightarrow> (dataset, unit) action" where
  "disk_read_timeseries = vmstat_timeseries ''bi'' ''Disk Read'' ''Blocks / second''"

definition disk_write_timeseries :: "string \<Rightarrow> string list \<Rightarrow> (dataset, unit) action" where
  "disk_write_timeseries = vmstat_timeseries ''bo'' ''Disk Write'' ''Blocks / second''"

section \<open>All tools\<close>

text \<open>The thirteen calls of \<^verbatim>\<open>_generate_for_tool\<close>, in order, with the file each one writes.\<close>

definition tool_plots :: "((string \<Rightarrow> string list \<Rightarrow> (dataset, unit) action) \<times> string) list" where
  "tool_plots =
     [(cpu_timeseries, ''cpu-timeseries.png''),
      (cpu_distribution, ''cpu-distribution.png''),
      (memory_timeseries, ''memory-timeseries.png''),
      (memory_distribution, ''memory-distribution.png''),
      (cpu_idle_timeseries, ''cpu-idle-timeseries.png''),
      (run_queue_timeseries, ''run-queue-timeseries.png''),
      (context_switch_timeseries, ''context-switch-timeseries.png''),
      (interrupts_timeseries, ''interrupts-timeseries.png''),
      (cpu_user_timeseries, ''cpu-user-timeseries.png''),
      (cpu_system_timeseries, ''cpu-system-timeseries.png''),
      (cpu_wait_timeseries, ''cpu-wait-timeseries.png''),
      (disk_read_timeseries, ''disk-read-timeseries.png''),
      (disk_write_timeseries, ''disk-write-timeseries.png'')]"

definition generate_for_tool :: "string \<Rightarrow> (dataset, unit) action" where
  "generate_for_tool tool =
     bindA (getA (tool_entry tool)) (\<lambda>dir.
     if dir = None then returnA () else
     forA tool_plots (\<lambda>(plot, file). plot tool [''system'', tool, file]))"

fun is_dir :: "'a node \<Rightarrow> bool" where
  "is_dir File = False"
| "is_dir (Dir _) = True"

definition sys_generate :: "(dataset, unit) action" where
  "sys_generate =
     bindA (getA raw) (\<lambda>es. case es of
       None \<Rightarrow> returnA ()
     | Some entries \<Rightarrow> forA (by_name entries) (\<lambda>(tool, entry).
         if \<not> is_dir entry then returnA () else generate_for_tool tool))"

section \<open>Aligning and averaging the runs\<close>

lemma length_pad [simp]: "length (pad s n) = n"
  by (simp add: pad_def)

lemma pad_nth:
  assumes "i < n"
  shows "pad s n ! i = (if s = [] then PFloat 0 else s ! min i (length s - 1))"
proof (cases "s = []")
  case False
  then have l: "last s = s ! (length s - 1)" "0 < length s" by (simp_all add: last_conv_nth)
  show ?thesis
  proof (cases "i < length s")
    case True
    then have "min i (length s - 1) = i" by auto
    with False True assms show ?thesis by (simp add: pad_def nth_append)
  next
    case ge: False
    then have "min i (length s - 1) = length s - 1" by auto
    with False ge assms l(1) show ?thesis by (simp add: pad_def nth_append)
  qed
qed (simp add: pad_def assms)

lemma longest_ge: "s \<in> set ss \<Longrightarrow> length s \<le> longest ss"
  by (induction ss) (auto simp: longest_def)

lemma longest_attained: "ss \<noteq> [] \<Longrightarrow> \<exists>s \<in> set ss. length s = longest ss"
proof (induction ss)
  case (Cons s ss)
  show ?case
  proof (cases "ss = []")
    case False
    with Cons show ?thesis by (auto simp: longest_def max_def)
  qed (simp add: longest_def)
qed simp

lemma longest_Max: "ss \<noteq> [] \<Longrightarrow> longest ss = Max (length ` set ss)"
  using longest_attained [of ss] by (intro Max_eqI [symmetric]) (auto dest: longest_ge intro: rev_image_eqI)

text \<open>The samples that are averaged at one position: those of the runs, the last one for a run that
  is too short, zero for a run without samples.\<close>

definition column :: "pynum list list \<Rightarrow> nat \<Rightarrow> pynum list" where
  "column ss i = map (\<lambda>s. if s = [] then PFloat 0 else s ! min i (length s - 1)) ss"

lemma aggregate_at_column:
  assumes "ss \<noteq> []" and "i < n"
  obtains avg lo hi where "aggregate_at (map (\<lambda>s. pad s n) ss) i = Inr (avg, lo, hi)"
    and "stat_mean (column ss i) = Inr avg" and "py_min (column ss i) = Inr lo" and "py_max (column ss i) = Inr hi"
proof -
  have "mapE (\<lambda>run. py_index run (int i)) (map (\<lambda>s. pad s n) ss) = Inr (map (\<lambda>r. r ! i) (map (\<lambda>s. pad s n) ss))"
    using assms(2) by (intro mapE_total) (auto simp: py_index_in)
  also have "map (\<lambda>r. r ! i) (map (\<lambda>s. pad s n) ss) = column ss i"
    using assms(2) by (simp add: column_def pad_nth)
  finally have col: "mapE (\<lambda>run. py_index run (int i)) (map (\<lambda>s. pad s n) ss) = Inr (column ss i)" .
  have "column ss i \<noteq> []" using assms(1) by (simp add: column_def)
  then obtain avg lo hi where "stat_mean (column ss i) = Inr avg" "py_min (column ss i) = Inr lo" "py_max (column ss i) = Inr hi"
    using stat_mean_total py_min_val py_max_val by metis
  with col show thesis by (intro that [of avg lo hi]) (simp_all add: aggregate_at_def)
qed

lemma aggregate_columns:
  assumes "ss \<noteq> []"
  obtains rows where "aggregate ss = Inr (map fst rows, map (fst \<circ> snd) rows, map (snd \<circ> snd) rows)"
    and "length rows = longest ss"
    and "\<And>i. i < longest ss \<Longrightarrow> stat_mean (column ss i) = Inr (fst (rows ! i)) \<and>
      py_min (column ss i) = Inr (fst (snd (rows ! i))) \<and> py_max (column ss i) = Inr (snd (snd (rows ! i)))"
proof -
  let ?n = "longest ss" and ?f = "aggregate_at (map (\<lambda>s. pad s (longest ss)) ss)"
  have row: "?f i = Inr (projr (?f i)) \<and> stat_mean (column ss i) = Inr (fst (projr (?f i))) \<and>
      py_min (column ss i) = Inr (fst (snd (projr (?f i)))) \<and> py_max (column ss i) = Inr (snd (snd (projr (?f i))))"
    if "i < ?n" for i
    using aggregate_at_column [OF assms that] by (metis fst_conv snd_conv sum.sel(2))
  let ?rows = "map (\<lambda>i. projr (?f i)) [0..<?n]"
  have "mapE ?f [0..<?n] = Inr ?rows" using row by (intro mapE_total) simp
  then have "aggregate ss = Inr (map fst ?rows, map (fst \<circ> snd) ?rows, map (snd \<circ> snd) ?rows)"
    using assms by (simp add: aggregate_def Let_def)
  then show thesis by (rule that) (use row in simp_all)
qed

text \<open>C13. Averaging runs of different length. \<^verbatim>\<open>_aggregate\<close> never raises on numbers, never indexes out of
  range, and returns three series as long as the longest run; at every position they are the mean,
  the minimum and the maximum of the runs there, a run that has ended standing at its last sample
  (an empty one at zero), and the mean lies between the other two.\<close>

theorem aggregate_pointwise:
  assumes "ss \<noteq> []" and "\<And>s x. s \<in> set ss \<Longrightarrow> x \<in> set s \<Longrightarrow> num_ok x"
  shows "\<exists>avgs mins maxs. aggregate ss = Inr (avgs, mins, maxs) \<and>
    length avgs = Max (length ` set ss) \<and> length mins = length avgs \<and> length maxs = length avgs \<and>
    (\<forall>i < length avgs. stat_mean (column ss i) = Inr (avgs ! i) \<and> py_min (column ss i) = Inr (mins ! i) \<and>
       py_max (column ss i) = Inr (maxs ! i) \<and> val (mins ! i) \<le> val (avgs ! i) \<and> val (avgs ! i) \<le> val (maxs ! i))"
proof -
  obtain rows where rows: "aggregate ss = Inr (map fst rows, map (fst \<circ> snd) rows, map (snd \<circ> snd) rows)"
    "length rows = longest ss"
    and at: "\<And>i. i < longest ss \<Longrightarrow> stat_mean (column ss i) = Inr (fst (rows ! i)) \<and>
      py_min (column ss i) = Inr (fst (snd (rows ! i))) \<and> py_max (column ss i) = Inr (snd (snd (rows ! i)))"
    using aggregate_columns [OF assms(1)] by blast
  have elem: "s ! min i (length s - 1) \<in> set s" if "s \<noteq> []" for s :: "pynum list" and i
    using that by (intro nth_mem) (simp add: min.strict_coboundedI2)
  have ok: "num_ok x" if "x \<in> set (column ss i)" for x i
    using that assms(2) [OF _ elem] by (auto simp: column_def)
  have "val (fst (snd (rows ! i))) \<le> val (fst (rows ! i)) \<and> val (fst (rows ! i)) \<le> val (snd (snd (rows ! i)))"
    if "i < longest ss" for i
    using at [OF that] stat_mean_bounds ok by blast
  with rows at show ?thesis by (auto simp: longest_Max [OF assms(1)])
qed

theorem aggregate_pointwise_witness:
  "aggregate [[PInt 4, PInt 8], [PInt 2]] = Inr ([PInt 3, PInt 5], [PInt 2, PInt 2], [PInt 4, PInt 8]) \<and>
   (\<exists>avgs mins maxs. aggregate [[PInt 4, PInt 8], [PInt 2]] = Inr (avgs, mins, maxs) \<and> length avgs = 2)"
proof
  show "aggregate [[PInt 4, PInt 8], [PInt 2]] = Inr ([PInt 3, PInt 5], [PInt 2, PInt 2], [PInt 4, PInt 8])"
    by code_simp
  show "\<exists>avgs mins maxs. aggregate [[PInt 4, PInt 8], [PInt 2]] = Inr (avgs, mins, maxs) \<and> length avgs = 2"
    using aggregate_pointwise [of "[[PInt 4, PInt 8], [PInt 2]]"] by (fastforce simp: num_ok_PInt)
qed

section \<open>The marked extremes\<close>

lemma index_of_first:
  assumes "v \<in> set xs"
  shows "index_of v xs < length xs \<and> val (xs ! index_of v xs) = val v \<and> (\<forall>j < index_of v xs. val (xs ! j) \<noteq> val v)"
  using assms
proof (induction xs)
  case (Cons x xs)
  then show ?case
    by (auto simp: index_of_def nth_Cons' less_Suc_eq_0_disj)
qed simp

text \<open>The extremes of a time series. A non-empty series is drawn in one image whose two markers are
  put on the first sample that attains the largest value and the first that attains the smallest;
  the minimum and maximum series handed over are not used.\<close>

theorem plot_band_marks_first_extremes:
  assumes "avgs \<noteq> []"
  shows "\<exists>peak low. plot_band avgs mins maxs ttl ylabel path ds = sys_save (band_calls avgs peak low ttl ylabel) path ds \<and>
    val peak = Max (val ` set avgs) \<and> val low = Min (val ` set avgs) \<and>
    index_of peak avgs < length avgs \<and> val (avgs ! index_of peak avgs) = val peak \<and>
    (\<forall>j < index_of peak avgs. val (avgs ! j) < val peak) \<and>
    index_of low avgs < length avgs \<and> val (avgs ! index_of low avgs) = val low \<and>
    (\<forall>j < index_of low avgs. val low < val (avgs ! j))"
proof -
  obtain peak low where ext: "py_max avgs = Inr peak" "py_min avgs = Inr low"
    and v: "val peak = Max (val ` set avgs)" "val low = Min (val ` set avgs)"
    using py_max_val [OF assms] py_min_val [OF assms] by blast
  note hi = py_maxD [OF ext(1)] and lo = py_minD [OF ext(2)]
  have "val (avgs ! j) < val peak" if "j < index_of peak avgs" for j
  proof -
    have "j < length avgs" "val (avgs ! j) \<noteq> val peak"
      using index_of_first [of peak avgs] hi that by auto
    then show ?thesis using hi by (simp add: order.strict_iff_order)
  qed
  moreover have "val low < val (avgs ! j)" if "j < index_of low avgs" for j
  proof -
    have "j < length avgs" "val (avgs ! j) \<noteq> val low"
      using index_of_first [of low avgs] lo that by auto
    then show ?thesis using lo by (metis nth_mem order.strict_iff_order)
  qed
  moreover have "plot_band avgs mins maxs ttl ylabel path ds = sys_save (band_calls avgs peak low ttl ylabel) path ds"
    using assms by (simp add: plot_band_def ext)
  ultimately show ?thesis
    using v index_of_first [of peak avgs] index_of_first [of low avgs] hi lo by blast
qed

theorem plot_band_marks_first_extremes_witness:
  "\<exists>peak low. plot_band [PInt 3, PInt 7, PInt 7, PInt 1] [] [] ''t'' ''y'' [''x.png''] example_dataset =
     sys_save (band_calls [PInt 3, PInt 7, PInt 7, PInt 1] peak low ''t'' ''y'') [''x.png''] example_dataset \<and>
   val peak = 7 \<and> val low = 1"
  using plot_band_marks_first_extremes [of "[PInt 3, PInt 7, PInt 7, PInt 1]" "[]" "[]" "''t''" "''y''" "[''x.png'']" example_dataset]
  by auto

section \<open>Which images are drawn\<close>

lemma aggregate_nonempty:
  assumes "ss \<noteq> []" and "\<And>s. s \<in> set ss \<Longrightarrow> s \<noteq> []"
  shows "\<exists>avgs mins maxs. aggregate ss = Inr (avgs, mins, maxs) \<and> avgs \<noteq> []"
proof -
  obtain rows where rows: "aggregate ss = Inr (map fst rows, map (fst \<circ> snd) rows, map (snd \<circ> snd) rows)"
    "length rows = longest ss"
    using aggregate_columns [OF assms(1)] by blast
  obtain s where "s \<in> set ss" using assms(1) by (cases ss) auto
  with assms(2) longest_ge [of s ss] have "0 < longest ss" by (metis length_greater_0_conv less_le_trans)
  with rows show ?thesis by auto
qed

lemma draws_plot_band:
  "avgs \<noteq> [] \<Longrightarrow> draws (plot_band avgs mins maxs ttl ylabel path) (\<lambda>_. True) (\<lambda>_. {path})"
proof -
  assume ne: "avgs \<noteq> []"
  then obtain peak low where "py_max avgs = Inr peak" "py_min avgs = Inr low"
    using py_max_val py_min_val by blast
  with ne show ?thesis by (simp add: plot_band_def sys_save_def draws_save)
qed

lemma draws_sys_boxplot:
  "draws (sys_boxplot values ttl ylabel path unit) (\<lambda>_. True) (\<lambda>_. if values = [] then {} else {path})"
proof (cases "values = []")
  case False
  obtain fig where fig: "annotate_boxplot (sys_boxplot_calls values ttl ylabel) values unit = Inr fig"
    using annotate_total by blast
  show ?thesis using False by (simp add: sys_boxplot_def sys_annotate_boxplot_def sys_save_def fig draws_save)
qed (simp add: sys_boxplot_def draws_return)

text \<open>All collected samples are numbers.\<close>

definition all_numbers :: "json list list \<Rightarrow> bool" where
  "all_numbers js \<longleftrightarrow> (\<forall>s \<in> set js. \<forall>j \<in> set s. \<exists>n. j = JNum n)"

lemma mapE_as_num_ex: "(\<exists>vs. mapE as_num s = Inr vs) \<longleftrightarrow> (\<forall>j \<in> set s. \<exists>n. j = JNum n)"
  by (induction s) (auto simp: bindE_Inr_iff)

lemma mapE2_as_num_ex: "(\<exists>ss. mapE (mapE as_num) js = Inr ss) \<longleftrightarrow> all_numbers js"
  by (induction js) (auto simp: all_numbers_def bindE_Inr_iff mapE_as_num_ex [symmetric])

lemma collected_nonempty: "samples f source dir = Inr js \<Longrightarrow> s \<in> set js \<Longrightarrow> s \<noteq> []"
  by (auto simp: samples_def collect_series_def elim!: bindE_InrE)

lemma draws_timeseries_of:
  assumes "\<And>s. s \<in> set js \<Longrightarrow> s \<noteq> []"
  shows "draws (timeseries_of js ttl ylabel path) (\<lambda>_. all_numbers js) (\<lambda>_. if js = [] then {} else {path})"
proof (cases "js = []")
  case True
  then show ?thesis by (simp add: timeseries_of_def draws_return all_numbers_def)
next
  case False
  have plot: "draws (bindA (liftA (aggregate ss)) (\<lambda>(avgs, mins, maxs). plot_band avgs mins maxs ttl ylabel path))
      (\<lambda>_. True) (\<lambda>_. {path})" if ss: "mapE (mapE as_num) js = Inr ss" for ss
  proof -
    have len: "length ss = length js" and at: "\<And>i. i < length js \<Longrightarrow> mapE as_num (js ! i) = Inr (ss ! i)"
      using ss by (auto simp: mapE_Inr_iff)
    have "s \<noteq> []" if "s \<in> set ss" for s
    proof -
      obtain i where i: "i < length js" "s = ss ! i" using \<open>s \<in> set ss\<close> len by (metis in_set_conv_nth)
      show ?thesis using mapE_length [OF at [OF i(1)]] assms [OF nth_mem [OF i(1)]] i(2) by auto
    qed
    moreover have "ss \<noteq> []" using False len by auto
    ultimately obtain avgs mins maxs where agg: "aggregate ss = Inr (avgs, mins, maxs)" "avgs \<noteq> []"
      using aggregate_nonempty by blast
    show ?thesis using draws_plot_band [OF agg(2)] by (simp add: agg(1))
  qed
  have "draws (bindA (liftA (mapE (mapE as_num) js)) (\<lambda>ss. bindA (liftA (aggregate ss))
      (\<lambda>(avgs, mins, maxs). plot_band avgs mins maxs ttl ylabel path)))
      (\<lambda>_. all_numbers js) (\<lambda>_. {path})"
    by (rule draws_cong, rule draws_lift, rule plot) (simp_all add: mapE2_as_num_ex)
  with False show ?thesis by (simp add: timeseries_of_def)
qed

text \<open>What one plotting function needs of a tool, and the image it adds.\<close>

type_synonym series = "(json \<Rightarrow> json result) \<times> string \<times> string"

definition drawable :: "string \<Rightarrow> series \<Rightarrow> dataset \<Rightarrow> bool" where
  "drawable tool = (\<lambda>(f, source, file) ds.
     \<exists>js. samples f source (tool_runs tool ds) = Inr js \<and> all_numbers js)"

definition image :: "string \<Rightarrow> series \<Rightarrow> dataset \<Rightarrow> string list set" where
  "image tool = (\<lambda>(f, source, file) ds.
     if samples f source (tool_runs tool ds) = Inr [] then {} else {[''system'', tool, file]})"

definition all_series :: "series list" where
  "all_series =
     [(field ''cpu'', ''pidstat'', ''cpu-timeseries.png''), (field ''cpu'', ''pidstat'', ''cpu-distribution.png''),
      (rss_mb, ''pidstat'', ''memory-timeseries.png''), (rss_mb, ''pidstat'', ''memory-distribution.png''),
      (field ''cpu_idle'', ''vmstat'', ''cpu-idle-timeseries.png''), (field ''r'', ''vmstat'', ''run-queue-timeseries.png''),
      (field ''context_switches'', ''vmstat'', ''context-switch-timeseries.png''),
      (field ''interrupts'', ''vmstat'', ''interrupts-timeseries.png''),
      (field ''cpu_user'', ''vmstat'', ''cpu-user-timeseries.png''),
      (field ''cpu_system'', ''vmstat'', ''cpu-system-timeseries.png''),
      (field ''cpu_wait'', ''vmstat'', ''cpu-wait-timeseries.png''),
      (field ''bi'', ''vmstat'', ''disk-read-timeseries.png''), (field ''bo'', ''vmstat'', ''disk-write-timeseries.png'')]"

lemma plots_free_series [simp]: "plots_free (drawable tool s)" "plots_free (image tool s)"
proof -
  obtain f source name where s: "s = (f, source, name)" by (cases s)
  note free = plots_free_comp [OF plots_free_raw(3)]
  show "plots_free (drawable tool s)"
    unfolding drawable_def s prod.case by (rule free [where f = "\<lambda>dir. \<exists>js. samples f source dir = Inr js \<and> all_numbers js"])
  show "plots_free (image tool s)"
    unfolding image_def s prod.case by (rule free [where f = "\<lambda>dir. if samples f source dir = Inr [] then {} else {[''system'', tool, name]}"])
qed

lemma draws_series:
  assumes "\<And>js. (\<And>s. s \<in> set js \<Longrightarrow> s \<noteq> []) \<Longrightarrow>
    draws (body js) (\<lambda>_. all_numbers js) (\<lambda>_. if js = [] then {} else {[''system'', tool, file]})"
  shows "draws (bindA (getA (tool_runs tool)) (\<lambda>dir. bindA (liftA (samples f source dir)) body))
    (drawable tool (f, source, file)) (image tool (f, source, file))"
proof -
  have "draws (bindA (liftA (samples f source dir)) body) (\<lambda>_. \<exists>js. samples f source dir = Inr js \<and> all_numbers js)
      (\<lambda>_. if samples f source dir = Inr [] then {} else {[''system'', tool, file]})" for dir
    by (rule draws_lift, rule draws_cong, rule assms, erule collected_nonempty) auto
  from draws_get [where g = "tool_runs tool" and f = "\<lambda>dir. bindA (liftA (samples f source dir)) body" and D = "\<lambda>dir _. \<exists>js. samples f source dir = Inr js \<and> all_numbers js"
      and Q = "\<lambda>dir _. if samples f source dir = Inr [] then {} else {[''system'', tool, file]}", OF this]
  show ?thesis by (simp add: drawable_def image_def)
qed

lemma draws_pidstat_timeseries:
  "draws (pidstat_timeseries f ttl ylabel tool [''system'', tool, file])
     (drawable tool (f, ''pidstat'', file)) (image tool (f, ''pidstat'', file))"
  unfolding pidstat_timeseries_def by (rule draws_series, rule draws_timeseries_of)

lemma draws_vmstat_timeseries:
  "draws (vmstat_timeseries key ttl ylabel tool [''system'', tool, file])
     (drawable tool (field key, ''vmstat'', file)) (image tool (field key, ''vmstat'', file))"
  unfolding vmstat_timeseries_def vmstat_series_def by (rule draws_series, rule draws_timeseries_of)

lemma draws_pidstat_distribution:
  "draws (pidstat_distribution f ttl ylabel unit tool [''system'', tool, file])
     (drawable tool (f, ''pidstat'', file)) (image tool (f, ''pidstat'', file))"
  unfolding pidstat_distribution_def
proof (rule draws_series)
  fix js :: "json list list" assume ne: "\<And>s. s \<in> set js \<Longrightarrow> s \<noteq> []"
  have "(\<exists>vs. mapE as_num (concat js) = Inr vs) \<longleftrightarrow> all_numbers js"
    by (auto simp: mapE_as_num_ex all_numbers_def)
  moreover have "vs = [] \<longleftrightarrow> js = []" if "mapE as_num (concat js) = Inr vs" for vs
  proof -
    have "concat js = [] \<longleftrightarrow> js = []" using ne by (cases js) auto
    then show ?thesis using mapE_length [OF that] by (metis length_0_conv)
  qed
  ultimately show "draws (bindA (liftA (mapE as_num (concat js))) (\<lambda>values. sys_boxplot values ttl ylabel [''system'', tool, file] unit))
      (\<lambda>_. all_numbers js) (\<lambda>_. if js = [] then {} else {[''system'', tool, file]})"
    by (intro draws_cong [OF draws_lift [OF draws_cong [OF draws_sys_boxplot]]]) auto
qed

lemmas plot_function_defs =
  cpu_timeseries_def cpu_distribution_def memory_timeseries_def memory_distribution_def cpu_idle_timeseries_def
  run_queue_timeseries_def context_switch_timeseries_def interrupts_timeseries_def cpu_user_timeseries_def
  cpu_system_timeseries_def cpu_wait_timeseries_def disk_read_timeseries_def disk_write_timeseries_def

lemma draws_tool_plots:
  "draws (forA tool_plots (\<lambda>(plot, file). plot tool [''system'', tool, file]))
     (\<lambda>ds. \<forall>s \<in> set all_series. drawable tool s ds) (\<lambda>ds. \<Union>s \<in> set all_series. image tool s ds)"
  by (rule draws_for)
    (simp_all add: tool_plots_def all_series_def plot_function_defs draws_pidstat_timeseries
      draws_pidstat_distribution draws_vmstat_timeseries)

definition tool_drawable :: "string \<Rightarrow> dataset \<Rightarrow> bool" where
  "tool_drawable tool ds \<longleftrightarrow> (\<forall>s \<in> set all_series. drawable tool s ds)"

definition tool_images :: "string \<Rightarrow> dataset \<Rightarrow> string list set" where
  "tool_images tool ds = (\<Union>s \<in> set all_series. image tool s ds)"

lemma plots_free_tool [simp]: "plots_free (tool_drawable tool)" "plots_free (tool_images tool)"
  unfolding tool_drawable_def tool_images_def
  using plots_free_all [of "drawable tool" "\<lambda>d. \<forall>s \<in> set all_series. d s"]
    plots_free_all [of "image tool" "\<lambda>q. \<Union>s \<in> set all_series. q s"] by simp_all

lemma draws_generate_for_tool:
  "draws (generate_for_tool tool) (\<lambda>ds. tool_entry tool ds = None \<or> tool_drawable tool ds)
     (\<lambda>ds. if tool_entry tool ds = None then {} else tool_images tool ds)"
proof -
  have "draws (if dir = None then returnA () else forA tool_plots (\<lambda>(plot, file). plot tool [''system'', tool, file]))
      (\<lambda>ds. dir = None \<or> tool_drawable tool ds) (\<lambda>ds. if dir = None then {} else tool_images tool ds)"
    for dir :: "tool_dir node option"
    using draws_tool_plots [of tool] draws_return
    by (cases dir) (simp_all add: tool_drawable_def tool_images_def)
  then show ?thesis unfolding generate_for_tool_def
    by (rule draws_get [where D = "\<lambda>dir ds. dir = None \<or> tool_drawable tool ds"
        and Q = "\<lambda>dir ds. if dir = None then {} else tool_images tool ds"])
qed

text \<open>The tools that are discovered: the directories under \<^verbatim>\<open>raw/\<close>.\<close>

definition tool_dirs :: "dataset \<Rightarrow> string set" where
  "tool_dirs ds = (case raw ds of None \<Rightarrow> {} | Some es \<Rightarrow> fst ` set (filter (is_dir \<circ> snd) es))"

lemma draws_tools:
  fixes es :: "(string \<times> tool_dir node) list"
  shows "draws (forA es (\<lambda>(tool, entry). if \<not> is_dir entry then returnA () else generate_for_tool tool))
     (\<lambda>ds. \<forall>tool \<in> fst ` set (filter (is_dir \<circ> snd) es). tool_entry tool ds = None \<or> tool_drawable tool ds)
     (\<lambda>ds. \<Union>tool \<in> fst ` set (filter (is_dir \<circ> snd) es). if tool_entry tool ds = None then {} else tool_images tool ds)"
proof -
  let ?D = "\<lambda>e ds. is_dir (snd e) \<longrightarrow> tool_entry (fst e) ds = None \<or> tool_drawable (fst e) ds"
    and ?Q = "\<lambda>e ds. if is_dir (snd e) \<and> tool_entry (fst e) ds \<noteq> None then tool_images (fst e) ds else {}"
  have free: "plots_free (?D e)" "plots_free (?Q e)" for e :: "string \<times> tool_dir node"
    using plots_free_comp2 [OF plots_free_raw(2) plots_free_tool(1),
        of "\<lambda>n d. is_dir (snd e) \<longrightarrow> n = None \<or> d" "fst e" "fst e"]
      plots_free_comp2 [OF plots_free_raw(2) plots_free_tool(2),
        of "\<lambda>n q. if is_dir (snd e) \<and> n \<noteq> None then q else {}" "fst e" "fst e"] by simp_all
  have "draws ((\<lambda>(tool, entry). if \<not> is_dir entry then returnA () else generate_for_tool tool) e) (?D e) (?Q e)"
    for e :: "string \<times> tool_dir node"
  proof (cases "is_dir (snd e)")
    case True
    then show ?thesis
      using draws_generate_for_tool [of "fst e"] by (auto simp: case_prod_beta elim!: draws_cong split: if_splits)
  next
    case False
    then show ?thesis using draws_return by (simp add: case_prod_beta)
  qed
  then have "list_all2 (\<lambda>x y. draws ((\<lambda>(tool, entry). if \<not> is_dir entry then returnA () else generate_for_tool tool) x) (?D y) (?Q y)) es es"
    by (simp add: list_all2_same)
  from draws_for [OF this free] show ?thesis
    by (rule draws_cong) (fastforce split: if_splits)+
qed

lemma set_by_name [simp]: "set (by_name es) = set es"
  by (simp add: by_name_def)

text \<open>C33. System plots. \<^verbatim>\<open>generate\<close> of \<^verbatim>\<open>system_plots.py\<close> returns exactly when, for every directory under
  \<^verbatim>\<open>raw/\<close> and each of the thirteen series, all loaded runs have the samples as numbers; it has then
  drawn, below \<^verbatim>\<open>plots/system/<tool>/\<close>, exactly the images of the series with at least one sample.
  Whether it returns or raises, it changes nothing but images.\<close>

theorem sys_generate_images:
  assumes "sys_generate ds = (r, t)"
  shows "no_plots t = no_plots ds \<and> (r = Inr () \<longleftrightarrow> (\<forall>tool \<in> tool_dirs ds. tool_drawable tool ds)) \<and>
    (r = Inr () \<longrightarrow> image_paths t = image_paths ds \<union> (\<Union>tool \<in> tool_dirs ds. tool_images tool ds))"
proof (cases "raw ds")
  case None
  then show ?thesis using assms by (simp add: sys_generate_def tool_dirs_def returnA_def)
next
  case (Some es)
  let ?m = "forA (by_name es) (\<lambda>(tool, entry). if \<not> is_dir entry then returnA () else generate_for_tool tool)"
  have run: "?m ds = (r, t)" using assms Some by (simp add: sys_generate_def)
  have names: "fst ` set (filter (is_dir \<circ> snd) (by_name es)) = tool_dirs ds"
    using Some by (simp add: tool_dirs_def)
  have entry: "tool_entry tool ds \<noteq> None" if "tool \<in> tool_dirs ds" for tool
    using that Some by (auto simp: tool_dirs_def tool_entry_def map_of_eq_None_iff)
  note d = draws_tools [of "by_name es", unfolded names]
  have "r = Inr () \<longleftrightarrow> (\<forall>tool \<in> tool_dirs ds. tool_drawable tool ds)"
    using draws_returns [OF d run] entry by blast
  moreover have "image_paths t = image_paths ds \<union> (\<Union>tool \<in> tool_dirs ds. tool_images tool ds)" if "r = Inr ()"
    using draws_images [OF d run [unfolded that]] entry by simp
  ultimately show ?thesis using draws_rest [OF d run] by blast
qed

lemma example_samples:
  "samples f ''vmstat'' (tool_runs ''wrk'' example_dataset) = Inr []"
  "samples f ''vmstat'' (tool_runs ''vegeta'' example_dataset) = Inr []"
  "samples (field ''cpu'') ''pidstat'' (tool_runs ''wrk'' example_dataset) = Inr [[JNum (PInt 12), JNum (PInt 20)]]"
  "samples (field ''cpu'') ''pidstat'' (tool_runs ''vegeta'' example_dataset) = Inr [[JNum (PInt 12), JNum (PInt 20)]]"
  "samples rss_mb ''pidstat'' (tool_runs ''wrk'' example_dataset) = Inr [[JNum (PFloat 2), JNum (PFloat 4)]]"
  "samples rss_mb ''pidstat'' (tool_runs ''vegeta'' example_dataset) = Inr [[JNum (PFloat 2), JNum (PFloat 4)]]"
  by code_simp+

theorem sys_generate_images_witness:
  "fst (sys_generate example_dataset) = Inr () \<and>
   [''system'', ''vegeta'', ''memory-distribution.png''] \<in> image_paths (snd (sys_generate example_dataset))"
proof -
  have dirs: "tool_dirs example_dataset = {''wrk'', ''vegeta''}" by code_simp
  have "tool_drawable tool example_dataset" if "tool \<in> {''wrk'', ''vegeta''}" for tool
    using that by (auto simp: tool_drawable_def all_series_def drawable_def example_samples all_numbers_def)
  moreover have "[''system'', ''vegeta'', ''memory-distribution.png''] \<in> tool_images ''vegeta'' example_dataset"
    by (simp add: tool_images_def all_series_def image_def example_samples)
  ultimately show ?thesis
    using sys_generate_images [of example_dataset, OF surjective_pairing] unfolding dirs by blast
qed

end
