(* ===== verification/Analyze.thy ===== *)
theory Analyze
  imports VegetaPlots SystemPlots "HOL-Library.Sublist"
begin

text \<open>
  \<^verbatim>\<open>docs/benchmarking/analysis/analyze.py\<close>: the pipeline. Every run is parsed by a \<^verbatim>\<open>parser.py\<close> process,
  the parsed runs and \<^verbatim>\<open>metadata.json\<close> give the summary, the plots are drawn, and \<^verbatim>\<open>summary.json\<close> is
  written with the tree of all images found below \<^verbatim>\<open>plots/\<close>.
\<close>

section \<open>Parsing\<close>

definition run_at :: "string \<Rightarrow> string \<Rightarrow> dataset \<Rightarrow> run_dir node option" where
  "run_at tool name ds = (case tool_entry tool ds of Some (Dir runs) \<Rightarrow> map_of runs name | _ \<Rightarrow> None)"

definition set_run :: "string \<Rightarrow> string \<Rightarrow> run_dir node \<Rightarrow> dataset \<Rightarrow> dataset" where
  "set_run tool name node ds = raw_update (map_option (\<lambda>es. case map_of es tool of
       Some (Dir runs) \<Rightarrow> AList.update tool (Dir (AList.update name node runs)) es
     | _ \<Rightarrow> es)) ds"

text \<open>
  \<^verbatim>\<open>subprocess.run(["python3", parser.py, "--run-dir", run], check=True)\<close>: an uncaught exception in the
  child is exit status 1, which becomes \<^verbatim>\<open>CalledProcessError\<close>; for a plain file \<^verbatim>\<open>run-x\<close> the child cannot open
  \<^verbatim>\<open>run-x/parsed.json\<close>.
\<close>

definition call_parser :: "string \<Rightarrow> run_dir node \<Rightarrow> unit result \<times> run_dir node" where
  "call_parser name node = (case node of
     File \<Rightarrow> (Inl (CalledProcessError name), File)
   | Dir run \<Rightarrow> (case parser_main run of
       (Inr _, run') \<Rightarrow> (Inr (), Dir run')
     | (Inl e, run') \<Rightarrow> (Inl (if e = Unmodelled then Unmodelled else CalledProcessError name), Dir run')))"

definition parse_run_dir :: "string \<Rightarrow> string \<Rightarrow> (dataset, unit) action" where
  "parse_run_dir tool name ds = (case run_at tool name ds of
     None \<Rightarrow> (Inl (CalledProcessError name), ds)
   | Some node \<Rightarrow> (case call_parser name node of (r, node') \<Rightarrow> (r, set_run tool name node' ds)))"

definition parse_tool :: "string \<Rightarrow> (dataset, unit) action" where
  "parse_tool tool =
     bindA (getA (\<lambda>ds. map fst (tool_runs tool ds))) (\<lambda>names.
     forA names (parse_run_dir tool))"

definition parse_runs :: "(dataset, unit) action" where
  "parse_runs =
     bindA (getA raw) (\<lambda>es. case es of
       None \<Rightarrow> returnA ()
     | Some entries \<Rightarrow> forA (by_name entries) (\<lambda>(tool, entry).
         if \<not> is_dir entry then returnA () else parse_tool tool))"

section \<open>Plot discovery\<close>

text \<open>
  The walk that files one image: \<^verbatim>\<open>setdefault\<close> along the directories, assignment at the end. A plain
  string met on the way has no \<^verbatim>\<open>setdefault\<close> and no item assignment.
\<close>

definition dir_key :: "string \<Rightarrow> string" where
  "dir_key part = py_replace ''-'' ''_'' part"

definition file_key :: "string \<Rightarrow> string" where
  "file_key part = py_replace ''.png'' [] part"

fun insert_plot :: "string list \<Rightarrow> string \<Rightarrow> json \<Rightarrow> json result" where
  "insert_plot [] relative current = Inr current"
| "insert_plot [part] relative current = (case current of
     JObj d \<Rightarrow> Inr (JObj (dict_put (file_key part) (JStr relative) d))
   | _ \<Rightarrow> Inl TypeError)"
| "insert_plot (part # p # ps) relative current = (case current of
     JObj d \<Rightarrow>
       bindE (insert_plot (p # ps) relative (case dict_get d (dir_key part) of None \<Rightarrow> JObj [] | Some j \<Rightarrow> j)) (\<lambda>sub.
       Inr (JObj (dict_put (dir_key part) sub d)))
   | _ \<Rightarrow> Inl (AttributeError ''setdefault''))"

definition is_png :: "string list \<Rightarrow> bool" where
  "is_png path \<longleftrightarrow> path \<noteq> [] \<and> is_prefix (rev ''.png'') (rev (last path))"

definition images :: "dataset \<Rightarrow> string list list" where
  "images ds = sort (filter is_png (map fst (plots ds)))"

definition collect_plot_paths :: "dataset \<Rightarrow> json result" where
  "collect_plot_paths ds =
     foldE (\<lambda>image plots. insert_plot image (join ''/'' image) plots) (images ds) (JObj [])"

section \<open>Summary\<close>

definition copy_entries :: "json \<Rightarrow> (string \<times> string \<times> string) list \<Rightarrow> json result" where
  "copy_entries metadata spec =
     bindE (displayE (map (\<lambda>(key, part, field). (key, bindE (getitem metadata part) (\<lambda>p. getitem p field))) spec))
       (\<lambda>d. Inr (JObj d))"

definition metadata_spec :: "(string \<times> string \<times> string) list" where
  "metadata_spec =
     [(''id'', ''benchmark'', ''id''), (''title'', ''benchmark'', ''title''), (''timestamp'', ''system'', ''timestamp''),
      (''hostname'', ''system'', ''hostname''), (''git_branch'', ''git'', ''branch''), (''git_commit'', ''git'', ''commit'')]"

definition workload_spec :: "(string \<times> string \<times> string) list" where
  "workload_spec = map (\<lambda>k. (k, ''benchmark'', k))
     [''protocol'', ''url'', ''threads'', ''connections'', ''duration'', ''warmup'', ''iterations'']"

definition environment_spec :: "(string \<times> string \<times> string) list" where
  "environment_spec = map (\<lambda>k. (k, ''system'', k)) [''cpu'', ''logical_cpus'', ''memory'', ''os'', ''kernel'']"

text \<open>One tool: nothing changes when its directory is missing or has no parsed run.\<close>

definition summarize_tool :: "string \<Rightarrow> (json list \<Rightarrow> json result) \<Rightarrow> dataset \<Rightarrow> json dict \<Rightarrow> json dict result" where
  "summarize_tool tool summarize_runs ds summary =
     (if tool_entry tool ds = None then Inr summary else
      bindE (load_parsed (tool_runs tool ds)) (\<lambda>runs.
      if runs = [] then Inr summary else
      bindE (summarize_runs runs) (\<lambda>s. Inr (dict_put tool s summary))))"

definition build_summary :: "dataset \<Rightarrow> json dict result" where
  "build_summary ds =
     bindE (load_json ''metadata.json'' (metadata_json ds)) (\<lambda>metadata.
     bindE (displayE
       [(''metadata'', copy_entries metadata metadata_spec),
        (''workload'', copy_entries metadata workload_spec),
        (''environment'', copy_entries metadata environment_spec),
        (''wrk'', Inr (JObj [])), (''vegeta'', Inr (JObj [])), (''plots'', Inr (JObj []))]) (\<lambda>summary.
     bindE (summarize_tool ''wrk'' summarize_wrk ds summary) (\<lambda>summary.
     summarize_tool ''vegeta'' summarize_vegeta ds summary)))"

section \<open>Pipeline\<close>

definition entry_truthy :: "string \<Rightarrow> json dict \<Rightarrow> bool" where
  "entry_truthy key summary = (case dict_get summary key of None \<Rightarrow> False | Some j \<Rightarrow> truthy j)"

definition generate_plots :: "json dict \<Rightarrow> (dataset, unit) action" where
  "generate_plots summary =
     bindA (if entry_truthy ''wrk'' summary then generate (JObj summary) else returnA ()) (\<lambda>_.
     bindA (if entry_truthy ''vegeta'' summary then vegeta_generate (JObj summary) else returnA ()) (\<lambda>_.
     sys_generate))"

definition save_summary :: "json dict \<Rightarrow> (dataset, unit) action" where
  "save_summary summary =
     bindA (getA collect_plot_paths) (\<lambda>r.
     bindA (liftA r) (\<lambda>tree.
     modifyA (summary_json_update (\<lambda>_. Doc (JObj (dict_put ''plots'' tree summary))))))"

definition analyze :: "(dataset, unit) action" where
  "analyze =
     bindA parse_runs (\<lambda>_.
     bindA (getA build_summary) (\<lambda>r.
     bindA (liftA r) (\<lambda>summary.
     bindA (generate_plots summary) (\<lambda>_.
     save_summary summary))))"

text \<open>The command line: \<^verbatim>\<open>parser.error\<close> exits with status 2 when the dataset does not exist.\<close>

definition analyze_main :: "(dataset option, unit) action" where
  "analyze_main d = (case d of
     None \<Rightarrow> (Inl (SystemExit 2), None)
   | Some ds \<Rightarrow> (case analyze ds of (r, ds') \<Rightarrow> (r, Some ds')))"

section \<open>The tree of images\<close>

text \<open>Where an image is filed, and what a path of keys finds in the tree.\<close>

fun plot_keys :: "string list \<Rightarrow> string list" where
  "plot_keys [] = []"
| "plot_keys [part] = [file_key part]"
| "plot_keys (part # p # ps) = dir_key part # plot_keys (p # ps)"

fun lookup :: "string list \<Rightarrow> json \<Rightarrow> json option" where
  "lookup [] j = Some j"
| "lookup (k # ks) (JObj d) = (case dict_get d k of None \<Rightarrow> None | Some j \<Rightarrow> lookup ks j)"
| "lookup (k # ks) _ = None"

lemma plot_keys_Nil [simp]: "plot_keys p = [] \<longleftrightarrow> p = []"
  by (cases p rule: plot_keys.cases) simp_all

lemma lookup_None: "ks \<noteq> [] \<Longrightarrow> lookup ks (JObj []) = None"
  by (cases ks) simp_all

lemma lookup_put:
  "lookup (k # ks) (JObj (dict_put k' j d)) = (if k = k' then lookup ks j else lookup (k # ks) (JObj d))"
  by (simp add: pydict.get_put)

lemma insert_plot_below:
  "insert_plot p rel t = Inr t' \<Longrightarrow> p \<noteq> [] \<Longrightarrow> lookup (plot_keys p @ ks) t' = lookup ks (JStr rel)"
proof (induction p rel t arbitrary: t' rule: insert_plot.induct)
  case (2 part rel t)
  then show ?case by (cases t) (auto simp: pydict.get_put)
next
  case (3 part p ps rel t)
  then show ?case by (cases t) (auto simp: pydict.get_put elim!: bindE_InrE)
qed simp

lemma insert_plot_above:
  "insert_plot p rel t = Inr t' \<Longrightarrow> strict_prefix ks (plot_keys p) \<Longrightarrow> \<exists>d. lookup ks t' = Some (JObj d)"
proof (induction p rel t arbitrary: t' ks rule: insert_plot.induct)
  case (2 part rel t)
  then have "ks = []" by (cases ks) auto
  with 2 show ?case by (cases t) auto
next
  case (3 part p ps rel t)
  from 3(2) obtain d sub where d: "t = JObj d" "t' = JObj (dict_put (dir_key part) sub d)"
    and sub: "insert_plot (p # ps) rel (case dict_get d (dir_key part) of None \<Rightarrow> JObj [] | Some j \<Rightarrow> j) = Inr sub"
    by (cases t) (auto elim!: bindE_InrE)
  show ?case
  proof (cases ks)
    case (Cons k ks')
    with 3(3) have "k = dir_key part" "strict_prefix ks' (plot_keys (p # ps))" by auto
    then show ?thesis using 3(1) [OF d(1) sub] d Cons by (simp add: pydict.get_put)
  qed (simp add: d)
qed simp

lemma insert_plot_apart:
  "insert_plot p rel t = Inr t' \<Longrightarrow> \<not> prefix ks (plot_keys p) \<Longrightarrow> \<not> prefix (plot_keys p) ks \<Longrightarrow>
    lookup ks t' = lookup ks t"
proof (induction p rel t arbitrary: t' ks rule: insert_plot.induct)
  case (2 part rel t)
  then show ?case by (cases t; cases ks) (auto simp: pydict.get_put)
next
  case (3 part p ps rel t)
  let ?sub = "\<lambda>d. case dict_get d (dir_key part) of None \<Rightarrow> JObj [] | Some j \<Rightarrow> j"
  from 3(2) obtain d sub where d: "t = JObj d" "t' = JObj (dict_put (dir_key part) sub d)"
    and sub: "insert_plot (p # ps) rel (?sub d) = Inr sub"
    by (cases t) (auto elim!: bindE_InrE)
  obtain k ks' where ks: "ks = k # ks'" using 3(3) by (cases ks) auto
  show ?case
  proof (cases "k = dir_key part")
    case True
    with 3(3,4) ks have "\<not> prefix ks' (plot_keys (p # ps))" "\<not> prefix (plot_keys (p # ps)) ks'" by auto
    then have "lookup ks' sub = lookup ks' (?sub d)" "ks' \<noteq> []" using 3(1) [OF d(1) sub] by auto
    then show ?thesis using d ks True by (auto simp: pydict.get_put lookup_None split: option.splits)
  next
    case False
    then show ?thesis using d ks by (simp add: pydict.get_put)
  qed
qed simp

lemma insert_plot_total:
  "p \<noteq> [] \<Longrightarrow> (\<And>ks j. strict_prefix ks (plot_keys p) \<Longrightarrow> lookup ks t = Some j \<Longrightarrow> is_obj j) \<Longrightarrow>
    \<exists>t'. insert_plot p rel t = Inr t'"
proof (induction p rel t rule: insert_plot.induct)
  case (2 part rel t)
  from 2(2) [of "[]" t] show ?case by (cases t) auto
next
  case (3 part p ps rel t)
  from 3(3) [of "[]" t] obtain d where d: "t = JObj d" by (cases t) auto
  let ?sub = "case dict_get d (dir_key part) of None \<Rightarrow> JObj [] | Some j \<Rightarrow> j"
  have "is_obj j" if "strict_prefix ks (plot_keys (p # ps))" "lookup ks ?sub = Some j" for ks j
  proof (cases "dict_get d (dir_key part)")
    case None
    with that show ?thesis by (cases ks) auto
  next
    case (Some u)
    have "strict_prefix (dir_key part # ks) (plot_keys (part # p # ps))" using that(1) by simp
    moreover have "lookup (dir_key part # ks) t = Some j" using that(2) Some d by simp
    ultimately show ?thesis by (rule 3(3))
  qed
  then obtain sub where "insert_plot (p # ps) rel ?sub = Inr sub" using 3(1) [OF d] by blast
  then show ?case using d by simp
qed simp

text \<open>No image's key path is the key path, or a directory on the key path, of another image.\<close>

definition separate :: "string list set \<Rightarrow> bool" where
  "separate P \<longleftrightarrow> [] \<notin> P \<and> (\<forall>p \<in> P. \<forall>q \<in> P. prefix (plot_keys p) (plot_keys q) \<longrightarrow> p = q)"

text \<open>The strings of a tree are exactly the images, each at its key path; everything else is a
  directory.\<close>

definition files :: "string list set \<Rightarrow> json \<Rightarrow> bool" where
  "files P t \<longleftrightarrow> (\<forall>ks s. lookup ks t = Some (JStr s) \<longleftrightarrow> (\<exists>p \<in> P. plot_keys p = ks \<and> s = join ''/'' p)) \<and>
     (\<forall>ks j. lookup ks t = Some j \<longrightarrow> is_obj j \<or> (\<exists>s. j = JStr s))"

lemma files_empty: "files {} (JObj [])"
proof -
  have "lookup ks (JObj []) = (if ks = [] then Some (JObj []) else None)" for ks by (cases ks) simp_all
  then show ?thesis by (auto simp: files_def split: if_splits)
qed

lemma files_insert:
  assumes t: "files P t" and sep: "separate (insert p P)" and new: "p \<notin> P"
  shows "\<exists>t'. insert_plot p (join ''/'' p) t = Inr t' \<and> files (insert p P) t'"
proof -
  let ?k = "plot_keys p"
  have ne: "p \<noteq> []" using sep by (auto simp: separate_def)
  have apart: "\<not> prefix ?k (plot_keys q) \<and> \<not> prefix (plot_keys q) ?k" if "q \<in> P" for q
    using that sep new by (metis insertI1 insertI2 separate_def)
  have "is_obj j" if "strict_prefix ks ?k" "lookup ks t = Some j" for ks j
    using that t apart unfolding files_def by (metis prefix_order.less_imp_le)
  then obtain t' where t': "insert_plot p (join ''/'' p) t = Inr t'" using insert_plot_total [OF ne] by blast
  have below: "lookup ks t' = (if ks = ?k then Some (JStr (join ''/'' p)) else None)" if "prefix ?k ks" for ks
  proof -
    from that obtain zs where "ks = ?k @ zs" by (auto simp: prefix_def)
    then show ?thesis using insert_plot_below [OF t' ne, of zs] by (cases zs) auto
  qed
  have "(lookup ks t' = Some (JStr s) \<longleftrightarrow> (\<exists>q \<in> insert p P. plot_keys q = ks \<and> s = join ''/'' q)) \<and>
      (\<forall>j. lookup ks t' = Some j \<longrightarrow> is_obj j \<or> (\<exists>s. j = JStr s))" for ks s
  proof -
    consider "prefix ?k ks" | "strict_prefix ks ?k" | "\<not> prefix ks ?k" "\<not> prefix ?k ks"
      by (auto simp: strict_prefix_def)
    then show ?thesis
    proof cases
      case 1
      have "plot_keys q \<noteq> ?k" if "q \<in> P" for q using apart [OF that] by auto
      with 1 below apart show ?thesis by (auto split: if_splits)
    next
      case 2
      then have "plot_keys q \<noteq> ks" if "q \<in> P" for q using apart [OF that] by auto
      with 2 insert_plot_above [OF t' 2] show ?thesis by auto
    next
      case 3
      with insert_plot_apart [OF t' 3] t show ?thesis by (auto simp: files_def)
    qed
  qed
  with t' show ?thesis by (auto simp: files_def)
qed

lemma separate_mono: "separate P \<Longrightarrow> Q \<subseteq> P \<Longrightarrow> separate Q"
  by (auto simp: separate_def)

lemma files_fold:
  assumes "files P t" and "separate (P \<union> set ps)" and "distinct ps" and "P \<inter> set ps = {}"
  shows "\<exists>t'. foldE (\<lambda>image. insert_plot image (join ''/'' image)) ps t = Inr t' \<and> files (P \<union> set ps) t'"
  using assms
proof (induction ps arbitrary: P t)
  case Nil
  then show ?case by simp
next
  case (Cons p ps)
  have "separate (insert p P)" using Cons.prems(2) by (rule separate_mono) auto
  with Cons.prems obtain u where u: "insert_plot p (join ''/'' p) t = Inr u" "files (insert p P) u"
    using files_insert [of P t p] by auto
  have "\<exists>t'. foldE (\<lambda>image. insert_plot image (join ''/'' image)) ps u = Inr t' \<and> files (insert p P \<union> set ps) t'"
    using Cons.prems u by (intro Cons.IH) auto
  with u(1) show ?case by (simp add: insert_commute)
qed

lemma set_images: "set (images ds) = {p \<in> image_paths ds. is_png p}"
  by (auto simp: images_def image_paths_def)

lemma collect_files:
  assumes "distinct (map fst (plots ds))" and "separate {p \<in> image_paths ds. is_png p}"
  shows "\<exists>tree. collect_plot_paths ds = Inr tree \<and> files {p \<in> image_paths ds. is_png p} tree"
proof -
  have "distinct (images ds)" using assms(1) by (simp add: images_def)
  then show ?thesis
    using files_fold [OF files_empty, of "images ds"] assms(2) by (auto simp: collect_plot_paths_def set_images)
qed

text \<open>C5. The tree of plots in the summary. When no two images share a key path and none is filed where
  another needs a directory, \<^verbatim>\<open>collect_plot_paths\<close> returns a tree whose strings are exactly the images
  below \<^verbatim>\<open>plots/\<close>: every image is found at its key path with its relative path, and nothing else is
  found.\<close>

theorem collect_plot_paths_files:
  assumes "distinct (map fst (plots ds))" and "separate {p \<in> image_paths ds. is_png p}"
  shows "\<exists>tree. collect_plot_paths ds = Inr tree \<and>
    (\<forall>ks s. lookup ks tree = Some (JStr s) \<longleftrightarrow>
      (\<exists>p \<in> image_paths ds. is_png p \<and> plot_keys p = ks \<and> s = join ''/'' p))"
  using collect_files [OF assms] by (auto simp: files_def)

theorem collect_plot_paths_files_witness:
  "\<exists>tree. collect_plot_paths (example_dataset\<lparr>plots :=
      [([''vegeta'', ''latency-boxplot.png''], []), ([''wrk-latency-boxplot.png''], [])]\<rparr>) = Inr tree \<and>
    lookup [''vegeta'', ''latency-boxplot''] tree = Some (JStr ''vegeta/latency-boxplot.png'')"
proof -
  let ?ds = "example_dataset\<lparr>plots := [([''vegeta'', ''latency-boxplot.png''], []), ([''wrk-latency-boxplot.png''], [])]\<rparr>"
  have paths: "image_paths ?ds = {[''vegeta'', ''latency-boxplot.png''], [''wrk-latency-boxplot.png'']}"
    by (simp add: image_paths_def)
  have keys: "plot_keys [''vegeta'', ''latency-boxplot.png''] = [''vegeta'', ''latency-boxplot'']"
    "plot_keys [''wrk-latency-boxplot.png''] = [''wrk-latency-boxplot'']" by code_simp+
  have png: "is_png [''vegeta'', ''latency-boxplot.png'']" "is_png [''wrk-latency-boxplot.png'']" by code_simp+
  have "separate {p \<in> image_paths ?ds. is_png p}" unfolding paths separate_def
    by (auto simp: keys simp del: plot_keys.simps)
  moreover have "distinct (map fst (plots ?ds))" by simp
  ultimately obtain tree where "collect_plot_paths ?ds = Inr tree" and
    t: "\<forall>ks s. lookup ks tree = Some (JStr s) \<longleftrightarrow> (\<exists>p \<in> image_paths ?ds. is_png p \<and> plot_keys p = ks \<and> s = join ''/'' p)"
    using collect_plot_paths_files [of ?ds] by blast
  moreover have "lookup [''vegeta'', ''latency-boxplot''] tree = Some (JStr ''vegeta/latency-boxplot.png'')"
    unfolding t [rule_format] paths using keys png
    by (intro bexI [of _ "[''vegeta'', ''latency-boxplot.png'']"]) simp_all
  ultimately show ?thesis by blast
qed

section \<open>Parsing every run\<close>

definition no_raw :: "dataset \<Rightarrow> json_file \<times> (string list \<times> figure) list \<times> json_file \<times> string option" where
  "no_raw ds = (metadata_json ds, plots ds, summary_json ds, report_md ds)"

definition run_names :: "dataset \<Rightarrow> string \<Rightarrow> string list" where
  "run_names ds tool = map fst (tool_runs tool ds)"

lemma names_by_name: "map fst (by_name es) = sort (map fst es)"
  unfolding by_name_def by (rule properties_for_sort [symmetric]) simp_all

lemma names_glob_runs: "map fst (glob_runs runs) = sort (filter (is_prefix ''run-'') (map fst runs))"
  by (simp add: glob_runs_def names_by_name filter_map comp_def)

lemma update_same: "map_of xs k = Some v \<Longrightarrow> AList.update k v xs = xs"
  by (induction xs) (auto split: if_splits)

lemma fst_update_present: "map_of xs k \<noteq> None \<Longrightarrow> map fst (AList.update k v xs) = map fst xs"
  by (induction xs) (auto split: if_splits)

lemma run_atE:
  assumes "run_at tool name ds = Some node"
  obtains es runs where "raw ds = Some es" and "map_of es tool = Some (Dir runs)" and "map_of runs name = Some node"
  using assms by (auto simp: run_at_def tool_entry_def split: option.splits node.splits)

lemma set_run_same: "run_at tool name ds = Some node \<Longrightarrow> set_run tool name node ds = ds"
  by (erule run_atE) (simp add: set_run_def update_same)

lemma run_at_set_run:
  assumes "run_at tool name ds = Some node"
  shows "run_at T N (set_run tool name n ds) = (if T = tool \<and> N = name then Some n else run_at T N ds)"
  using assms by (rule run_atE) (auto simp: set_run_def run_at_def tool_entry_def update_conv')

lemma run_names_set_run:
  assumes "run_at tool name ds = Some node"
  shows "run_names (set_run tool name n ds) = run_names ds"
proof
  fix T
  show "run_names (set_run tool name n ds) T = run_names ds T"
    using assms
  proof (rule run_atE)
    fix es runs assume r: "raw ds = Some es" "map_of es tool = Some (Dir runs)" "map_of runs name = Some node"
    then have "map fst (AList.update name n runs) = map fst runs" by (intro fst_update_present) simp
    with r show ?thesis
      by (auto simp: run_names_def set_run_def tool_runs_def tool_entry_def names_glob_runs update_conv' split: option.splits node.splits)
  qed
qed

lemma no_raw_set_run [simp]: "no_raw (set_run tool name n ds) = no_raw ds"
  by (simp add: no_raw_def set_run_def)

text \<open>What the parser makes of one run directory.\<close>

definition parses :: "run_dir node option \<Rightarrow> bool" where
  "parses node \<longleftrightarrow> (\<exists>run j. node = Some (Dir run) \<and> parse_run run = Inr j)"

fun reparse :: "run_dir node \<Rightarrow> run_dir node" where
  "reparse File = File"
| "reparse (Dir run) = (case parse_run run of Inl _ \<Rightarrow> Dir run | Inr j \<Rightarrow> Dir (run\<lparr>parsed_json := Doc j\<rparr>))"

lemma parse_run_parsed [simp]: "parse_run (run\<lparr>parsed_json := x\<rparr>) = parse_run run"
  by (simp add: parse_run_def)

lemma reparse_twice [simp]: "reparse (reparse node) = reparse node"
  by (cases node) (auto split: sum.split)

lemma parses_reparse [simp]: "parses (map_option reparse node) = parses node"
proof (cases node)
  case (Some n)
  then show ?thesis by (cases n) (auto simp: parses_def split: sum.splits)
qed (simp add: parses_def)

lemma parse_run_dir_eq:
  "\<exists>e. parse_run_dir tool name ds = (if parses (run_at tool name ds)
     then (Inr (), set_run tool name (reparse (the (run_at tool name ds))) ds) else (Inl e, ds))"
proof (cases "run_at tool name ds")
  case None
  then show ?thesis by (simp add: parse_run_dir_def parses_def)
next
  case (Some node)
  show ?thesis
  proof (cases node)
    case File
    then show ?thesis using Some set_run_same [OF Some] by (simp add: parse_run_dir_def parses_def call_parser_def)
  next
    case (Dir run)
    then show ?thesis
      using Some set_run_same [OF Some]
      by (cases "parse_run run") (auto simp: parse_run_dir_def parses_def call_parser_def parser_main_def action_defs)
  qed
qed

lemma keeps_parse_run_dir: "keeps no_raw (parse_run_dir tool name)" "keeps run_names (parse_run_dir tool name)"
proof -
  have "no_raw (snd (parse_run_dir tool name ds)) = no_raw ds \<and> run_names (snd (parse_run_dir tool name ds)) = run_names ds" for ds
    using parse_run_dir_eq [of tool name ds] by (auto simp: parses_def run_names_set_run split: if_splits)
  then show "keeps no_raw (parse_run_dir tool name)" "keeps run_names (parse_run_dir tool name)"
    by (simp_all add: keeps_def)
qed

text \<open>All runs as one sequence of calls.\<close>

definition run_keys :: "dataset \<Rightarrow> (string \<times> string) list" where
  "run_keys ds = (case raw ds of None \<Rightarrow> []
   | Some es \<Rightarrow> concat (map (\<lambda>(tool, entry). if is_dir entry then map (Pair tool) (run_names ds tool) else []) (by_name es)))"

abbreviation parse_keys :: "(string \<times> string) list \<Rightarrow> (dataset, unit) action" where
  "parse_keys ks \<equiv> forA ks (\<lambda>(tool, name). parse_run_dir tool name)"

lemma forA_append: "forA (xs @ ys) f = bindA (forA xs f) (\<lambda>_. forA ys f)"
  by (induction xs) (simp_all add: bindA_assoc)

lemma forA_map: "forA (map g xs) f = forA xs (\<lambda>x. f (g x))"
  by (induction xs) simp_all

lemma bindA_keeps_cong:
  assumes "keeps q m" and "\<And>t. q t = q s \<Longrightarrow> f t = g t"
  shows "bindA m (\<lambda>_. f) s = bindA m (\<lambda>_. g) s"
proof -
  obtain r t where run: "m s = (r, t)" by fastforce
  with assms have "f t = g t" by (auto dest: keeps_snd)
  with run show ?thesis by (simp add: bindA_def split: sum.split)
qed

lemma keeps_parse_keys: "keeps no_raw (parse_keys ks)" "keeps run_names (parse_keys ks)"
  by (auto intro!: keeps_for keeps_parse_run_dir)

lemma parse_tool_keys: "parse_tool tool s = parse_keys (map (Pair tool) (run_names s tool)) s"
  by (simp add: parse_tool_def run_names_def forA_map)

lemma parse_runs_keys: "parse_runs ds = parse_keys (run_keys ds) ds"
proof -
  have "forA es (\<lambda>(tool, entry). if \<not> is_dir entry then returnA () else parse_tool tool) s =
      parse_keys (concat (map (\<lambda>(tool, entry). if is_dir entry then map (Pair tool) (names tool) else []) es)) s"
    if "run_names s = names" for s names and es :: "(string \<times> tool_dir node) list"
    using that
  proof (induction es arbitrary: s)
    case (Cons e es)
    obtain tool entry where e: "e = (tool, entry)" by fastforce
    let ?rest = "concat (map (\<lambda>(tool, entry). if is_dir entry then map (Pair tool) (names tool) else []) es)"
    show ?case
    proof (cases "is_dir entry")
      case True
      have "bindA (parse_tool tool) (\<lambda>_. forA es (\<lambda>(tool, entry). if \<not> is_dir entry then returnA () else parse_tool tool)) s
          = bindA (parse_keys (map (Pair tool) (names tool))) (\<lambda>_. forA es (\<lambda>(tool, entry). if \<not> is_dir entry then returnA () else parse_tool tool)) s"
        using parse_tool_keys [of tool s] Cons.prems by (simp add: bindA_def)
      also have "\<dots> = bindA (parse_keys (map (Pair tool) (names tool))) (\<lambda>_. parse_keys ?rest) s"
        by (rule bindA_keeps_cong [OF keeps_parse_keys(2)]) (simp add: Cons)
      finally show ?thesis using e True by (simp add: forA_append)
    next
      case False
      then show ?thesis using Cons e by simp
    qed
  qed simp
  then show ?thesis by (simp add: parse_runs_def run_keys_def split: option.split)
qed

lemma parse_keys_spec:
  assumes "parse_keys ks ds = (r, t)"
  shows "(r = Inr () \<longleftrightarrow> (\<forall>(T, N) \<in> set ks. parses (run_at T N ds))) \<and>
    (r = Inr () \<longrightarrow> (\<forall>T N. run_at T N t = (if (T, N) \<in> set ks then map_option reparse (run_at T N ds) else run_at T N ds))) \<and>
    (\<forall>T N. run_at T N t = run_at T N ds \<or> run_at T N t = map_option reparse (run_at T N ds))"
  using assms
proof (induction ks arbitrary: ds)
  case Nil
  then show ?case by (simp add: returnA_def)
next
  case (Cons k ks)
  obtain tool name where k: "k = (tool, name)" by fastforce
  obtain e where run: "parse_run_dir tool name ds = (if parses (run_at tool name ds)
     then (Inr (), set_run tool name (reparse (the (run_at tool name ds))) ds) else (Inl e, ds))"
    using parse_run_dir_eq by blast
  show ?case
  proof (cases "parses (run_at tool name ds)")
    case False
    with run Cons.prems k have "r = Inl e" "t = ds" by (simp_all add: bindA_def)
    with False k show ?thesis by auto
  next
    case True
    then obtain node where node: "run_at tool name ds = Some node" by (auto simp: parses_def)
    let ?u = "set_run tool name (reparse node) ds"
    have u: "run_at T N ?u = (if T = tool \<and> N = name then map_option reparse (run_at T N ds) else run_at T N ds)" for T N
      using run_at_set_run [OF node] node by simp
    have "parse_keys ks ?u = (r, t)" using Cons.prems True run k node by (simp add: bindA_def)
    note IH = Cons.IH [OF this]
    have twice: "map_option reparse (map_option reparse x) = map_option reparse x" for x
      by (cases x) simp_all
    have par: "parses (run_at T N ?u) = parses (run_at T N ds)" for T N by (simp add: u)
    have "r = Inr () \<longleftrightarrow> (\<forall>(T, N) \<in> set (k # ks). parses (run_at T N ds))"
      using IH True k by (auto simp: par)
    moreover have "run_at T N t = (if (T, N) \<in> set (k # ks) then map_option reparse (run_at T N ds) else run_at T N ds)"
      if "r = Inr ()" for T N
      using IH that k by (auto simp: u twice)
    moreover have "run_at T N t = run_at T N ds \<or> run_at T N t = map_option reparse (run_at T N ds)" for T N
      using IH by (metis u twice)
    ultimately show ?thesis by blast
  qed
qed

text \<open>C23. Parsing all runs. \<^verbatim>\<open>parse_runs\<close> returns exactly when every \<^verbatim>\<open>run-*\<close> entry of every tool directory
  is a directory whose raw outputs parse; then each of them has the \<^verbatim>\<open>parsed.json\<close> of its own raw
  outputs and no other entry has changed. When it raises, every run is either untouched or freshly
  parsed. Images, summary, report and metadata are never changed.\<close>

theorem parse_runs_spec:
  assumes "parse_runs ds = (r, t)"
  shows "(r = Inr () \<longleftrightarrow> (\<forall>(tool, name) \<in> set (run_keys ds). parses (run_at tool name ds))) \<and>
    (r = Inr () \<longrightarrow> (\<forall>tool name. run_at tool name t =
       (if (tool, name) \<in> set (run_keys ds) then map_option reparse (run_at tool name ds) else run_at tool name ds))) \<and>
    (\<forall>tool name. run_at tool name t = run_at tool name ds \<or> run_at tool name t = map_option reparse (run_at tool name ds)) \<and>
    no_raw t = no_raw ds"
  using parse_keys_spec [OF assms [unfolded parse_runs_keys]]
    keeps_snd [OF keeps_parse_keys(1) assms [unfolded parse_runs_keys]] by blast

theorem parse_runs_spec_witness:
  "let ds = example_dataset\<lparr>raw := Some [(''wrk'', Dir [(''run-001'',
         Dir ((example_run ''wrk'' JNull)\<lparr>wrk_txt := Some ''Requests/sec: 1000''\<rparr>))])]\<rparr>
   in fst (parse_runs ds) = Inr () \<and> run_keys ds = [(''wrk'', ''run-001'')] \<and>
      run_at ''wrk'' ''run-001'' (snd (parse_runs ds)) = map_option reparse (run_at ''wrk'' ''run-001'' ds)"
proof -
  let ?run = "(example_run ''wrk'' JNull)\<lparr>wrk_txt := Some ''Requests/sec: 1000''\<rparr>"
  let ?ds = "example_dataset\<lparr>raw := Some [(''wrk'', Dir [(''run-001'', Dir ?run)])]\<rparr>"
  have keys: "run_keys ?ds = [(''wrk'', ''run-001'')]" by code_simp
  have "parse_run ?run = Inr (JObj [(''wrk'', JObj [(''requests_per_sec'', JNum (PFloat 1000))])])" by code_simp
  moreover have "run_at ''wrk'' ''run-001'' ?ds = Some (Dir ?run)" by (simp add: run_at_def tool_entry_def)
  ultimately have "parses (run_at ''wrk'' ''run-001'' ?ds)" by (simp add: parses_def)
  with keys parse_runs_spec [of ?ds, OF surjective_pairing] show ?thesis by (simp add: Let_def)
qed

section \<open>Plotting again\<close>

text \<open>
  \<open>renders m\<close>: whether \<open>m\<close> returns, and which images it then writes in which order, depends on \<^verbatim>\<open>raw/\<close>
  only, and it changes nothing else. Plotting is therefore repeatable.
\<close>

definition raw_only :: "(dataset \<Rightarrow> 'a) \<Rightarrow> bool" where
  "raw_only q \<longleftrightarrow> (\<forall>ds t. raw ds = raw t \<longrightarrow> q ds = q t)"

abbreviation write_all :: "(string list \<times> figure) list \<Rightarrow> dataset \<Rightarrow> dataset" where
  "write_all w \<equiv> plots_update (fold (\<lambda>(p, fig). AList.update p fig) w)"

definition renders :: "(dataset, unit) action \<Rightarrow> bool" where
  "renders m \<longleftrightarrow> (\<exists>W. \<forall>ds t. raw ds = raw t \<longrightarrow> fst (m ds) = fst (m t) \<and>
     (fst (m ds) = Inr () \<longrightarrow> m t = (Inr (), write_all (W (raw ds)) t)))"

lemma raw_only_runs: "raw_only raw" "raw_only (tool_entry tool)" "raw_only (tool_runs tool)"
  by (simp_all add: raw_only_def tool_entry_def tool_runs_def)

lemma renders_return: "renders (returnA ())"
  unfolding renders_def by (intro exI [of _ "\<lambda>_. []"]) (simp add: returnA_def)

lemma renders_save_figure: "renders (save_figure path fig)"
  unfolding renders_def by (intro exI [of _ "\<lambda>_. [(path, fig)]"]) (simp add: save_figure_def modifyA_def)

lemma renders_lift: "(\<And>x. renders (f x)) \<Longrightarrow> renders (bindA (liftA r) f)"
proof (cases r)
  case (Inl e)
  then show ?thesis by (simp add: renders_def bindA_def liftA_def)
qed simp

lemma renders_get:
  assumes g: "raw_only g" and f: "\<And>x. renders (f x)"
  shows "renders (bindA (getA g) f)"
proof -
  have "\<forall>x. \<exists>W. \<forall>ds t. raw ds = raw t \<longrightarrow> fst (f x ds) = fst (f x t) \<and>
      (fst (f x ds) = Inr () \<longrightarrow> f x t = (Inr (), write_all (W (raw ds)) t))"
    using f by (simp add: renders_def)
  from choice [OF this] obtain W where W: "\<And>x ds t. raw ds = raw t \<Longrightarrow> fst (f x ds) = fst (f x t) \<and>
      (fst (f x ds) = Inr () \<longrightarrow> f x t = (Inr (), write_all (W x (raw ds)) t))"
    by blast
  have "fst (bindA (getA g) f ds) = fst (bindA (getA g) f t) \<and>
      (fst (bindA (getA g) f ds) = Inr () \<longrightarrow>
       bindA (getA g) f t = (Inr (), write_all (W (g (undefined\<lparr>raw := raw ds\<rparr>)) (raw ds)) t))"
    if eq: "raw ds = raw t" for ds t
  proof -
    have "g (undefined\<lparr>raw := raw ds\<rparr>) = g ds" by (rule g [unfolded raw_only_def, rule_format]) simp
    moreover have "g t = g ds" by (rule g [unfolded raw_only_def, rule_format]) (simp add: eq)
    ultimately show ?thesis using W [OF eq, of "g ds"] by simp
  qed
  then show ?thesis unfolding renders_def by (intro exI [of _ "\<lambda>r. W (g (undefined\<lparr>raw := r\<rparr>)) r"]) blast
qed

lemma renders_seq:
  assumes m: "renders m" and n: "renders n"
  shows "renders (bindA m (\<lambda>_. n))"
proof -
  from m obtain V where V: "\<And>ds t. raw ds = raw t \<Longrightarrow> fst (m ds) = fst (m t) \<and>
      (fst (m ds) = Inr () \<longrightarrow> m t = (Inr (), write_all (V (raw ds)) t))"
    unfolding renders_def by blast
  from n obtain W where W: "\<And>ds t. raw ds = raw t \<Longrightarrow> fst (n ds) = fst (n t) \<and>
      (fst (n ds) = Inr () \<longrightarrow> n t = (Inr (), write_all (W (raw ds)) t))"
    unfolding renders_def by blast
  have "fst (bindA m (\<lambda>_. n) ds) = fst (bindA m (\<lambda>_. n) t) \<and>
      (fst (bindA m (\<lambda>_. n) ds) = Inr () \<longrightarrow>
       bindA m (\<lambda>_. n) t = (Inr (), write_all (V (raw ds) @ W (raw ds)) t))" if eq: "raw ds = raw t" for ds t
  proof (cases "fst (m ds)")
    case (Inl e)
    with V [OF eq] show ?thesis by (auto simp: bindA_def split: prod.splits sum.splits)
  next
    case (Inr u)
    then have "m ds = (Inr (), write_all (V (raw ds)) ds)" "m t = (Inr (), write_all (V (raw ds)) t)"
      using V [OF refl, of ds] V [OF eq] by simp_all
    moreover have "raw (write_all (V (raw ds)) ds) = raw (write_all (V (raw ds)) t)" "raw (write_all (V (raw ds)) ds) = raw ds"
      using eq by simp_all
    ultimately show ?thesis
      using W [of "write_all (V (raw ds)) ds" "write_all (V (raw ds)) t"] by (auto simp: bindA_def comp_def)
  qed
  then show ?thesis unfolding renders_def by (intro exI [of _ "\<lambda>r. V r @ W r"]) blast
qed

lemma renders_for: "(\<And>x. x \<in> set xs \<Longrightarrow> renders (f x)) \<Longrightarrow> renders (forA xs f)"
  by (induction xs) (simp_all add: renders_return renders_seq)

lemmas renders_intros = renders_return renders_save_figure renders_lift renders_get renders_seq renders_for raw_only_runs

lemma renders_save: "renders (save fig path)"
  unfolding save_def by (rule renders_save_figure)

lemma renders_boxplot_of: "renders (boxplot_of values ttl ylabel unit path)"
  unfolding boxplot_of_def by (auto intro: renders_intros renders_save)

lemma renders_wrk: "renders (generate summary)"
  unfolding generate_def wrk_plot_defs wrk_boxplot_def throughput_errorbar_def
  by (intro renders_intros renders_save renders_boxplot_of)

lemma renders_vegeta: "renders (vegeta_generate summary)"
proof -
  have "renders (vegeta_latency_boxplot tool path)" for tool path
    unfolding vegeta_latency_boxplot_def vegeta_annotate_boxplot_def vegeta_save_def boxplot_of_def [symmetric]
    by (intro renders_intros renders_boxplot_of)
  moreover have "renders (latency_percentiles summary path)" for path
    unfolding latency_percentiles_def vegeta_save_def
    by (intro renders_lift) (auto intro!: renders_intros renders_save)
  moreover have "renders (latency_histogram tool path)" for tool path
    unfolding latency_histogram_def vegeta_save_def Let_def
    by (intro renders_get raw_only_runs) (auto intro: renders_intros renders_save)
  ultimately show ?thesis
    unfolding vegeta_generate_def
    by (intro renders_lift) (auto intro!: renders_return renders_get raw_only_runs renders_seq)
qed

lemma renders_timeseries_of: "renders (timeseries_of js ttl ylabel path)"
proof -
  have "renders (plot_band a b c ttl ylabel path)" for a b c
    unfolding plot_band_def sys_save_def by (auto intro!: renders_intros renders_save)
  then show ?thesis
    unfolding timeseries_of_def by (auto intro!: renders_return renders_lift split: prod.split)
qed

lemma renders_system: "renders sys_generate"
proof -
  have series: "renders (pidstat_timeseries f ttl ylabel tool path)" "renders (vmstat_timeseries key ttl ylabel tool path)"
    for f key ttl ylabel tool path
    unfolding pidstat_timeseries_def vmstat_timeseries_def by (intro renders_intros renders_timeseries_of)+
  have "renders (sys_boxplot vs ttl ylabel path unit)" for vs ttl ylabel path unit
    unfolding sys_boxplot_def sys_save_def by (auto intro!: renders_intros renders_save)
  then have "renders (pidstat_distribution f ttl ylabel unit tool path)" for f ttl ylabel unit tool path
    unfolding pidstat_distribution_def by (intro renders_intros)
  then have "renders (forA tool_plots (\<lambda>(plot, file). plot tool [''system'', tool, file]))" for tool
    by (intro renders_for) (auto simp: tool_plots_def plot_function_defs series)
  then have "renders (generate_for_tool tool)" for tool
    unfolding generate_for_tool_def by (intro renders_get raw_only_runs) (auto intro: renders_return)
  then show ?thesis
    unfolding sys_generate_def
    by (intro renders_get raw_only_runs) (auto intro!: renders_return renders_for split: option.split)
qed

text \<open>Writing the same images a second time changes nothing.\<close>

abbreviation write_images :: "(string list \<times> figure) list \<Rightarrow> (string list \<times> figure) list \<Rightarrow> (string list \<times> figure) list" where
  "write_images \<equiv> fold (\<lambda>(p, fig). AList.update p fig)"

lemma alist_eqI:
  assumes "map fst xs = map fst ys" and "distinct (map fst xs)" and "map_of xs = map_of ys"
  shows "xs = ys"
proof (rule nth_equalityI)
  show len: "length xs = length ys" using assms(1) by (metis length_map)
  fix i assume i: "i < length xs"
  have k: "fst (xs ! i) = fst (ys ! i)" using assms(1) i len by (metis nth_map)
  have "map_of xs (fst (xs ! i)) = Some (snd (xs ! i))"
    by (rule map_of_is_SomeI) (use assms i in simp_all)
  moreover have "map_of ys (fst (ys ! i)) = Some (snd (ys ! i))"
    by (rule map_of_is_SomeI) (use assms i len in simp_all)
  ultimately show "xs ! i = ys ! i" using assms(3) k by (simp add: prod_eq_iff)
qed

lemma write_images_get: "map_of (write_images w ps) p = (case map_of (rev w) p of None \<Rightarrow> map_of ps p | Some fig \<Rightarrow> Some fig)"
proof (induction w arbitrary: ps)
  case (Cons x w)
  show ?case by (cases x) (auto simp: Cons.IH update_conv' map_add_def split: option.splits)
qed simp

lemma write_images_present: "fst ` set w \<subseteq> fst ` set ps \<Longrightarrow> map fst (write_images w ps) = map fst ps"
proof (induction w arbitrary: ps)
  case (Cons x w)
  then have "map fst (AList.update (fst x) (snd x) ps) = map fst ps"
    by (intro fst_update_present) (auto simp: map_of_eq_None_iff)
  note keys = this
  then have "fst ` set w \<subseteq> fst ` set (AList.update (fst x) (snd x) ps)"
    using Cons.prems by (auto simp: image_paths_update)
  from Cons.IH [OF this] keys show ?case by (simp add: case_prod_beta)
qed simp

lemma write_images_keys: "fst ` set (write_images w ps) = fst ` set ps \<union> fst ` set w"
  by (induction w arbitrary: ps) (auto simp: image_paths_update case_prod_beta)

lemma distinct_write_images: "distinct (map fst ps) \<Longrightarrow> distinct (map fst (write_images w ps))"
  by (induction w arbitrary: ps) (auto simp: case_prod_beta intro!: distinct_update)

lemma write_images_twice:
  assumes "distinct (map fst ps)"
  shows "write_images w (write_images w ps) = write_images w ps"
proof (rule alist_eqI)
  show "map fst (write_images w (write_images w ps)) = map fst (write_images w ps)"
    by (rule write_images_present) (simp add: write_images_keys)
  then show "distinct (map fst (write_images w (write_images w ps)))"
    using distinct_write_images [OF assms] by simp
  show "map_of (write_images w (write_images w ps)) = map_of (write_images w ps)"
    by (rule ext) (simp add: write_images_get split: option.split)
qed

section \<open>The interface of the plotting modules\<close>

text \<open>
  What \<^verbatim>\<open>analyze.py\<close> relies on of a \<^verbatim>\<open>generate\<close> function: it changes nothing but images, and what it
  writes is determined by \<^verbatim>\<open>raw/\<close>. Two such functions in sequence are one.
\<close>

locale plotter =
  fixes gen :: "(dataset, unit) action"
  assumes frame: "keeps no_plots gen"
    and repeatable: "renders gen"
begin

lemma rest: "gen ds = (r, t) \<Longrightarrow> no_plots t = no_plots ds"
  by (rule keeps_snd [OF frame])

lemma writes:
  obtains W where "\<And>ds t. gen ds = (Inr (), t) \<Longrightarrow> t = write_all (W (raw ds)) ds"
    and "\<And>ds t u. gen ds = (Inr (), t) \<Longrightarrow> raw u = raw ds \<Longrightarrow> gen u = (Inr (), write_all (W (raw ds)) u)"
proof -
  obtain W where W: "\<And>ds t. raw ds = raw t \<Longrightarrow> fst (gen ds) = fst (gen t) \<and>
      (fst (gen ds) = Inr () \<longrightarrow> gen t = (Inr (), write_all (W (raw ds)) t))"
    using repeatable unfolding renders_def by blast
  show thesis
  proof (rule that)
    show "t = write_all (W (raw ds)) ds" if "gen ds = (Inr (), t)" for ds t
      using W [of ds ds] that by simp
    show "gen u = (Inr (), write_all (W (raw ds)) u)" if "gen ds = (Inr (), t)" "raw u = raw ds" for ds t u
    proof -
      have "fst (gen ds) = Inr ()" using that(1) by simp
      then show ?thesis by (rule W [OF that(2) [symmetric], THEN conjunct2, rule_format])
    qed
  qed
qed

text \<open>Once it has drawn, drawing again from the same raw data changes nothing.\<close>

lemma again:
  assumes "distinct (map fst (plots ds))" and "gen ds = (Inr (), v)" and "raw t = raw v" and "plots t = plots v"
  shows "gen t = (Inr (), t)"
proof -
  obtain W where W: "\<And>ds t. gen ds = (Inr (), t) \<Longrightarrow> t = write_all (W (raw ds)) ds"
    "\<And>ds t u. gen ds = (Inr (), t) \<Longrightarrow> raw u = raw ds \<Longrightarrow> gen u = (Inr (), write_all (W (raw ds)) u)"
    using writes by blast
  have v: "v = write_all (W (raw ds)) ds" by (rule W(1) [OF assms(2)])
  have "raw t = raw ds" using assms(3) v by simp
  moreover have "write_all (W (raw ds)) t = t"
    using assms(4) v write_images_twice [OF assms(1)] by simp
  ultimately show ?thesis using W(2) [OF assms(2), of t] by simp
qed

lemma distinct_images:
  assumes "distinct (map fst (plots ds))" and "gen ds = (Inr (), v)"
  shows "distinct (map fst (plots v))"
proof -
  obtain W where W: "\<And>ds t. gen ds = (Inr (), t) \<Longrightarrow> t = write_all (W (raw ds)) ds"
    "\<And>ds t u. gen ds = (Inr (), t) \<Longrightarrow> raw u = raw ds \<Longrightarrow> gen u = (Inr (), write_all (W (raw ds)) u)"
    using writes by blast
  show ?thesis unfolding W(1) [OF assms(2)] using distinct_write_images [OF assms(1)] by simp
qed

end

locale plotter_pair = first: plotter gen + second: plotter gen' for gen gen'

sublocale plotter_pair \<subseteq> both: plotter "bindA gen (\<lambda>_. gen')"
  by unfold_locales
    (intro keeps_bind first.frame second.frame, intro renders_seq first.repeatable second.repeatable)

context plotter_pair
begin

lemmas both_plotter = both.plotter_axioms

end

lemma keeps_vegeta_generate: "keeps no_plots (vegeta_generate summary)"
proof (cases "contains summary ''vegeta''")
  case (Inl e)
  then show ?thesis by (simp add: vegeta_generate_def keeps_def bindA_def liftA_def)
next
  case (Inr b)
  show ?thesis
  proof (cases b)
    case True
    with Inr show ?thesis by (intro draws_keeps [OF draws_vegeta_generate]) simp
  next
    case False
    with Inr show ?thesis by (simp add: vegeta_generate_def)
  qed
qed

lemma keeps_sys_generate: "keeps no_plots sys_generate"
proof -
  have "keeps no_plots (case es of None \<Rightarrow> returnA () | Some entries \<Rightarrow> forA (by_name entries) (\<lambda>(tool, entry).
         if \<not> is_dir entry then returnA () else generate_for_tool tool))" for es :: "(string \<times> tool_dir node) list option"
    by (cases es) (auto intro: draws_keeps [OF draws_tools])
  then show ?thesis unfolding sys_generate_def by (auto intro: keeps_bind)
qed

interpretation wrk_plotter: plotter "generate summary" for summary
  by unfold_locales (rule draws_keeps [OF draws_generate], rule renders_wrk)

interpretation vegeta_plotter: plotter "vegeta_generate summary" for summary
  by unfold_locales (rule keeps_vegeta_generate, rule renders_vegeta)

interpretation system_plotter: plotter sys_generate
  by unfold_locales (rule keeps_sys_generate, rule renders_system)

lemma plotter_if: "plotter m \<Longrightarrow> plotter (if b then m else returnA ())"
  by (cases b) (auto intro: plotter.intro renders_return)

lemma plotter_seq: "plotter m \<Longrightarrow> plotter n \<Longrightarrow> plotter (bindA m (\<lambda>_. n))"
  by (rule plotter_pair.both_plotter) (rule plotter_pair.intro)

interpretation all_plotter: plotter "generate_plots summary" for summary
  unfolding generate_plots_def
  by (intro plotter_seq plotter_if wrk_plotter.plotter_axioms vegeta_plotter.plotter_axioms system_plotter.plotter_axioms)

section \<open>The pipeline\<close>

text \<open>What a file system guarantees of the lists of a dataset: no path and no tool directory twice.\<close>

definition wf_dataset :: "dataset \<Rightarrow> bool" where
  "wf_dataset ds \<longleftrightarrow> distinct (map fst (plots ds)) \<and> (case raw ds of None \<Rightarrow> True | Some es \<Rightarrow> distinct (map fst es))"

lemma glob_runs_name:
  "name \<in> set (dict_keys (glob_runs runs)) \<longleftrightarrow> dict_get runs name \<noteq> None \<and> is_prefix ''run-'' name"
  unfolding names_glob_runs set_sort set_filter mem_Collect_eq pydict.keys_get ..

lemma run_keys_iff:
  assumes "wf_dataset ds"
  shows "(tool, name) \<in> set (run_keys ds) \<longleftrightarrow> run_at tool name ds \<noteq> None \<and> is_prefix ''run-'' name"
proof (cases "raw ds")
  case None
  then show ?thesis by (simp add: run_keys_def run_at_def tool_entry_def)
next
  case (Some es)
  then have "distinct (map fst es)" using assms by (simp add: wf_dataset_def)
  then have mem: "(tool, entry) \<in> set es \<longleftrightarrow> map_of es tool = Some entry" for entry by simp
  have "(tool, name) \<in> set (run_keys ds) \<longleftrightarrow> (\<exists>runs. map_of es tool = Some (Dir runs) \<and> name \<in> set (run_names ds tool))"
  proof -
    have "(tool, name) \<in> set (run_keys ds) \<longleftrightarrow> (\<exists>entry. (tool, entry) \<in> set es \<and> is_dir entry \<and> name \<in> set (run_names ds tool))"
      using Some by (force simp: run_keys_def split: if_splits)
    then show ?thesis by (metis is_dir.elims(2) is_dir.simps(2) mem)
  qed
  also have "\<dots> \<longleftrightarrow> run_at tool name ds \<noteq> None \<and> is_prefix ''run-'' name"
    using Some
    by (auto simp: run_names_def tool_runs_def tool_entry_def run_at_def glob_runs_name
        simp del: set_map split: option.splits node.splits)
  finally show ?thesis .
qed

lemma wf_set_run: "wf_dataset ds \<Longrightarrow> wf_dataset (set_run tool name n ds)"
  by (auto simp: wf_dataset_def set_run_def distinct_update split: option.splits node.splits)

lemma wf_parse_keys: "wf_dataset ds \<Longrightarrow> parse_keys ks ds = (r, t) \<Longrightarrow> wf_dataset t"
proof (induction ks arbitrary: ds)
  case Nil
  then show ?case by (simp add: returnA_def)
next
  case (Cons k ks)
  obtain tool name where k: "k = (tool, name)" by fastforce
  obtain e where run: "parse_run_dir tool name ds = (if parses (run_at tool name ds)
     then (Inr (), set_run tool name (reparse (the (run_at tool name ds))) ds) else (Inl e, ds))"
    using parse_run_dir_eq by blast
  with Cons show ?case
    using wf_set_run [OF Cons.prems(1)] k by (auto simp: bindA_def split: if_splits)
qed

lemma parse_keys_fixed:
  "(\<And>T N. (T, N) \<in> set ks \<Longrightarrow> parses (run_at T N ds) \<and> map_option reparse (run_at T N ds) = run_at T N ds) \<Longrightarrow>
    parse_keys ks ds = (Inr (), ds)"
proof (induction ks)
  case Nil
  then show ?case by (simp add: returnA_def)
next
  case (Cons k ks)
  obtain tool name where k: "k = (tool, name)" by fastforce
  have "parses (run_at tool name ds)" and fixed: "map_option reparse (run_at tool name ds) = run_at tool name ds"
    using Cons.prems k by auto
  then obtain node where node: "run_at tool name ds = Some node" "reparse node = node" by (auto simp: parses_def)
  then have "parse_run_dir tool name ds = (Inr (), ds)"
    using parse_run_dir_eq [of tool name ds] set_run_same [OF node(1)] \<open>parses _\<close> by auto
  with Cons k show ?case by (simp add: bindA_def)
qed

lemma parse_runs_twice:
  assumes "wf_dataset ds" and "parse_runs ds = (Inr (), t)"
    and "raw u = raw t" and "plots u = plots' " and "distinct (map fst plots')"
  shows "parse_runs u = (Inr (), u)"
proof -
  have "wf_dataset t" using wf_parse_keys [OF assms(1)] assms(2) by (simp add: parse_runs_keys)
  then have wfu: "wf_dataset u" using assms(3-5) by (simp add: wf_dataset_def)
  have at: "run_at T N u = run_at T N t" for T N using assms(3) by (simp add: run_at_def tool_entry_def)
  note spec = parse_keys_spec [OF assms(2) [unfolded parse_runs_keys]]
  have "parses (run_at T N u) \<and> map_option reparse (run_at T N u) = run_at T N u" if "(T, N) \<in> set (run_keys u)" for T N
  proof -
    have "run_at T N ds \<noteq> None" "is_prefix ''run-'' N"
      using that run_keys_iff [OF wfu] at spec by (metis option.map_disc_iff)+
    then have key: "(T, N) \<in> set (run_keys ds)" using run_keys_iff [OF assms(1)] by blast
    then have "parses (run_at T N ds)" "run_at T N t = map_option reparse (run_at T N ds)" using spec by auto
    then show ?thesis by (cases "run_at T N ds") (simp_all add: at parses_reparse [of "Some _", simplified] flip: option.map_comp)
  qed
  then show ?thesis unfolding parse_runs_keys by (rule parse_keys_fixed)
qed

text \<open>A return of \<^verbatim>\<open>analyze\<close> has gone through all four stages.\<close>

lemma analyze_returns:
  assumes "analyze ds = (Inr (), t)"
  obtains u s v tree where "parse_runs ds = (Inr (), u)" and "build_summary u = Inr s"
    and "generate_plots s u = (Inr (), v)" and "collect_plot_paths v = Inr tree"
    and "t = v\<lparr>summary_json := Doc (JObj (dict_put ''plots'' tree s))\<rparr>"
proof -
  obtain u where u: "parse_runs ds = (Inr (), u)"
    using assms by (auto simp: analyze_def bindA_def split: prod.splits sum.splits)
  obtain s where s: "build_summary u = Inr s"
    using assms u by (auto simp: analyze_def bindA_def getA_def liftA_def split: prod.splits sum.splits)
  obtain v where v: "generate_plots s u = (Inr (), v)"
    using assms u s by (auto simp: analyze_def bindA_def getA_def liftA_def split: prod.splits sum.splits)
  have "save_summary s v = (Inr (), t)"
    using assms u s v by (simp add: analyze_def bindA_def getA_def liftA_def)
  then obtain tree where "collect_plot_paths v = Inr tree" "t = v\<lparr>summary_json := Doc (JObj (dict_put ''plots'' tree s))\<rparr>"
    by (auto simp: save_summary_def action_defs split: sum.splits)
  with u s v show thesis by (rule that)
qed

lemma build_summary_cong: "metadata_json ds = metadata_json t \<Longrightarrow> raw ds = raw t \<Longrightarrow> build_summary ds = build_summary t"
proof -
  assume m: "metadata_json ds = metadata_json t" and r: "raw ds = raw t"
  have "tool_entry tool ds = tool_entry tool t" "tool_runs tool ds = tool_runs tool t" for tool
    using r by (simp_all add: tool_entry_def tool_runs_def)
  then have "summarize_tool tool f ds d = summarize_tool tool f t d" for tool f d
    unfolding summarize_tool_def by (simp only:)
  with m show ?thesis by (simp add: build_summary_def)
qed

lemma collect_cong: "plots ds = plots t \<Longrightarrow> collect_plot_paths ds = collect_plot_paths t"
  by (simp add: collect_plot_paths_def images_def)

text \<open>C12. Analysis is idempotent. Once \<^verbatim>\<open>analyze\<close> has returned, running it again returns too and leaves
  every file of the dataset as it is: the parsed runs, the images and the summary are functions of
  the raw outputs and the metadata.\<close>

theorem analyze_idempotent:
  assumes "wf_dataset ds" and "analyze ds = (Inr (), t)"
  shows "analyze t = (Inr (), t)"
proof -
  obtain u s v tree where u: "parse_runs ds = (Inr (), u)" and s: "build_summary u = Inr s"
    and v: "generate_plots s u = (Inr (), v)" and tree: "collect_plot_paths v = Inr tree"
    and t: "t = v\<lparr>summary_json := Doc (JObj (dict_put ''plots'' tree s))\<rparr>"
    using analyze_returns [OF assms(2)] .
  have wfu: "distinct (map fst (plots u))"
    using wf_parse_keys [OF assms(1)] u by (simp add: parse_runs_keys wf_dataset_def)
  have t_eq: "raw t = raw v" "plots t = plots v" "raw v = raw u" "metadata_json t = metadata_json u"
    using all_plotter.rest [OF v] by (simp_all add: t no_plots_def)
  have "parse_runs t = (Inr (), t)"
    by (rule parse_runs_twice [OF assms(1) u _ t_eq(2)])
      (simp add: t_eq, rule all_plotter.distinct_images [OF wfu v])
  moreover have "build_summary t = Inr s" using s build_summary_cong t_eq by metis
  moreover have "generate_plots s t = (Inr (), t)" by (rule all_plotter.again [OF wfu v t_eq(1,2)])
  moreover have "collect_plot_paths t = Inr tree" using tree collect_cong [of t v] t by simp
  ultimately show ?thesis
    by (simp add: analyze_def bindA_def getA_def liftA_def save_summary_def modifyA_def) (simp add: t)
qed

text \<open>C16. A failed analysis leaves the old summary. Whether \<^verbatim>\<open>analyze\<close> returns or raises, it never touches
  \<^verbatim>\<open>metadata.json\<close> or the report; and unless it returns, \<^verbatim>\<open>summary.json\<close> is what it was before.\<close>

theorem analyze_failure_keeps_summary:
  assumes "analyze ds = (r, t)"
  shows "metadata_json t = metadata_json ds \<and> report_md t = report_md ds \<and>
    (r = Inr () \<or> summary_json t = summary_json ds)"
proof -
  obtain r1 u where u: "parse_runs ds = (r1, u)" by fastforce
  have fu: "no_raw u = no_raw ds"
    using keeps_snd [OF keeps_parse_keys(1) u [unfolded parse_runs_keys]] .
  show ?thesis
  proof (cases "r1 = Inr () \<and> (\<exists>s. build_summary u = Inr s)")
    case False
    then have "t = u" using assms u
      by (auto simp: analyze_def bindA_def getA_def liftA_def split: sum.splits prod.splits)
    then show ?thesis using fu by (simp add: no_raw_def)
  next
    case True
    then obtain s where s: "build_summary u = Inr s" by blast
    obtain r2 v where v: "generate_plots s u = (r2, v)" by fastforce
    note fv = all_plotter.rest [OF v]
    show ?thesis
    proof (cases "r2 = Inr () \<and> (\<exists>tree. collect_plot_paths v = Inr tree)")
      case False
      then have "t = v" using assms u s v True
        by (auto simp: analyze_def bindA_def getA_def liftA_def save_summary_def split: sum.splits prod.splits)
      then show ?thesis using fu fv by (simp add: no_raw_def no_plots_def)
    next
      case ok: True
      then show ?thesis using assms u s v True fu fv
        by (auto simp: analyze_def action_defs save_summary_def no_raw_def no_plots_def split: sum.splits prod.splits)
    qed
  qed
qed

definition example_metadata :: json where
  "example_metadata = JObj
     [(''benchmark'', JObj (map (\<lambda>k. (k, JStr k)) [''id'', ''title'', ''protocol'', ''url'', ''threads'', ''connections'',
         ''duration'', ''warmup'', ''iterations''])),
      (''system'', JObj (map (\<lambda>k. (k, JStr k)) [''timestamp'', ''hostname'', ''cpu'', ''logical_cpus'', ''memory'', ''os'', ''kernel''])),
      (''git'', JObj [(''branch'', JStr ''main''), (''commit'', JStr ''abc'')])]"

definition replotted :: dataset where
  "replotted = \<lparr>metadata_json = Doc example_metadata, raw = None, plots = [([''system'', ''wrk'', ''cpu.png''], [])],
     summary_json = Absent, report_md = None\<rparr>"

theorem analyze_idempotent_witness:
  "\<exists>t. analyze replotted = (Inr (), t) \<and> summary_json t \<noteq> Absent \<and> analyze t = (Inr (), t)"
proof -
  have run: "fst (analyze replotted) = Inr ()" "summary_json (snd (analyze replotted)) \<noteq> Absent" by code_simp+
  have "wf_dataset replotted" by code_simp
  moreover have "analyze replotted = (Inr (), snd (analyze replotted))" using run(1) by (metis prod.collapse)
  ultimately show ?thesis using analyze_idempotent run(2) by blast
qed

theorem analyze_failure_keeps_summary_witness:
  "let ds = replotted\<lparr>metadata_json := Garbled, summary_json := Doc JNull\<rparr>
   in fst (analyze ds) \<noteq> Inr () \<and> summary_json (snd (analyze ds)) = Doc JNull"
proof -
  let ?ds = "replotted\<lparr>metadata_json := Garbled, summary_json := Doc JNull\<rparr>"
  have "fst (analyze ?ds) \<noteq> Inr ()" by code_simp
  moreover have "summary_json ?ds = Doc JNull" by simp
  ultimately show ?thesis
    using analyze_failure_keeps_summary [of ?ds, OF surjective_pairing] by (simp add: Let_def)
qed

end
