(* ===== verification/Report.thy ===== *)
theory Report
  imports Analyze
begin

text \<open>
  \<^verbatim>\<open>docs/benchmarking/analysis/report_generator.py\<close>: the Markdown draft written from \<^verbatim>\<open>summary.json\<close>. The
  \<^verbatim>\<open>Markdown\<close> object is its list of lines, and every section is an action on it; the report is written
  only after the last section. Non-ASCII text is its UTF-8 bytes.
\<close>

section \<open>Markdown writer\<close>

type_synonym markdown = "string list"
type_synonym writer = "(markdown, unit) action"

definition md_write :: "string \<Rightarrow> writer" where
  "md_write line = modifyA (\<lambda>lines. lines @ [line])"

definition md_heading :: "string \<Rightarrow> nat \<Rightarrow> writer" where
  "md_heading ttl level = bindA (md_write (replicate level CHR ''#'' @ '' '' @ ttl)) (\<lambda>_. md_write [])"

definition table_row :: "string list \<Rightarrow> string" where
  "table_row cells = ''| '' @ join '' | '' cells @ '' |''"

definition md_table :: "string list \<Rightarrow> json list list \<Rightarrow> writer" where
  "md_table headers rows =
     bindA (md_write (table_row headers)) (\<lambda>_.
     bindA (md_write (''|'' @ join ''|'' (replicate (length headers) ''---'') @ ''|'')) (\<lambda>_.
     bindA (forA rows (\<lambda>row. bindA (liftA (mapE py_str row)) (\<lambda>cells. md_write (table_row cells)))) (\<lambda>_.
     md_write [])))"

definition md_bullet :: "string \<Rightarrow> writer" where
  "md_bullet s = md_write (''- '' @ s)"

definition md_image :: "string \<Rightarrow> string option \<Rightarrow> writer" where
  "md_image path ttl =
     bindA (case ttl of
         Some s \<Rightarrow> if s = [] then returnA () else bindA (md_write (''**'' @ s @ ''**'')) (\<lambda>_. md_write [])
       | None \<Rightarrow> returnA ()) (\<lambda>_.
     bindA (md_write (''![]('' @ path @ '')'')) (\<lambda>_. md_write []))"

definition md_code :: "string \<Rightarrow> writer" where
  "md_code s = bindA (md_write ''```'') (\<lambda>_. bindA (md_write (rstrip s)) (\<lambda>_.
     bindA (md_write ''```'') (\<lambda>_. md_write [])))"

text \<open>\<^verbatim>\<open>md.bold(...)\<close>: the class has no such method.\<close>

definition md_bold :: "string \<Rightarrow> writer" where
  "md_bold s = liftA (Inl (AttributeError ''bold''))"

definition md_save :: "markdown \<Rightarrow> (dataset, unit) action" where
  "md_save lines = modifyA (report_md_update (\<lambda>_. Some (join newline lines)))"

text \<open>A multi-line string literal, and the em dash.\<close>

definition text_lines :: "string list \<Rightarrow> string" where
  "text_lines ls = join newline ls"

definition em_dash :: string where
  "em_dash = [CHR 0xE2, CHR 0x80, CHR 0x94]"

section \<open>Helpers\<close>

definition load_summary :: "dataset \<Rightarrow> json result" where
  "load_summary ds = load_json ''summary.json'' (summary_json ds)"

fun metric :: "json \<Rightarrow> string result" where
  "metric (JNum (PFloat r)) = Inr (format_fixed 3 r)"
| "metric j = py_str j"

text \<open>A table literal: rows of a label and an expression that may raise, evaluated top to bottom.\<close>

definition label_rows :: "(string \<times> json result) list \<Rightarrow> json list list result" where
  "label_rows rs = mapE (\<lambda>(label, r). bindE r (\<lambda>v. Inr [JStr label, v])) rs"

definition table_of :: "string list \<Rightarrow> (string \<times> json result) list \<Rightarrow> writer" where
  "table_of headers rs = bindA (liftA (label_rows rs)) (md_table headers)"

section \<open>Benchmark information\<close>

definition benchmark_information :: "json \<Rightarrow> writer" where
  "benchmark_information summary =
     bindA (liftA (getitem summary ''metadata'')) (\<lambda>metadata.
     bindA (liftA (getitem summary ''workload'')) (\<lambda>workload.
     bindA (liftA (getitem summary ''environment'')) (\<lambda>environment.
     bindA (md_heading ''Benchmark Information'' 1) (\<lambda>_.
     table_of [''Field'', ''Value'']
       [(''Benchmark ID'', getitem metadata ''id''),
        (''Title'', getitem metadata ''title''),
        (''Date'', getitem metadata ''timestamp''),
        (''Git Branch'', getitem metadata ''git_branch''),
        (''Git Commit'', getitem metadata ''git_commit''),
        (''Protocol'', getitem workload ''protocol''),
        (''URL'', getitem workload ''url''),
        (''Threads'', getitem workload ''threads''),
        (''Connections'', getitem workload ''connections''),
        (''Duration'', getitem workload ''duration''),
        (''Iterations'', getitem workload ''iterations''),
        (''CPU'', getitem environment ''cpu''),
        (''Logical CPUs'', getitem environment ''logical_cpus''),
        (''Memory'', getitem environment ''memory''),
        (''Operating System'', getitem environment ''os''),
        (''Kernel'', getitem environment ''kernel'')]))))"

section \<open>Template sections\<close>

definition placeholder :: "string \<Rightarrow> string \<Rightarrow> writer" where
  "placeholder ttl suggestion =
     bindA (md_heading ttl 1) (\<lambda>_. bindA (md_write ''TODO'') (\<lambda>_. bindA (md_write []) (\<lambda>_.
     bindA (md_write suggestion) (\<lambda>_. md_write []))))"

fun str_upper :: "json \<Rightarrow> string result" where
  "str_upper (JStr s) = Inr (upper s)"
| "str_upper _ = Inl (AttributeError ''upper'')"

definition objective :: "json \<Rightarrow> writer" where
  "objective summary =
     bindA (liftA (getitem summary ''workload'')) (\<lambda>workload.
     bindA (liftA (bindE (getitem workload ''protocol'') str_upper)) (\<lambda>protocol.
     placeholder ''Objective'' (text_lines [''Suggested objective:'', [],
       ''Evaluate the '' @ protocol @ '' performance of Torus using the configured workload.''])))"

definition background :: writer where
  "background = placeholder ''Background'' (text_lines
     [''Describe why this benchmark was performed.'', [], ''Include:'', ''- Engineering motivation'',
      ''- Related benchmark reports'', ''- Relevant implementation details'', ''- Expected practical impact''])"

definition hypothesis :: writer where
  "hypothesis = placeholder ''Hypothesis'' ''State the engineering hypothesis before running the benchmark.''"

definition experimental_variables :: "json \<Rightarrow> writer" where
  "experimental_variables summary =
     bindA (liftA (getitem summary ''workload'')) (\<lambda>workload.
     bindA (md_heading ''Experimental Variables'' 1) (\<lambda>_.
     bindA (md_heading ''Independent Variable'' 2) (\<lambda>_.
     bindA (md_write ''TODO'') (\<lambda>_.
     bindA (md_write []) (\<lambda>_.
     bindA (md_heading ''Dependent Variables'' 2) (\<lambda>_.
     bindA (forA [''Throughput'', ''Latency'', ''CPU utilisation'', ''Memory utilisation'', ''Context switches''] md_bullet) (\<lambda>_.
     bindA (md_write []) (\<lambda>_.
     bindA (md_heading ''Controlled Variables'' 2) (\<lambda>_.
     table_of [''Variable'', ''Value'']
       [(''Protocol'', getitem workload ''protocol''), (''Threads'', getitem workload ''threads''),
        (''Connections'', getitem workload ''connections''), (''Duration'', getitem workload ''duration''),
        (''Iterations'', getitem workload ''iterations'')])))))))))"

definition system_configuration :: "json \<Rightarrow> writer" where
  "system_configuration summary =
     bindA (liftA (getitem summary ''environment'')) (\<lambda>env.
     bindA (md_heading ''System Configuration'' 1) (\<lambda>_.
     bindA (table_of [''Component'', ''Value'']
       [(''CPU'', getitem env ''cpu''), (''Logical CPUs'', getitem env ''logical_cpus''),
        (''Memory'', getitem env ''memory''), (''Operating System'', getitem env ''os''),
        (''Kernel'', getitem env ''kernel'')]) (\<lambda>_.
     bindA (md_write ''Any deviation from the baseline profiles should be documented in the final report.'') (\<lambda>_.
     md_write []))))"

definition benchmark_configuration :: "json \<Rightarrow> writer" where
  "benchmark_configuration summary =
     bindA (liftA (getitem summary ''workload'')) (\<lambda>workload.
     bindA (md_heading ''Benchmark Configuration'' 1) (\<lambda>_.
     table_of [''Parameter'', ''Value'']
       [(''Protocol'', getitem workload ''protocol''), (''Target URL'', getitem workload ''url''),
        (''Threads'', getitem workload ''threads''), (''Connections'', getitem workload ''connections''),
        (''Duration'', getitem workload ''duration''), (''Warm-up'', getitem workload ''warmup''),
        (''Iterations'', getitem workload ''iterations'')]))"

definition benchmark_procedure :: writer where
  "benchmark_procedure =
     bindA (md_heading ''Benchmark Procedure'' 1) (\<lambda>_.
     bindA (forA [''Start backend server.'', ''Start Torus.'', ''Wait for initialization.'', ''Execute warm-up traffic.'',
        ''Run configured benchmark iterations.'', ''Collect monitoring data.'', ''Generate statistics and plots.''] md_bullet) (\<lambda>_.
     bindA (md_write []) (\<lambda>_.
     bindA (md_write ''Exact benchmark commands are listed in Appendix A.'') (\<lambda>_. md_write []))))"

section \<open>Statistical summary\<close>

definition statistics_rows :: "(string \<times> string) list" where
  "statistics_rows =
     [(''Sample Size'', ''count''), (''Mean'', ''mean''), (''Median'', ''median''), (''Minimum'', ''min''),
      (''Maximum'', ''max''), (''Standard Deviation'', ''stddev''),
      (''Coefficient of Variation (%)'', ''coefficient_of_variation''),
      (''P50'', ''p50''), (''P90'', ''p90''), (''P95'', ''p95''), (''P99'', ''p99'')]"

definition statistics_table :: "string \<Rightarrow> json \<Rightarrow> writer" where
  "statistics_table ttl stats =
     bindA (md_heading ttl 3) (\<lambda>_.
     table_of [''Statistic'', ''Value'']
       (map (\<lambda>(label, key). (label, bindE (getitem stats key) (\<lambda>v. bindE (metric v) (\<lambda>s. Inr (JStr s))))) statistics_rows))"

text \<open>The tables of one tool, left out when its summary is empty.\<close>

definition tool_statistics :: "string \<Rightarrow> (string \<times> string) list \<Rightarrow> json \<Rightarrow> writer" where
  "tool_statistics tool tables summary =
     bindA (liftA (getitem summary tool)) (\<lambda>t.
     if \<not> truthy t then returnA () else
     bindA (md_heading tool 2) (\<lambda>_.
     forA tables (\<lambda>(ttl, key). bindA (liftA (getitem t key)) (statistics_table ttl))))"

definition statistical_summary :: "json \<Rightarrow> writer" where
  "statistical_summary summary =
     bindA (md_heading ''Statistical Summary'' 1) (\<lambda>_.
     bindA (tool_statistics ''wrk''
       [(''Requests / Second'', ''requests_per_sec''), (''Average Latency (ms)'', ''latency_avg_ms''),
        (''Transfer Rate (MB/s)'', ''transfer_mb_per_sec'')] summary) (\<lambda>_.
     tool_statistics ''vegeta''
       [(''Request Rate'', ''rate''), (''Throughput'', ''throughput''), (''Success Ratio'', ''success_ratio''),
        (''Mean Latency (ms)'', ''latency_mean_ms''), (''P50 Latency (ms)'', ''latency_p50_ms''),
        (''P95 Latency (ms)'', ''latency_p95_ms''), (''P99 Latency (ms)'', ''latency_p99_ms''),
        (''Maximum Latency (ms)'', ''latency_max_ms'')] summary))"

section \<open>Plots\<close>

text \<open>One leaf of the plot tree.\<close>

definition plot_item :: "json \<Rightarrow> string result" where
  "plot_item v = (case v of
     JStr s \<Rightarrow> Inr (''- **'' @ title (py_replace ''-'' '' '' (stem s)) @ ''** '' @ em_dash @ '' `'' @ s @ ''`'')
   | _ \<Rightarrow> Inl TypeError)"

definition key_title :: "string \<Rightarrow> string" where
  "key_title key = title (py_replace ''_'' '' '' key)"

lemma size_entry: "(k, v) \<in> set d \<Longrightarrow> size v < size_list (size_prod (\<lambda>_. 0) size) d"
  by (induction d) auto

text \<open>
  \<^verbatim>\<open>sorted(tree)\<close> lists the keys of a \<^verbatim>\<open>dict\<close>. A non-empty string is iterated character by character and
  cannot be indexed by one; the other shapes do not occur in a plot tree.
\<close>

function render_plot_tree :: "json \<Rightarrow> nat \<Rightarrow> writer" where
  "render_plot_tree tree level = (case tree of
     JObj d \<Rightarrow>
       bindA (forA (by_name d) (\<lambda>(key, v).
         if is_obj v
         then bindA (md_heading (key_title key) level) (\<lambda>_. render_plot_tree v (level + 1))
         else bindA (liftA (plot_item v)) md_write)) (\<lambda>_. md_write [])
   | JStr s \<Rightarrow> if s = [] then md_write [] else liftA (Inl TypeError)
   | JList _ \<Rightarrow> liftA (Inl Unmodelled)
   | _ \<Rightarrow> liftA (Inl TypeError))"
  by pat_completeness auto
termination
  by (relation "measure (\<lambda>(tree, level). size tree)") (auto dest!: size_entry)

declare render_plot_tree.simps [simp del]

text \<open>\<^verbatim>\<open>d.get(key, {})\<close>\<close>

abbreviation get_obj :: "json \<Rightarrow> string \<Rightarrow> json result" where
  "get_obj j key \<equiv> dict_get_default j key (JObj [])"

definition embed_plots :: "string \<Rightarrow> string list \<Rightarrow> json \<Rightarrow> writer" where
  "embed_plots tool ordered plots_tree =
     bindA (liftA (get_obj plots_tree tool)) (\<lambda>tree.
     if \<not> truthy tree then returnA () else
     bindA (md_heading tool 2) (\<lambda>_.
     forA ordered (\<lambda>name.
       bindA (liftA (contains tree name)) (\<lambda>b.
       if \<not> b then returnA () else
       bindA (md_bold (key_title name)) (\<lambda>_.
       bindA (md_write []) (\<lambda>_.
       bindA (liftA (bindE (getitem tree name) py_str)) (\<lambda>path.
       bindA (md_image path None) (\<lambda>_.
       md_write []))))))))"

definition wrk_order :: "string list" where
  "wrk_order = [''throughput_boxplot'', ''throughput_errorbar'', ''latency_boxplot'', ''transfer_boxplot'']"

definition vegeta_order :: "string list" where
  "vegeta_order = [''latency_boxplot'', ''latency_histogram'', ''latency_percentiles'']"

definition primary_metrics :: "json \<Rightarrow> writer" where
  "primary_metrics summary =
     bindA (md_heading ''Primary Performance Metrics'' 1) (\<lambda>_.
     bindA (liftA (get_obj summary ''plots'')) (\<lambda>plots_tree.
     bindA (embed_plots ''wrk'' wrk_order plots_tree) (\<lambda>_.
     embed_plots ''vegeta'' vegeta_order plots_tree)))"

fun items :: "json \<Rightarrow> (string \<times> json) list result" where
  "items (JObj d) = Inr d"
| "items _ = Inl (AttributeError ''items'')"

definition supporting_metrics :: "json \<Rightarrow> writer" where
  "supporting_metrics summary =
     bindA (md_heading ''Supporting Performance Metrics'' 1) (\<lambda>_.
     bindA (liftA (get_obj summary ''plots'')) (\<lambda>plots_tree.
     bindA (liftA (get_obj plots_tree ''system'')) (\<lambda>system.
     if \<not> truthy system
     then bindA (md_write ''No supporting system metrics available.'') (\<lambda>_. md_write [])
     else bindA (liftA (items system)) (\<lambda>tools.
       forA tools (\<lambda>(tool, tree). bindA (md_heading tool 2) (\<lambda>_. render_plot_tree tree 2))))))"

section \<open>Closing sections and appendices\<close>

definition threats_to_validity :: writer where
  "threats_to_validity =
     bindA (md_heading ''Threats to Validity'' 1) (\<lambda>_.
     bindA (forA [''Benchmark executed on a specific hardware configuration.'',
       ''Background operating-system activity may influence results.'',
       ''Localhost networking does not represent distributed deployments.'',
       ''Thermal throttling may affect long-running benchmarks.'',
       ''Interpret results within the benchmark scope.''] md_bullet) (\<lambda>_. md_write []))"

definition conclusion :: writer where
  "conclusion = placeholder ''Conclusion'' (text_lines
     [''Summarize the benchmark outcome.'', [], ''Suggested discussion:'', ''- Was the hypothesis supported?'',
      ''- Key performance findings'', ''- Engineering implications''])"

definition future_work :: writer where
  "future_work = placeholder ''Future Work'' (text_lines
     [''Possible follow-up investigations:'', [], ''- Larger workloads'', ''- Multi-node deployment'',
      ''- Different hardware'', ''- Additional benchmark tools'', ''- Performance optimizations''])"

definition reproducibility :: "json \<Rightarrow> writer" where
  "reproducibility summary =
     bindA (md_heading ''Reproducibility'' 1) (\<lambda>_.
     bindA (liftA (getitem summary ''metadata'')) (\<lambda>metadata.
     bindA (liftA (getitem summary ''workload'')) (\<lambda>workload.
     table_of [''Item'', ''Value'']
       [(''Benchmark ID'', getitem metadata ''id''), (''Git Commit'', getitem metadata ''git_commit''),
        (''Git Branch'', getitem metadata ''git_branch''), (''Protocol'', getitem workload ''protocol''),
        (''Threads'', getitem workload ''threads''), (''Connections'', getitem workload ''connections''),
        (''Duration'', getitem workload ''duration''), (''Iterations'', getitem workload ''iterations'')])))"

definition appendix_a :: writer where
  "appendix_a =
     bindA (md_heading (''Appendix A '' @ em_dash @ '' Benchmark Commands'') 1) (\<lambda>_.
     bindA (md_write (''The benchmark was executed using the benchmark automation framework. '' @
       ''Refer to the raw dataset for exact command outputs.'')) (\<lambda>_. md_write []))"

definition appendix_b :: writer where
  "appendix_b =
     bindA (md_heading (''Appendix B '' @ em_dash @ '' Benchmark Data'') 1) (\<lambda>_.
     md_code (text_lines [''raw/'', ''plots/'', ''summary.json'', ''metadata.json'']))"

text \<open>The plot index of \<^verbatim>\<open>_appendix_plot_index\<close>, which no function calls.\<close>

function appendix_plot_index :: "json \<Rightarrow> nat \<Rightarrow> writer" where
  "appendix_plot_index node level = (case node of
     JObj d \<Rightarrow> forA (by_name d) (\<lambda>(key, v). case v of
         JStr s \<Rightarrow> md_bullet (key_title key @ '' '' @ em_dash @ '' `'' @ s @ ''`'')
       | _ \<Rightarrow> bindA (md_heading (key_title key) level) (\<lambda>_. appendix_plot_index v (level + 1)))
   | _ \<Rightarrow> liftA (Inl (AttributeError ''items'')))"
  by pat_completeness auto
termination
  by (relation "measure (\<lambda>(tree, level). size tree)") (auto dest!: size_entry)

declare appendix_plot_index.simps [simp del]

definition appendix_c :: "json \<Rightarrow> writer" where
  "appendix_c summary =
     bindA (md_heading (''Appendix C '' @ em_dash @ '' Visual Artifacts'') 1) (\<lambda>_.
     bindA (liftA (get_obj summary ''plots'')) (\<lambda>plots_tree.
     if \<not> truthy plots_tree
     then bindA (md_write ''No plots generated.'') (\<lambda>_. md_write [])
     else
       bindA (md_write ''The following visual artifacts were generated during analysis.'') (\<lambda>_.
       bindA (md_write []) (\<lambda>_.
       render_plot_tree plots_tree 2))))"

section \<open>Report\<close>

definition report_sections :: "json \<Rightarrow> writer list" where
  "report_sections summary =
     [benchmark_information summary, objective summary, background, hypothesis, experimental_variables summary,
      system_configuration summary, benchmark_configuration summary, benchmark_procedure, statistical_summary summary,
      primary_metrics summary, supporting_metrics summary, threats_to_validity, conclusion, future_work,
      reproducibility summary, appendix_a, appendix_b, appendix_c summary]"

definition report_lines :: "json \<Rightarrow> markdown result" where
  "report_lines summary = (case forA (report_sections summary) id [] of (r, lines) \<Rightarrow> bindE r (\<lambda>_. Inr lines))"

definition generate_report :: "(dataset, unit) action" where
  "generate_report =
     bindA (getA load_summary) (\<lambda>r.
     bindA (liftA r) (\<lambda>summary.
     bindA (liftA (report_lines summary)) md_save))"

text \<open>The command line does not check that the dataset exists: the summary cannot be opened then.\<close>

definition report_main :: "(dataset option, unit) action" where
  "report_main d = (case d of
     None \<Rightarrow> (Inl (FileNotFoundError ''summary.json''), None)
   | Some ds \<Rightarrow> (case generate_report ds of (r, ds') \<Rightarrow> (r, Some ds')))"

section \<open>What a writer appends\<close>

definition emits :: "writer \<Rightarrow> unit result \<Rightarrow> markdown \<Rightarrow> bool" where
  "emits m r new \<longleftrightarrow> (\<forall>lines. m lines = (r, lines @ new))"

lemma emits_write: "emits (md_write s) (Inr ()) [s]"
  by (simp add: emits_def md_write_def modifyA_def)

lemma emits_return: "emits (returnA ()) (Inr ()) []"
  by (simp add: emits_def returnA_def)

lemma emits_fail: "emits (liftA (Inl e)) (Inl e) []"
  by (simp add: emits_def liftA_def)

lemma emits_seq: "emits m (Inr ()) a \<Longrightarrow> emits n r b \<Longrightarrow> emits (bindA m (\<lambda>_. n)) r (a @ b)"
  by (simp add: emits_def bindA_def)

lemma emits_bind: "emits m (Inr ()) a \<Longrightarrow> emits (f ()) r b \<Longrightarrow> emits (bindA m f) r (a @ b)"
  by (simp add: emits_def bindA_def)

lemma emits_stop: "emits m (Inl e) a \<Longrightarrow> emits (bindA m f) (Inl e) a"
  by (simp add: emits_def bindA_def)

lemma emits_for:
  "(\<And>x. x \<in> set xs \<Longrightarrow> emits (f x) (Inr ()) (g x)) \<Longrightarrow> emits (forA xs f) (Inr ()) (concat (map g xs))"
  by (induction xs) (simp_all add: emits_return emits_seq)

lemma emits_heading: "emits (md_heading ttl level) (Inr ()) [replicate level CHR ''#'' @ '' '' @ ttl, []]"
  unfolding md_heading_def using emits_seq [OF emits_write emits_write] by force

section \<open>Numbers in the tables\<close>

text \<open>C37. Numbers in the report. A non-negative float statistic is printed so that the decimal read back
  differs from it by at most half a thousandth, and an integer one is printed exactly.\<close>

theorem metric_accuracy:
  "(0 \<le> x \<longrightarrow> (\<exists>s y. metric (JNum (PFloat x)) = Inr s \<and> parse_decimal s = Inr y \<and> \<bar>y - x\<bar> \<le> 1 / 2000)) \<and>
   (\<exists>s. metric (JNum (PInt n)) = Inr s \<and> py_int s = Inr n)"
  using format_fixed_error [of x 3] by (simp add: py_int_int_str)

theorem metric_accuracy_witness:
  "metric (JNum (PFloat (1 / 8))) = Inr ''0.125'' \<and>
   (\<exists>s y. metric (JNum (PFloat (1 / 8))) = Inr s \<and> parse_decimal s = Inr y \<and> \<bar>y - 1 / 8\<bar> \<le> 1 / 2000)"
proof
  show "metric (JNum (PFloat (1 / 8))) = Inr ''0.125''" by code_simp
  show "\<exists>s y. metric (JNum (PFloat (1 / 8))) = Inr s \<and> parse_decimal s = Inr y \<and> \<bar>y - 1 / 8\<bar> \<le> 1 / 2000"
    using metric_accuracy [of "1 / 8" 0] by simp
qed

section \<open>Tables\<close>

definition pipes :: "string \<Rightarrow> nat" where
  "pipes s = length (filter (\<lambda>c. c = CHR ''|'') s)"

lemma pipes_simps [simp]: "pipes [] = 0" "pipes (c # s) = (if c = CHR ''|'' then 1 else 0) + pipes s"
    "pipes (s @ t) = pipes s + pipes t"
  by (simp_all add: pipes_def)

lemma pipes_join: "(\<And>c. c \<in> set cells \<Longrightarrow> pipes c = 0) \<Longrightarrow> cells \<noteq> [] \<Longrightarrow>
    pipes (join sep cells) = (length cells - 1) * pipes sep"
  by (induction sep cells rule: join.induct) auto

lemma pipes_table_row:
  "(\<And>c. c \<in> set cells \<Longrightarrow> pipes c = 0) \<Longrightarrow> cells \<noteq> [] \<Longrightarrow> pipes (table_row cells) = length cells + 1"
  using pipes_join [of cells "'' | ''"] by (cases cells) (auto simp: table_row_def pipes_def)

lemma emits_table:
  assumes "mapE (mapE py_str) rows = Inr cells"
  shows "emits (md_table headers rows) (Inr ())
    ([table_row headers, ''|'' @ join ''|'' (replicate (length headers) ''---'') @ ''|''] @ map table_row cells @ [[]])"
proof -
  have "emits (forA rows (\<lambda>row. bindA (liftA (mapE py_str row)) (\<lambda>cells. md_write (table_row cells)))) (Inr ()) (map table_row cells)"
    using assms
  proof (induction rows arbitrary: cells)
    case Nil
    then show ?case by (simp add: emits_return)
  next
    case (Cons row rows)
    then obtain c cs where "mapE py_str row = Inr c" "mapE (mapE py_str) rows = Inr cs" "cells = c # cs"
      by (auto elim!: bindE_InrE)
    with Cons.IH show ?case using emits_seq [OF emits_write] by fastforce
  qed
  from emits_seq [OF emits_write emits_seq [OF emits_write emits_seq [OF this emits_write]]]
  show ?thesis unfolding md_table_def by simp
qed

text \<open>Tables. A table whose rows have as many cells as there are headers, all printable and without a
  vertical bar, is written as a header, a separator, one line per row and a blank line, and every
  line but the last has one bar more than there are columns.\<close>

theorem md_table_shape:
  assumes "headers \<noteq> []" and "\<forall>h \<in> set headers. pipes h = 0" and "mapE (mapE py_str) rows = Inr cells"
    and "\<forall>r \<in> set cells. length r = length headers \<and> (\<forall>c \<in> set r. pipes c = 0)"
  shows "\<exists>body. md_table headers rows lines = (Inr (), lines @ body @ [[]]) \<and>
    length body = length rows + 2 \<and> (\<forall>l \<in> set body. pipes l = length headers + 1)"
proof -
  let ?body = "[table_row headers, ''|'' @ join ''|'' (replicate (length headers) ''---'') @ ''|''] @ map table_row cells"
  have "md_table headers rows lines = (Inr (), lines @ ?body @ [[]])"
    using emits_table [OF assms(3), of headers] by (simp add: emits_def)
  moreover have "length ?body = length rows + 2" using mapE_length [OF assms(3)] by simp
  moreover have "pipes l = length headers + 1" if "l \<in> set ?body" for l
  proof -
    have "pipes (table_row headers) = length headers + 1" using assms(1,2) by (intro pipes_table_row) auto
    moreover have "pipes (join ''|'' (replicate (length headers) ''---'')) = length headers - 1"
      using assms(1) by (subst pipes_join) (auto simp: pipes_def)
    moreover have "pipes (table_row r) = length headers + 1" if "r \<in> set cells" for r
      using assms(1,4) that pipes_table_row [of r] by force
    ultimately show ?thesis using that assms(1) by (auto simp: Suc_diff_le neq_Nil_conv)
  qed
  ultimately show ?thesis by blast
qed

theorem md_table_shape_witness:
  "\<exists>body. md_table [''Field'', ''Value''] [[JStr ''Threads'', JNum (PInt 4)]] [] = (Inr (), [] @ body @ [[]]) \<and>
    length body = 3 \<and> (\<forall>l \<in> set body. pipes l = 3)"
proof -
  have "mapE (mapE py_str) [[JStr ''Threads'', JNum (PInt 4)]] = Inr [[''Threads'', ''4'']]" by code_simp
  from md_table_shape [OF _ _ this, of "[''Field'', ''Value'']" "[]"] show ?thesis by (simp add: numeral_3_eq_3)
qed

section \<open>The plot index\<close>

text \<open>A plot tree, as \<^verbatim>\<open>collect_plot_paths\<close> builds it: directories and image paths only, no key twice.\<close>

function plot_tree :: "json \<Rightarrow> bool" where
  "plot_tree j = (case j of
     JObj d \<Rightarrow> distinct (map fst d) \<and> (\<forall>e \<in> set d. plot_tree (snd e))
   | JStr _ \<Rightarrow> True
   | _ \<Rightarrow> False)"
  by pat_completeness auto
termination
  by (relation "measure size") (auto dest!: size_entry)

declare plot_tree.simps [simp del]

lemma plot_tree_simps [simp]:
  "plot_tree (JObj d) \<longleftrightarrow> distinct (map fst d) \<and> (\<forall>e \<in> set d. plot_tree (snd e))"
  "plot_tree (JStr s)" "\<not> plot_tree JNull" "\<not> plot_tree (JBool b)" "\<not> plot_tree (JNum n)" "\<not> plot_tree (JList js)"
  by (simp_all add: plot_tree.simps)

text \<open>The lines of the index: items and, between them, headings and blank lines.\<close>

definition item_line :: "string \<Rightarrow> string" where
  "item_line s = ''- **'' @ title (py_replace ''-'' '' '' (stem s)) @ ''** '' @ em_dash @ '' `'' @ s @ ''`''"

definition is_item :: "string \<Rightarrow> bool" where
  "is_item l \<longleftrightarrow> is_prefix ''- **'' l"

lemma plot_item_JStr [simp]: "plot_item (JStr s) = Inr (item_line s)"
  by (simp add: plot_item_def item_line_def)

lemma is_item_simps [simp]: "is_item (item_line s)" "\<not> is_item []" "0 < level \<Longrightarrow> \<not> is_item (replicate level CHR ''#'' @ s)"
  by (simp_all add: is_item_def item_line_def gr0_conv_Suc) auto

lemma lookup_entry:
  assumes "distinct (map fst d)"
  shows "(\<exists>ks. lookup ks (JObj d) = Some (JStr s)) \<longleftrightarrow> (\<exists>e \<in> set d. \<exists>ks. lookup ks (snd e) = Some (JStr s))"
proof
  assume "\<exists>ks. lookup ks (JObj d) = Some (JStr s)"
  then obtain ks where "lookup ks (JObj d) = Some (JStr s)" by blast
  then obtain k ks' j where "dict_get d k = Some j" "lookup ks' j = Some (JStr s)"
    by (cases ks) (auto split: option.splits)
  then show "\<exists>e \<in> set d. \<exists>ks. lookup ks (snd e) = Some (JStr s)" by (force dest: map_of_SomeD)
next
  assume "\<exists>e \<in> set d. \<exists>ks. lookup ks (snd e) = Some (JStr s)"
  then obtain k j ks where "(k, j) \<in> set d" "lookup ks j = Some (JStr s)" by auto
  then have "lookup (k # ks) (JObj d) = Some (JStr s)" using assms by simp
  then show "\<exists>ks. lookup ks (JObj d) = Some (JStr s)" by blast
qed

lemma lookup_JStr_iff: "lookup ks (JStr t) = Some (JStr s) \<longleftrightarrow> ks = [] \<and> s = t"
  by (cases ks) auto

lemma render_plot_tree_emits:
  "plot_tree tree \<Longrightarrow> is_obj tree \<Longrightarrow> 0 < level \<Longrightarrow>
    \<exists>new. emits (render_plot_tree tree level) (Inr ()) new \<and>
      {l \<in> set new. is_item l} = item_line ` {s. \<exists>ks. lookup ks tree = Some (JStr s)}"
proof (induction "size tree" arbitrary: tree level rule: less_induct)
  case less
  from less.prems(2) obtain d where d: "tree = JObj d" by (cases tree) auto
  let ?body = "\<lambda>(key, v). if is_obj v
      then bindA (md_heading (key_title key) level) (\<lambda>_. render_plot_tree v (level + 1))
      else bindA (liftA (plot_item v)) md_write"
  let ?P = "\<lambda>e new. emits (?body e) (Inr ()) new \<and>
      {l \<in> set new. is_item l} = item_line ` {s. \<exists>ks. lookup ks (snd e) = Some (JStr s)}"
  have "\<exists>new. ?P e new" if "e \<in> set d" for e
  proof (cases "is_obj (snd e)")
    case True
    have "size (snd e) < size tree" using size_entry [of "fst e" "snd e" d] that d by simp
    moreover have "plot_tree (snd e)" using less.prems(1) that d by simp
    ultimately obtain new where new: "emits (render_plot_tree (snd e) (level + 1)) (Inr ()) new"
      "{l \<in> set new. is_item l} = item_line ` {s. \<exists>ks. lookup ks (snd e) = Some (JStr s)}"
      using less.hyps [of "snd e" "level + 1"] True by auto
    let ?h = "[replicate level CHR ''#'' @ '' '' @ key_title (fst e), []]"
    have "emits (?body e) (Inr ()) (?h @ new)"
      using emits_seq [OF emits_heading new(1)] True by (simp add: case_prod_beta)
    moreover have "{l \<in> set (?h @ new). is_item l} = {l \<in> set new. is_item l}"
      using less.prems(3) by auto
    ultimately show ?thesis using new(2) by blast
  next
    case False
    have "plot_tree (snd e)" using less.prems(1) that d by simp
    with False obtain s where s: "snd e = JStr s" by (cases "snd e") auto
    then have "emits (?body e) (Inr ()) [item_line s]" by (simp add: case_prod_beta emits_write)
    moreover have "{l \<in> set [item_line s]. is_item l} = item_line ` {s'. \<exists>ks. lookup ks (snd e) = Some (JStr s')}"
      by (auto simp: s lookup_JStr_iff)
    ultimately show ?thesis by blast
  qed
  then have "\<forall>e \<in> set d. \<exists>new. ?P e new" by blast
  from bchoice [OF this] obtain g where g: "\<And>e. e \<in> set d \<Longrightarrow> ?P e (g e)" by blast
  have "emits (forA (by_name d) ?body) (Inr ()) (concat (map g (by_name d)))"
    by (rule emits_for) (use g in auto)
  from emits_seq [OF this emits_write [of "[]"]]
  have "emits (render_plot_tree tree level) (Inr ()) (concat (map g (by_name d)) @ [[]])"
    by (subst render_plot_tree.simps) (simp add: d)
  moreover have "{l \<in> set (concat (map g (by_name d)) @ [[]]). is_item l} = (\<Union>e \<in> set d. {l \<in> set (g e). is_item l})"
    by auto
  moreover have "(\<Union>e \<in> set d. {l \<in> set (g e). is_item l}) = (\<Union>e \<in> set d. item_line ` {s. \<exists>ks. lookup ks (snd e) = Some (JStr s)})"
    using g by (intro SUP_cong) auto
  moreover have "\<dots> = item_line ` {s. \<exists>ks. lookup ks tree = Some (JStr s)}"
    using less.prems(1) lookup_entry [of d] d by auto
  ultimately show ?case by (intro exI [of _ "concat (map g (by_name d)) @ [[]]"]) (simp only: simp_thms)
qed

text \<open>C38. The plot index. Rendering a plot tree terminates and never raises, and the items it lists are
  exactly the images of the tree: every image is listed with its path, and nothing else is.\<close>

theorem render_plot_tree_lists_images:
  assumes "plot_tree tree" and "is_obj tree" and "0 < level"
  shows "\<exists>new. render_plot_tree tree level lines = (Inr (), lines @ new) \<and>
    {l \<in> set new. is_item l} = item_line ` {s. \<exists>ks. lookup ks tree = Some (JStr s)}"
  using render_plot_tree_emits [OF assms] by (auto simp: emits_def)

theorem render_plot_tree_lists_images_witness:
  "\<exists>new. render_plot_tree (JObj [(''system'', JObj [(''cpu'', JStr ''system/cpu.png'')])]) 2 [] = (Inr (), [] @ new) \<and>
    item_line ''system/cpu.png'' \<in> set new"
proof -
  let ?t = "JObj [(''system'', JObj [(''cpu'', JStr ''system/cpu.png'')])]"
  obtain new where new: "render_plot_tree ?t 2 [] = (Inr (), [] @ new)"
    "{l \<in> set new. is_item l} = item_line ` {s. \<exists>ks. lookup ks ?t = Some (JStr s)}"
    using render_plot_tree_lists_images [of ?t 2 "[]"] by auto
  have "lookup [''system'', ''cpu''] ?t = Some (JStr ''system/cpu.png'')" by simp
  with new show ?thesis by blast
qed

section \<open>Primary metrics\<close>

definition embeds :: "string list \<Rightarrow> json \<Rightarrow> bool" where
  "embeds ordered tree \<longleftrightarrow> (\<exists>name \<in> set ordered. contains tree name = Inr True)"

lemma emits_get: "emits (bindA (liftA (Inr x)) f) r new \<longleftrightarrow> emits (f x) r new"
  by simp

lemma emits_skip:
  "(\<And>x. x \<in> set xs \<Longrightarrow> emits (f x) (Inr ()) []) \<Longrightarrow> emits (forA xs f) (Inr ()) []"
  by (induction xs) (use emits_seq [of _ "[]"] in \<open>fastforce simp: emits_return\<close>)+

lemma emits_first:
  assumes "\<And>x. x \<in> set xs \<Longrightarrow> P x \<Longrightarrow> emits (f x) (Inl e) []"
    and "\<And>x. x \<in> set xs \<Longrightarrow> \<not> P x \<Longrightarrow> emits (f x) (Inr ()) []" and "\<exists>x \<in> set xs. P x"
  shows "emits (forA xs f) (Inl e) []"
  using assms
proof (induction xs)
  case (Cons x xs)
  show ?case
  proof (cases "P x")
    case True
    then show ?thesis using Cons.prems(1) [of x] emits_stop by simp
  next
    case False
    have "emits (forA xs f) (Inl e) []" using Cons False by simp
    with emits_seq [of "f x" "[]" "forA xs f"] Cons.prems(2) [of x] False show ?thesis by simp
  qed
qed simp

lemma embed_plots_emits:
  assumes "get_obj tree tool = Inr (JObj sub)"
  shows "emits (embed_plots tool ordered tree)
    (if sub \<noteq> [] \<and> embeds ordered (JObj sub) then Inl (AttributeError ''bold'') else Inr ())
    (if sub = [] then [] else [''## '' @ tool, []])"
proof (cases "sub = []")
  case True
  then show ?thesis using assms by (simp add: embed_plots_def emits_return embeds_def)
next
  case False
  let ?f = "\<lambda>name. bindA (liftA (contains (JObj sub) name)) (\<lambda>b. if \<not> b then returnA () else
       bindA (md_bold (key_title name)) (\<lambda>_. bindA (md_write []) (\<lambda>_.
       bindA (liftA (bindE (getitem (JObj sub) name) py_str)) (\<lambda>path. bindA (md_image path None) (\<lambda>_. md_write [])))))"
  have hit: "emits (?f name) (Inl (AttributeError ''bold'')) []" if "contains (JObj sub) name = Inr True" for name
    unfolding that emits_get md_bold_def by simp (rule emits_stop, rule emits_fail)
  have miss: "emits (?f name) (Inr ()) []" if "contains (JObj sub) name \<noteq> Inr True" for name
    using that by (auto simp: emits_return)
  have "emits (forA ordered ?f) (if embeds ordered (JObj sub) then Inl (AttributeError ''bold'') else Inr ()) []"
  proof (cases "embeds ordered (JObj sub)")
    case True
    then show ?thesis
      using emits_first [of ordered "\<lambda>name. contains (JObj sub) name = Inr True" ?f, OF hit miss] by (simp add: embeds_def)
  next
    case False
    then have "emits (forA ordered ?f) (Inr ()) []" by (intro emits_skip miss) (auto simp: embeds_def)
    with False show ?thesis by simp
  qed
  moreover have "[replicate 2 CHR ''#'' @ '' '' @ tool, []] = [''## '' @ tool, []]" by (simp add: numeral_2_eq_2)
  ultimately show ?thesis
    using emits_seq [OF emits_heading [of tool 2]] assms False
    by (simp add: embed_plots_def del: contains.simps getitem.simps)
qed

text \<open>C39. Primary metrics. The section never embeds an image: it appends headings only, and it raises
  \<^verbatim>\<open>AttributeError\<close> (the \<^verbatim>\<open>Markdown\<close> class has no method \<^verbatim>\<open>bold\<close>) exactly when the tree of plots has one of
  the wrk or vegeta plots it looks for.\<close>

theorem primary_metrics_never_embeds:
  assumes "get_obj summary ''plots'' = Inr tree"
    and "get_obj tree ''wrk'' = Inr (JObj w)" and "get_obj tree ''vegeta'' = Inr (JObj v)"
  shows "\<exists>r new. primary_metrics summary lines = (r, lines @ new) \<and>
    r = (if embeds wrk_order (JObj w) \<or> embeds vegeta_order (JObj v) then Inl (AttributeError ''bold'') else Inr ()) \<and>
    (\<forall>l \<in> set new. \<not> is_prefix ''!'' l)"
proof -
  have empty: "\<not> embeds names (JObj [])" for names by (simp add: embeds_def)
  note W = embed_plots_emits [OF assms(2), of wrk_order] and V = embed_plots_emits [OF assms(3), of vegeta_order]
  let ?h = "[replicate 1 CHR ''#'' @ '' '' @ ''Primary Performance Metrics'', []]"
  let ?w = "if w = [] then [] else [''## '' @ ''wrk'', []]" and ?v = "if v = [] then [] else [''## '' @ ''vegeta'', []]"
  show ?thesis
  proof (cases "embeds wrk_order (JObj w)")
    case True
    then have "w \<noteq> []" using empty by auto
    with True W have "emits (embed_plots ''wrk'' wrk_order tree) (Inl (AttributeError ''bold'')) ?w" by simp
    from emits_seq [OF emits_heading emits_stop [OF this]]
    have "emits (primary_metrics summary) (Inl (AttributeError ''bold'')) (?h @ ?w)"
      unfolding primary_metrics_def assms(1) bindA_simps(2) .
    with True show ?thesis unfolding emits_def by (intro exI conjI) (auto split: if_splits)
  next
    case False
    with W have wrk: "emits (embed_plots ''wrk'' wrk_order tree) (Inr ()) ?w" by simp
    let ?r = "if embeds vegeta_order (JObj v) then Inl (AttributeError ''bold'') else Inr ()"
    have "emits (embed_plots ''vegeta'' vegeta_order tree) ?r ?v" using V empty by (cases "v = []") auto
    from emits_seq [OF emits_heading emits_seq [OF wrk this]]
    have "emits (primary_metrics summary) ?r (?h @ ?w @ ?v)"
      unfolding primary_metrics_def assms(1) bindA_simps(2) .
    with False show ?thesis unfolding emits_def by (intro exI conjI) (auto split: if_splits)
  qed
qed

theorem primary_metrics_never_embeds_witness:
  "fst (primary_metrics (JObj [(''plots'', JObj [(''vegeta'', JObj [(''latency_boxplot'', JStr ''a.png'')])])]) []) =
    Inl (AttributeError ''bold'')"
  using primary_metrics_never_embeds [of "JObj [(''plots'', JObj [(''vegeta'', JObj [(''latency_boxplot'', JStr ''a.png'')])])]"
      "JObj [(''vegeta'', JObj [(''latency_boxplot'', JStr ''a.png'')])]" "[]" "[(''latency_boxplot'', JStr ''a.png'')]" "[]"]
  by (auto simp: embeds_def vegeta_order_def wrk_order_def)

section \<open>When the report is written\<close>

definition succeeds :: "writer \<Rightarrow> bool" where
  "succeeds m \<longleftrightarrow> (\<exists>new. emits m (Inr ()) new)"

lemma succeeds_basic: "succeeds (md_write s)" "succeeds (returnA ())" "succeeds (md_heading ttl level)"
  using emits_write emits_return emits_heading unfolding succeeds_def by blast+

lemma succeeds_seq: "succeeds m \<Longrightarrow> succeeds n \<Longrightarrow> succeeds (bindA m (\<lambda>_. n))"
  unfolding succeeds_def using emits_seq by blast

lemma succeeds_for: "(\<And>x. x \<in> set xs \<Longrightarrow> succeeds (f x)) \<Longrightarrow> succeeds (forA xs f)"
  by (induction xs) (auto intro: succeeds_basic succeeds_seq)

lemma succeeds_bullets: "succeeds (forA ss md_bullet)"
  unfolding md_bullet_def by (intro succeeds_for succeeds_basic)

lemmas succeeds_intros = succeeds_basic succeeds_seq succeeds_for succeeds_bullets

text \<open>A cell that can be printed, and an entry that can be read and printed.\<close>

definition printable :: "json \<Rightarrow> bool" where
  "printable j \<longleftrightarrow> (\<exists>s. py_str j = Inr s)"

definition has_cell :: "json result \<Rightarrow> bool" where
  "has_cell r \<longleftrightarrow> (\<exists>v. r = Inr v \<and> printable v)"

lemma succeeds_table_of:
  assumes "list_all (\<lambda>(label, r). has_cell r) rs"
  shows "succeeds (table_of headers rs)"
proof -
  have "\<exists>rows cells. label_rows rs = Inr rows \<and> mapE (mapE py_str) rows = Inr cells"
    using assms
  proof (induction rs)
    case (Cons e rs)
    then show ?case
      by (cases e) (force simp: label_rows_def has_cell_def printable_def)
  qed (simp add: label_rows_def)
  then obtain rows cells where rows: "label_rows rs = Inr rows" "mapE (mapE py_str) rows = Inr cells" by blast
  show ?thesis using emits_table [OF rows(2), of headers] rows(1) by (auto simp: table_of_def succeeds_def)
qed

text \<open>What the report needs of the summary, section by section.\<close>

definition has_entries :: "json \<Rightarrow> string list \<Rightarrow> bool" where
  "has_entries j keys \<longleftrightarrow> list_all (\<lambda>k. has_cell (getitem j k)) keys"

definition metadata_keys :: "string list" where
  "metadata_keys = [''id'', ''title'', ''timestamp'', ''git_branch'', ''git_commit'']"

definition workload_keys :: "string list" where
  "workload_keys = [''protocol'', ''url'', ''threads'', ''connections'', ''duration'', ''warmup'', ''iterations'']"

definition environment_keys :: "string list" where
  "environment_keys = [''cpu'', ''logical_cpus'', ''memory'', ''os'', ''kernel'']"

definition stats_ready :: "json \<Rightarrow> bool" where
  "stats_ready stats \<longleftrightarrow> list_all (\<lambda>(label, key). \<exists>v s. getitem stats key = Inr v \<and> metric v = Inr s) statistics_rows"

definition tool_ready :: "json \<Rightarrow> string \<Rightarrow> string list \<Rightarrow> bool" where
  "tool_ready summary tool keys \<longleftrightarrow> (\<exists>t. getitem summary tool = Inr t \<and>
     (truthy t \<longrightarrow> (\<forall>key \<in> set keys. \<exists>stats. getitem t key = Inr stats \<and> stats_ready stats)))"

definition plots_ready :: "json \<Rightarrow> bool" where
  "plots_ready tree \<longleftrightarrow> is_obj tree \<and> plot_tree tree \<and>
     (\<exists>w v y. get_obj tree ''wrk'' = Inr (JObj w) \<and> get_obj tree ''vegeta'' = Inr (JObj v) \<and>
        get_obj tree ''system'' = Inr (JObj y) \<and> \<not> embeds wrk_order (JObj w) \<and> \<not> embeds vegeta_order (JObj v) \<and>
        (\<forall>e \<in> set y. is_obj (snd e) \<and> plot_tree (snd e)))"

definition report_ready :: "json \<Rightarrow> bool" where
  "report_ready summary \<longleftrightarrow> (\<exists>metadata workload environment tree protocol.
     getitem summary ''metadata'' = Inr metadata \<and> has_entries metadata metadata_keys \<and>
     getitem summary ''workload'' = Inr workload \<and> has_entries workload workload_keys \<and>
     getitem workload ''protocol'' = Inr (JStr protocol) \<and>
     getitem summary ''environment'' = Inr environment \<and> has_entries environment environment_keys \<and>
     tool_ready summary ''wrk'' wrk_metrics \<and> tool_ready summary ''vegeta'' vegeta_metrics \<and>
     get_obj summary ''plots'' = Inr tree \<and> plots_ready tree)"

lemma succeeds_statistics_table:
  assumes "stats_ready stats"
  shows "succeeds (statistics_table ttl stats)"
proof -
  have "list_all (\<lambda>(label, r). has_cell r)
      (map (\<lambda>(label, key). (label, bindE (getitem stats key) (\<lambda>v. bindE (metric v) (\<lambda>s. Inr (JStr s))))) statistics_rows)"
    using assms unfolding stats_ready_def list.pred_map
    by (rule list.pred_mono_strong) (auto simp: has_cell_def printable_def)
  then show ?thesis unfolding statistics_table_def by (intro succeeds_intros succeeds_table_of)
qed

lemma succeeds_tool_statistics:
  assumes "tool_ready summary tool keys" and "snd ` set tables \<subseteq> set keys"
  shows "succeeds (tool_statistics tool tables summary)"
proof -
  obtain t where t: "getitem summary tool = Inr t"
    and k: "truthy t \<Longrightarrow> key \<in> set keys \<Longrightarrow> \<exists>stats. getitem t key = Inr stats \<and> stats_ready stats" for key
    using assms(1) by (auto simp: tool_ready_def)
  show ?thesis
  proof (cases "truthy t")
    case True
    have "succeeds (bindA (liftA (getitem t key)) (statistics_table ttl))" if "(ttl, key) \<in> set tables" for ttl key
      using k [OF True, of key] assms(2) that succeeds_statistics_table by force
    then show ?thesis using True by (auto simp: tool_statistics_def t intro!: succeeds_intros)
  next
    case False
    then show ?thesis by (simp add: tool_statistics_def t succeeds_basic)
  qed
qed

lemma succeeds_render: "plot_tree tree \<Longrightarrow> is_obj tree \<Longrightarrow> succeeds (render_plot_tree tree 2)"
  using render_plot_tree_emits [of tree 2] by (auto simp: succeeds_def)

lemma succeeds_plots:
  assumes "get_obj summary ''plots'' = Inr tree" and "plots_ready tree"
  shows "succeeds (primary_metrics summary)" "succeeds (supporting_metrics summary)" "succeeds (appendix_c summary)"
proof -
  obtain w v y where t: "get_obj tree ''wrk'' = Inr (JObj w)" "get_obj tree ''vegeta'' = Inr (JObj v)"
    "get_obj tree ''system'' = Inr (JObj y)"
    and no: "\<not> embeds wrk_order (JObj w)" "\<not> embeds vegeta_order (JObj v)"
    and y: "\<And>e. e \<in> set y \<Longrightarrow> is_obj (snd e) \<and> plot_tree (snd e)"
    using assms(2) by (auto simp: plots_ready_def)
  have "succeeds (embed_plots ''wrk'' wrk_order tree)" "succeeds (embed_plots ''vegeta'' vegeta_order tree)"
    using embed_plots_emits [OF t(1), of wrk_order] embed_plots_emits [OF t(2), of vegeta_order] no
    by (auto simp: succeeds_def)
  then show "succeeds (primary_metrics summary)"
    unfolding primary_metrics_def assms(1) bindA_simps(2) by (intro succeeds_intros)
  have "succeeds (forA y (\<lambda>(tool, tree). bindA (md_heading tool 2) (\<lambda>_. render_plot_tree tree 2)))"
    using y by (intro succeeds_for) (auto intro!: succeeds_intros succeeds_render)
  then show "succeeds (supporting_metrics summary)"
    unfolding supporting_metrics_def assms(1) t(3) bindA_simps(2) items.simps
    by (auto intro!: succeeds_intros)
  have "is_obj tree" "plot_tree tree" using assms(2) by (simp_all add: plots_ready_def)
  then show "succeeds (appendix_c summary)"
    unfolding appendix_c_def assms(1) bindA_simps(2) by (auto intro!: succeeds_intros succeeds_render)
qed

lemma succeeds_placeholder: "succeeds (placeholder ttl s)"
  unfolding placeholder_def by (intro succeeds_intros)

lemmas entry_simps = has_entries_def metadata_keys_def workload_keys_def environment_keys_def

lemma succeeds_sections:
  assumes "report_ready summary"
  shows "list_all succeeds (report_sections summary)"
proof -
  obtain metadata workload environment tree protocol where
    m: "getitem summary ''metadata'' = Inr metadata" "has_entries metadata metadata_keys"
    and w: "getitem summary ''workload'' = Inr workload" "has_entries workload workload_keys"
    and p: "getitem workload ''protocol'' = Inr (JStr protocol)"
    and e: "getitem summary ''environment'' = Inr environment" "has_entries environment environment_keys"
    and t: "tool_ready summary ''wrk'' wrk_metrics" "tool_ready summary ''vegeta'' vegeta_metrics"
    and tree: "get_obj summary ''plots'' = Inr tree" "plots_ready tree"
    using assms by (auto simp: report_ready_def)
  note cells = m(2) w(2) e(2)
  have "succeeds (benchmark_information summary)"
    unfolding benchmark_information_def m(1) w(1) e(1) bindA_simps(2)
    by (intro succeeds_intros succeeds_table_of) (use cells in \<open>simp add: entry_simps\<close>)
  moreover have "succeeds (objective summary)"
    unfolding objective_def w(1) bindA_simps(2) by (simp add: p succeeds_placeholder)
  moreover have "succeeds (experimental_variables summary)"
    unfolding experimental_variables_def w(1) bindA_simps(2)
    by (intro succeeds_intros succeeds_table_of) (use cells in \<open>simp add: entry_simps\<close>)
  moreover have "succeeds (system_configuration summary)"
    unfolding system_configuration_def e(1) bindA_simps(2)
    by (intro succeeds_intros succeeds_table_of) (use cells in \<open>simp add: entry_simps\<close>)
  moreover have "succeeds (benchmark_configuration summary)"
    unfolding benchmark_configuration_def w(1) bindA_simps(2)
    by (intro succeeds_intros succeeds_table_of) (use cells in \<open>simp add: entry_simps\<close>)
  moreover have "succeeds (reproducibility summary)"
    unfolding reproducibility_def m(1) w(1) bindA_simps(2)
    by (intro succeeds_intros succeeds_table_of) (use cells in \<open>simp add: entry_simps\<close>)
  moreover have "succeeds (statistical_summary summary)"
    unfolding statistical_summary_def
    by (intro succeeds_intros succeeds_tool_statistics [OF t(1)] succeeds_tool_statistics [OF t(2)])
      (auto simp: wrk_metrics_def vegeta_metrics_def)
  moreover have "succeeds background" "succeeds hypothesis" "succeeds conclusion" "succeeds future_work"
    unfolding background_def hypothesis_def conclusion_def future_work_def by (rule succeeds_placeholder)+
  moreover have "succeeds benchmark_procedure" "succeeds threats_to_validity" "succeeds appendix_a" "succeeds appendix_b"
    unfolding benchmark_procedure_def threats_to_validity_def appendix_a_def appendix_b_def md_code_def
    by (intro succeeds_intros)+
  ultimately show ?thesis
    using succeeds_plots [OF tree] by (simp add: report_sections_def)
qed

lemma emits_sections:
  assumes "list_all succeeds ms" and "m \<in> set ms" and "emits m (Inr ()) new"
  shows "\<exists>pre post. emits (forA ms id) (Inr ()) (pre @ new @ post)"
  using assms
proof (induction ms)
  case (Cons n ms)
  obtain a where a: "emits n (Inr ()) a" using Cons.prems(1) by (auto simp: succeeds_def)
  have rest: "succeeds (forA ms id)" using Cons.prems(1) by (intro succeeds_for) (auto simp: list_all_iff)
  then obtain b where b: "emits (forA ms id) (Inr ()) b" by (auto simp: succeeds_def)
  show ?case
  proof (cases "m = n")
    case True
    then have "emits (forA (n # ms) id) (Inr ()) ([] @ new @ b)" using emits_seq [OF _ b] Cons.prems(3) by simp
    then show ?thesis by blast
  next
    case False
    then have "m \<in> set ms" "list_all succeeds ms" using Cons.prems by auto
    from Cons.IH [OF this(2,1) Cons.prems(3)]
    obtain pre post where "emits (forA ms id) (Inr ()) (pre @ new @ post)" by blast
    from emits_seq [OF a this] have "emits (forA (n # ms) id) (Inr ()) ((a @ pre) @ new @ post)" by simp
    then show ?thesis by blast
  qed
qed simp

lemma report_lines_contain:
  assumes "report_ready summary" and "m \<in> set (report_sections summary)" and "emits m (Inr ()) new"
  shows "\<exists>lines. report_lines summary = Inr lines \<and> set new \<subseteq> set lines"
proof -
  obtain pre post where "emits (forA (report_sections summary) id) (Inr ()) (pre @ new @ post)"
    using emits_sections [OF succeeds_sections [OF assms(1)] assms(2,3)] by blast
  then have "report_lines summary = Inr (pre @ new @ post)" by (simp add: report_lines_def emits_def)
  then show ?thesis by auto
qed

text \<open>The index of all plots in the last appendix.\<close>

lemma appendix_c_items:
  assumes "get_obj summary ''plots'' = Inr tree" and "plots_ready tree"
  shows "\<exists>new. emits (appendix_c summary) (Inr ()) new \<and> item_line ` {s. \<exists>ks. lookup ks tree = Some (JStr s)} \<subseteq> set new"
proof (cases "truthy tree")
  case True
  have ok: "plot_tree tree" "is_obj tree" using assms(2) by (simp_all add: plots_ready_def)
  then obtain new where new: "emits (render_plot_tree tree 2) (Inr ()) new"
    "{l \<in> set new. is_item l} = item_line ` {s. \<exists>ks. lookup ks tree = Some (JStr s)}"
    using render_plot_tree_emits [OF ok, of 2] by auto
  from emits_seq [OF emits_heading emits_seq [OF emits_write emits_seq [OF emits_write new(1)]]]
  obtain pre where "emits (appendix_c summary) (Inr ()) (pre @ new)"
    unfolding appendix_c_def assms(1) bindA_simps(2) using True
    by (simp only: simp_thms if_False append_assoc [symmetric]) blast
  with new(2) show ?thesis by (intro exI [of _ "pre @ new"]) auto
next
  case False
  have "is_obj tree" using assms(2) by (simp add: plots_ready_def)
  with False have "tree = JObj []" by (cases tree) auto
  then have "{s. \<exists>ks. lookup ks tree = Some (JStr s)} = {}"
    using lookup_entry [of "[]"] by simp
  moreover have "succeeds (appendix_c summary)" by (rule succeeds_plots(3) [OF assms])
  ultimately show ?thesis by (auto simp: succeeds_def)
qed

text \<open>\<^verbatim>\<open>generate_report\<close> writes \<^verbatim>\<open>report-auto.md\<close>, and nothing else, whenever the summary has the
  entries the sections print and none of the plot names that the primary metrics section looks for;
  and when it raises, the dataset is as it was.\<close>

lemma generate_report_writes:
  "(\<forall>summary. summary_json ds = Doc summary \<and> report_ready summary \<longrightarrow>
     (\<exists>lines. generate_report ds = (Inr (), ds\<lparr>report_md := Some (join newline lines)\<rparr>))) \<and>
   (\<forall>e t. generate_report ds = (Inl e, t) \<longrightarrow> t = ds)"
proof (intro conjI allI impI)
  fix summary assume s: "summary_json ds = Doc summary \<and> report_ready summary"
  have "background \<in> set (report_sections summary)" by (simp add: report_sections_def)
  moreover obtain new where "emits background (Inr ()) new"
    using succeeds_placeholder unfolding background_def succeeds_def by blast
  ultimately obtain lines where "report_lines summary = Inr lines" using report_lines_contain s by blast
  then show "\<exists>lines. generate_report ds = (Inr (), ds\<lparr>report_md := Some (join newline lines)\<rparr>)"
    using s by (auto simp: generate_report_def load_summary_def md_save_def modifyA_def)
next
  fix e t assume "generate_report ds = (Inl e, t)"
  then show "t = ds"
    by (auto simp: generate_report_def md_save_def action_defs split: sum.splits)
qed

end
