(* ===== verification/Pipeline.thy ===== *)
theory Pipeline
  imports Report
begin

text \<open>
  The two commands of the analysis together: \<^verbatim>\<open>analyze.py\<close> writes \<^verbatim>\<open>summary.json\<close>, from which
  \<^verbatim>\<open>report_generator.py\<close> writes the report. What the second command needs of the summary
  (\<open>report_ready\<close>) is established by the first.
\<close>

section \<open>The shape of the plot tree\<close>

lemma dict_put_entry: "e \<in> set (dict_put k v d) \<Longrightarrow> e = (k, v) \<or> e \<in> set d"
  by (induction d) (auto split: if_splits)

lemma plot_tree_put:
  "plot_tree (JObj d) \<Longrightarrow> plot_tree j \<Longrightarrow> plot_tree (JObj (dict_put k j d))"
  using pydict.wf_put [of d k j] by (auto dest!: dict_put_entry)

lemma insert_plot_tree:
  "insert_plot p rel t = Inr t' \<Longrightarrow> plot_tree t \<Longrightarrow> plot_tree t' \<and> (is_obj t \<longrightarrow> is_obj t')"
proof (induction p rel t arbitrary: t' rule: insert_plot.induct)
  case (2 part rel t)
  then show ?case by (cases t) (auto simp del: plot_tree_simps(1) intro!: plot_tree_put)
next
  case (3 part p ps rel t)
  then obtain d sub where d: "t = JObj d" "t' = JObj (dict_put (dir_key part) sub d)"
    and sub: "insert_plot (p # ps) rel (case dict_get d (dir_key part) of None \<Rightarrow> JObj [] | Some j \<Rightarrow> j) = Inr sub"
    by (cases t) (auto elim!: bindE_InrE)
  have "plot_tree (case dict_get d (dir_key part) of None \<Rightarrow> JObj [] | Some j \<Rightarrow> j)"
    using 3(3) d(1) by (auto split: option.split dest: map_of_SomeD)
  then have "plot_tree sub" using 3(1) [OF d(1) sub] by blast
  with 3(3) d show ?case by (simp only: plot_tree_put is_obj.simps simp_thms)
qed simp

lemma insert_plot_sound:
  assumes "insert_plot p rel t = Inr t'" and "p \<noteq> []" and "lookup ks t' = Some j"
  shows "lookup ks t = Some j \<or> prefix ks (plot_keys p)"
    and "j = JStr s \<Longrightarrow> ks = plot_keys p \<or> lookup ks t = Some (JStr s)"
proof -
  consider zs where "ks = plot_keys p @ zs" | "strict_prefix ks (plot_keys p)" | "\<not> prefix ks (plot_keys p)" "\<not> prefix (plot_keys p) ks"
    by (auto simp: strict_prefix_def prefix_def)
  then have "(lookup ks t = Some j \<or> prefix ks (plot_keys p)) \<and>
      (j = JStr s \<longrightarrow> ks = plot_keys p \<or> lookup ks t = Some (JStr s))"
  proof cases
    case 1
    then have "zs = []" using insert_plot_below [OF assms(1,2), of zs] assms(3) by (cases zs) auto
    with 1 show ?thesis by simp
  next
    case 2
    with insert_plot_above [OF assms(1) 2] assms(3) show ?thesis by auto
  next
    case 3
    have "lookup ks t = Some j" using insert_plot_apart [OF assms(1) 3] assms(3) by metis
    then show ?thesis by simp
  qed
  then show "lookup ks t = Some j \<or> prefix ks (plot_keys p)"
    and "j = JStr s \<Longrightarrow> ks = plot_keys p \<or> lookup ks t = Some (JStr s)" by blast+
qed

text \<open>Everything in the collected tree lies on the key path of an image.\<close>

definition grown_from :: "string list set \<Rightarrow> json \<Rightarrow> bool" where
  "grown_from P t \<longleftrightarrow> plot_tree t \<and> is_obj t \<and>
     (\<forall>ks j. lookup ks t = Some j \<longrightarrow> ks = [] \<or> (\<exists>p \<in> P. prefix ks (plot_keys p))) \<and>
     (\<forall>ks s. lookup ks t = Some (JStr s) \<longrightarrow> (\<exists>p \<in> P. ks = plot_keys p))"

lemma grown_from_empty: "grown_from P (JObj [])"
proof -
  have "lookup ks (JObj []) = Some j \<longleftrightarrow> ks = [] \<and> j = JObj []" for ks j by (cases ks) auto
  then show ?thesis by (simp add: grown_from_def)
qed

lemma grown_from_insert:
  assumes "grown_from P t" and "insert_plot p rel t = Inr t'" and "p \<in> P" and "p \<noteq> []"
  shows "grown_from P t'"
  unfolding grown_from_def
proof (intro conjI allI impI)
  show "plot_tree t'" "is_obj t'" using insert_plot_tree [OF assms(2)] assms(1) by (simp_all add: grown_from_def)
  show "ks = [] \<or> (\<exists>p \<in> P. prefix ks (plot_keys p))" if "lookup ks t' = Some j" for ks j
    using insert_plot_sound(1) [OF assms(2,4) that] assms(1,3) by (auto simp: grown_from_def)
  show "\<exists>p \<in> P. ks = plot_keys p" if "lookup ks t' = Some (JStr s)" for ks s
    using insert_plot_sound(2) [OF assms(2,4) that refl] assms(1,3) by (auto simp: grown_from_def)
qed

lemma collect_grown_from:
  assumes "collect_plot_paths ds = Inr tree"
  shows "grown_from {p \<in> image_paths ds. is_png p} tree"
  using assms unfolding collect_plot_paths_def
  by (rule foldE_invariant) (auto simp: set_images is_png_def intro: grown_from_empty elim!: grown_from_insert)

section \<open>The images of one analysis\<close>

definition vegeta_files :: "string list" where
  "vegeta_files = [''latency-boxplot.png'', ''latency-percentiles.png'', ''latency-histogram.png'']"

definition generated :: "string list set" where
  "generated = wrk_images \<union> {[''vegeta'', file] | file. file \<in> set vegeta_files} \<union>
     {[''system'', tool, file] | tool file. True}"

lemma vegeta_images_generated: "vegeta_images ds \<subseteq> generated"
  by (auto simp: vegeta_images_def if_runs_def generated_def vegeta_files_def)

lemma tool_images_generated: "tool_images tool ds \<subseteq> generated"
  by (auto simp: tool_images_def image_def generated_def split: prod.splits if_splits)

lemma generate_plots_images:
  assumes "generate_plots s u = (Inr (), v)"
  shows "image_paths v \<subseteq> image_paths u \<union> generated"
proof -
  obtain a where a: "(if entry_truthy ''wrk'' s then generate (JObj s) else returnA ()) u = (Inr (), a)"
    using assms by (auto simp: generate_plots_def bindA_def split: prod.splits sum.splits)
  obtain b where b: "(if entry_truthy ''vegeta'' s then vegeta_generate (JObj s) else returnA ()) a = (Inr (), b)"
    using assms a by (auto simp: generate_plots_def bindA_def split: prod.splits sum.splits)
  have c: "sys_generate b = (Inr (), v)" using assms a b by (simp add: generate_plots_def bindA_def)
  have "image_paths a \<subseteq> image_paths u \<union> generated"
    using a draws_images [OF draws_generate, of "JObj s" u a]
    by (auto simp: returnA_def generated_def wrk_images_def split: if_splits)
  moreover have "image_paths b \<subseteq> image_paths a \<union> generated"
  proof (cases "entry_truthy ''vegeta'' s")
    case True
    then have "contains (JObj s) ''vegeta'' = Inr True" by (simp add: entry_truthy_def split: option.splits)
    from draws_images [OF draws_vegeta_generate [OF this], of a b] b True show ?thesis
      using vegeta_images_generated by (auto split: if_splits)
  next
    case False
    with b show ?thesis by (simp add: returnA_def)
  qed
  moreover have "image_paths v \<subseteq> image_paths b \<union> generated"
  proof (cases "raw b")
    case None
    then show ?thesis using c by (simp add: sys_generate_def returnA_def)
  next
    case (Some es)
    have "forA (by_name es) (\<lambda>(tool, entry). if \<not> is_dir entry then returnA () else generate_for_tool tool) b = (Inr (), v)"
      using c Some by (simp add: sys_generate_def)
    from draws_images [OF draws_tools this] show ?thesis using tool_images_generated by (fastforce split: if_splits)
  qed
  ultimately show ?thesis by blast
qed

text \<open>Where the generated images are filed.\<close>

lemma generated_keys:
  assumes "p \<in> generated"
  shows "(\<exists>f. plot_keys p = [f] \<and> f \<in> {''wrk-throughput-boxplot'', ''wrk-throughput-errorbar'', ''wrk-latency-boxplot'', ''wrk-transfer-boxplot''}) \<or>
    (\<exists>f. plot_keys p = [''vegeta'', f] \<and> f \<in> {''latency-boxplot'', ''latency-percentiles'', ''latency-histogram''}) \<or>
    (\<exists>k f. plot_keys p = [''system'', k, f])"
proof -
  have dirs: "dir_key ''vegeta'' = ''vegeta''" "dir_key ''system'' = ''system''" by code_simp+
  have wrk: "file_key ''wrk-throughput-boxplot.png'' = ''wrk-throughput-boxplot''"
    "file_key ''wrk-throughput-errorbar.png'' = ''wrk-throughput-errorbar''"
    "file_key ''wrk-latency-boxplot.png'' = ''wrk-latency-boxplot''"
    "file_key ''wrk-transfer-boxplot.png'' = ''wrk-transfer-boxplot''" by code_simp+
  have veg: "file_key ''latency-boxplot.png'' = ''latency-boxplot''" "file_key ''latency-percentiles.png'' = ''latency-percentiles''"
    "file_key ''latency-histogram.png'' = ''latency-histogram''" by code_simp+
  show ?thesis using assms
    unfolding generated_def wrk_images_def vegeta_files_def
    by (elim UnE insertE emptyE CollectE exE conjE) (auto simp: dirs wrk veg)
qed

lemma get_obj_lookup: "get_obj (JObj d) k = Inr (case lookup [k] (JObj d) of None \<Rightarrow> JObj [] | Some j \<Rightarrow> j)"
  by (simp split: option.split)

lemma plots_ready_generated:
  assumes "grown_from P tree" and "P \<subseteq> generated"
  shows "plots_ready tree"
proof -
  obtain d where d: "tree = JObj d" and tree: "plot_tree tree" "is_obj tree"
    using assms(1) by (cases tree) (auto simp: grown_from_def)
  have sound: "\<exists>p \<in> generated. prefix ks (plot_keys p)" if "lookup ks tree = Some j" "ks \<noteq> []" for ks j
    using that assms unfolding grown_from_def by blast
  have leaf: "\<exists>p \<in> generated. ks = plot_keys p" if "lookup ks tree = Some (JStr s)" for ks s
    using that assms unfolding grown_from_def by blast
  have sub: "\<exists>e. get_obj tree k = Inr (JObj e) \<and> plot_tree (JObj e) \<and> (\<forall>n j. dict_get e n = Some j \<longrightarrow> lookup [k, n] tree = Some j)"
    if "\<And>s. lookup [k] tree \<noteq> Some (JStr s)" for k
  proof (cases "dict_get d k")
    case None
    then show ?thesis by (simp add: d)
  next
    case (Some j)
    have "plot_tree j" using tree(1) Some d by (auto dest: map_of_SomeD)
    with that Some d obtain e where "j = JObj e" by (cases j) auto
    then show ?thesis using Some d \<open>plot_tree j\<close> by simp
  qed
  have "dict_get d ''wrk'' = None"
  proof (rule ccontr)
    assume "dict_get d ''wrk'' \<noteq> None"
    then obtain j where "lookup [''wrk''] tree = Some j" by (auto simp: d)
    from sound [OF this] obtain p where "p \<in> generated" "prefix [''wrk''] (plot_keys p)" by auto
    with generated_keys [of p] show False by auto
  qed
  then have "get_obj tree ''wrk'' = Inr (JObj [])" by (simp add: d)
  moreover have dirs: "lookup [''vegeta''] tree \<noteq> Some (JStr s)" "lookup [''system''] tree \<noteq> Some (JStr s)" for s
    using leaf [of "[''vegeta'']" s] leaf [of "[''system'']" s] generated_keys by force+
  moreover obtain v where v: "get_obj tree ''vegeta'' = Inr (JObj v)" "\<And>n j. dict_get v n = Some j \<Longrightarrow> lookup [''vegeta'', n] tree = Some j"
    using sub [OF dirs(1)] by blast
  moreover obtain y where y: "get_obj tree ''system'' = Inr (JObj y)" "plot_tree (JObj y)"
      "\<And>n j. dict_get y n = Some j \<Longrightarrow> lookup [''system'', n] tree = Some j"
    using sub [OF dirs(2)] by blast
  moreover have "\<not> embeds wrk_order (JObj [])" by (simp add: embeds_def)
  moreover have "\<not> embeds vegeta_order (JObj v)"
  proof
    assume "embeds vegeta_order (JObj v)"
    then obtain name j where name: "name \<in> set vegeta_order" "dict_get v name = Some j" by (auto simp: embeds_def)
    from sound [OF v(2) [OF name(2)]] obtain p where "p \<in> generated" "prefix [''vegeta'', name] (plot_keys p)" by auto
    with generated_keys [of p] name(1) show False by (auto simp: vegeta_order_def)
  qed
  moreover have "is_obj (snd e) \<and> plot_tree (snd e)" if "e \<in> set y" for e
  proof -
    have "plot_tree (snd e)" using y(2) that by simp
    moreover have "lookup [''system'', fst e] tree = Some (snd e)" using y(2,3) that by simp
    then have "snd e \<noteq> JStr s" for s using leaf [of "[''system'', fst e]" s] generated_keys by fastforce
    ultimately show ?thesis by (cases "snd e") auto
  qed
  ultimately show ?thesis using tree by (auto simp: plots_ready_def)
qed

section \<open>The summary is ready for the report\<close>

text \<open>Metadata that can be printed: every copied entry is a string, an integer, a truth value or null, and
  the protocol is a string.\<close>

definition printable_metadata :: "json \<Rightarrow> bool" where
  "printable_metadata m \<longleftrightarrow>
     (\<forall>(key, part, name) \<in> set (metadata_spec @ workload_spec @ environment_spec). \<forall>v.
        bindE (getitem m part) (\<lambda>p. getitem p name) = Inr v \<longrightarrow> printable v) \<and>
     (\<forall>v. bindE (getitem m ''benchmark'') (\<lambda>p. getitem p ''protocol'') = Inr v \<longrightarrow> (\<exists>s. v = JStr s))"

lemma metric_JNum: "\<exists>s. metric (JNum n) = Inr s"
  by (cases n) simp_all

lemma summarize_stats_ready: "summarize js = Inr stats \<Longrightarrow> stats_ready stats"
  unfolding summarize_def summarize_nums_def
  by (elim bindE_InrE) (auto simp: stats_ready_def statistics_rows_def metric_JNum)

lemma summarize_keys_ready:
  assumes "summarize_keys tool keys runs = Inr t" and "distinct keys" and "key \<in> set keys"
  shows "\<exists>stats. getitem t key = Inr stats \<and> stats_ready stats"
proof -
  obtain valid d where d: "t = JObj d" "mapE (\<lambda>k. bindE (summarize_key valid tool k) (\<lambda>s. Inr (k, s))) keys = Inr d"
    using assms(1) by (auto simp: summarize_keys_def elim!: bindE_InrE)
  have "map fst d = keys" using mapE_tag [OF d(2)] .
  obtain i where i: "i < length keys" "keys ! i = key" using assms(3) by (auto simp: in_set_conv_nth)
  with d(2) have "bindE (summarize_key valid tool key) (\<lambda>s. Inr (key, s)) = Inr (d ! i)" "i < length d"
    by (auto simp: mapE_Inr_iff)
  then obtain stats where stats: "summarize_key valid tool key = Inr stats" "d ! i = (key, stats)" by (auto elim!: bindE_InrE)
  then have "(key, stats) \<in> set d" using \<open>i < length d\<close> by (metis nth_mem)
  then have "dict_get d key = Some stats" using assms(2) \<open>map fst d = keys\<close> by simp
  moreover have "stats_ready stats" using stats(1) by (auto simp: summarize_key_def elim!: bindE_InrE intro: summarize_stats_ready)
  ultimately show ?thesis using d(1) by simp
qed

lemma displayE_val: "displayE krs = Inr d \<Longrightarrow> map_of krs k = Some (Inr v) \<Longrightarrow> dict_get d k = Some v"
  using displayE_get [of krs d k] by (cases "dict_get d k") auto

lemma summarize_tool_get:
  assumes "summarize_tool tool f ds s = Inr s'"
  shows "k \<noteq> tool \<Longrightarrow> dict_get s' k = dict_get s k"
    and "dict_get s' tool = dict_get s tool \<or> (\<exists>runs t. f runs = Inr t \<and> dict_get s' tool = Some t)"
proof -
  have "s' = s \<or> (\<exists>runs t. f runs = Inr t \<and> s' = dict_put tool t s)"
    using assms unfolding summarize_tool_def by (auto split: if_splits elim!: bindE_InrE; blast)
  then show "k \<noteq> tool \<Longrightarrow> dict_get s' k = dict_get s k"
    and "dict_get s' tool = dict_get s tool \<or> (\<exists>runs t. f runs = Inr t \<and> dict_get s' tool = Some t)"
    by (auto simp: pydict.get_put)
qed

lemma copy_entries_get:
  assumes "copy_entries m spec = Inr j" and "distinct (map fst spec)" and "(key, part, name) \<in> set spec"
  shows "\<exists>v. bindE (getitem m part) (\<lambda>p. getitem p name) = Inr v \<and> getitem j key = Inr v"
proof -
  let ?rs = "map (\<lambda>(key, part, name). (key, bindE (getitem m part) (\<lambda>p. getitem p name))) spec"
  obtain d where d: "displayE ?rs = Inr d" "j = JObj d" using assms(1) by (auto simp: copy_entries_def elim!: bindE_InrE)
  have "distinct (map fst ?rs)" using assms(2) by (simp add: comp_def case_prod_beta)
  moreover have "(key, bindE (getitem m part) (\<lambda>p. getitem p name)) \<in> set ?rs" using assms(3) by force
  ultimately have "map_of ?rs key = Some (bindE (getitem m part) (\<lambda>p. getitem p name))" by (rule map_of_is_SomeI)
  with displayE_get [OF d(1), of key] d(2) show ?thesis by (cases "dict_get d key") auto
qed

lemma copied_has_entries:
  assumes "copy_entries m spec = Inr j" and "distinct (map fst spec)" and "printable_metadata m"
    and "set spec \<subseteq> set (metadata_spec @ workload_spec @ environment_spec)" and "set keys \<subseteq> fst ` set spec"
  shows "has_entries j keys"
  unfolding has_entries_def list_all_iff
proof
  fix k assume "k \<in> set keys"
  then obtain part name where e: "(k, part, name) \<in> set spec" using assms(5) by force
  from copy_entries_get [OF assms(1,2) this] obtain v where
    "bindE (getitem m part) (\<lambda>p. getitem p name) = Inr v" "getitem j k = Inr v" by blast
  with assms(3,4) e show "has_cell (getitem j k)" unfolding printable_metadata_def has_cell_def by blast
qed

lemmas spec_defs = metadata_spec_def workload_spec_def environment_spec_def metadata_keys_def workload_keys_def environment_keys_def

lemma build_summary_ready:
  assumes s: "build_summary u = Inr s" and m: "metadata_json u = Doc m" "printable_metadata m" and tree: "plots_ready tree"
  shows "report_ready (JObj (dict_put ''plots'' tree s))"
proof -
  obtain s0 s1 where s0: "displayE [(''metadata'', copy_entries m metadata_spec), (''workload'', copy_entries m workload_spec),
        (''environment'', copy_entries m environment_spec),
        (''wrk'', Inr (JObj [])), (''vegeta'', Inr (JObj [])), (''plots'', Inr (JObj []))] = Inr s0"
    and s1: "summarize_tool ''wrk'' summarize_wrk u s0 = Inr s1" and s2: "summarize_tool ''vegeta'' summarize_vegeta u s1 = Inr s"
    using s m(1) by (auto simp: build_summary_def elim!: bindE_InrE)
  have keep: "dict_get (dict_put ''plots'' tree s) k = dict_get s0 k" if "k \<notin> {''wrk'', ''vegeta'', ''plots''}" for k
    using that summarize_tool_get(1) [OF s1, of k] summarize_tool_get(1) [OF s2, of k] by (simp add: pydict.get_put)
  obtain md wl env where copies: "copy_entries m metadata_spec = Inr md" "copy_entries m workload_spec = Inr wl" "copy_entries m environment_spec = Inr env"
    using displayE_mem [OF s0] by (metis list.set_intros)
  have entries: "dict_get s0 ''metadata'' = Some md" "dict_get s0 ''workload'' = Some wl" "dict_get s0 ''environment'' = Some env"
      "dict_get s0 ''wrk'' = Some (JObj [])" "dict_get s0 ''vegeta'' = Some (JObj [])"
    by (simp_all add: displayE_val [OF s0] copies)
  have tool: "tool_ready (JObj (dict_put ''plots'' tree s)) tool keys"
    if "dict_get s tool = Some (JObj []) \<or> (\<exists>runs t. summarize_keys tool keys runs = Inr t \<and> dict_get s tool = Some t)"
      "distinct keys" "tool \<noteq> ''plots''" for tool keys
    using that summarize_keys_ready [of tool keys] by (auto simp: tool_ready_def pydict.get_put)
  have "dict_get s ''wrk'' = dict_get s1 ''wrk''" using summarize_tool_get(1) [OF s2, of "''wrk''"] by simp
  with summarize_tool_get(2) [OF s1] entries(4)
  have "tool_ready (JObj (dict_put ''plots'' tree s)) ''wrk'' wrk_metrics"
    by (intro tool) (auto simp: summarize_wrk_def wrk_metrics_def)
  moreover have "dict_get s1 ''vegeta'' = Some (JObj [])" using summarize_tool_get(1) [OF s1, of "''vegeta''"] entries(5) by simp
  with summarize_tool_get(2) [OF s2] have "tool_ready (JObj (dict_put ''plots'' tree s)) ''vegeta'' vegeta_metrics"
    by (intro tool) (auto simp: summarize_vegeta_def vegeta_metrics_def)
  moreover have "has_entries md metadata_keys" "has_entries wl workload_keys" "has_entries env environment_keys"
    by (rule copied_has_entries [OF copies(1) _ m(2)] copied_has_entries [OF copies(2) _ m(2)] copied_has_entries [OF copies(3) _ m(2)];
        auto simp: spec_defs)+
  moreover have "\<exists>protocol. getitem wl ''protocol'' = Inr (JStr protocol)"
  proof -
    have "(''protocol'', ''benchmark'', ''protocol'') \<in> set workload_spec" "distinct (map fst workload_spec)"
      by (simp_all add: workload_spec_def)
    from copy_entries_get [OF copies(2) this(2,1)] m(2) show ?thesis by (auto simp: printable_metadata_def)
  qed
  moreover have "getitem (JObj (dict_put ''plots'' tree s)) k = Inr v"
    if "dict_get s0 k = Some v" "k \<notin> {''wrk'', ''vegeta'', ''plots''}" for k v
    using keep that by simp
  then have "getitem (JObj (dict_put ''plots'' tree s)) ''metadata'' = Inr md"
    "getitem (JObj (dict_put ''plots'' tree s)) ''workload'' = Inr wl"
    "getitem (JObj (dict_put ''plots'' tree s)) ''environment'' = Inr env" using entries by simp_all
  moreover have "get_obj (JObj (dict_put ''plots'' tree s)) ''plots'' = Inr tree" by (simp add: pydict.get_put)
  ultimately show ?thesis using tree unfolding report_ready_def by blast
qed

section \<open>The two commands in sequence\<close>

lemma analyze_ready:
  assumes "analyze ds = (Inr (), t)" and "plots ds = []" and "metadata_json ds = Doc m" and "printable_metadata m"
  obtains s tree where "summary_json t = Doc (JObj (dict_put ''plots'' tree s))" and "collect_plot_paths t = Inr tree"
    and "plots_ready tree" and "report_ready (JObj (dict_put ''plots'' tree s))"
proof -
  obtain u s v tree where u: "parse_runs ds = (Inr (), u)" and s: "build_summary u = Inr s"
    and v: "generate_plots s u = (Inr (), v)" and tree: "collect_plot_paths v = Inr tree"
    and t: "t = v\<lparr>summary_json := Doc (JObj (dict_put ''plots'' tree s))\<rparr>"
    using analyze_returns [OF assms(1)] .
  have "no_raw u = no_raw ds" using keeps_snd [OF keeps_parse_keys(1)] u by (simp add: parse_runs_keys)
  then have "image_paths u = {}" "metadata_json u = Doc m" using assms(2,3) by (simp_all add: no_raw_def image_paths_def)
  then have "image_paths v \<subseteq> generated" using generate_plots_images [OF v] by simp
  then have "plots_ready tree" by (intro plots_ready_generated [OF collect_grown_from [OF tree]]) auto
  moreover from this have "report_ready (JObj (dict_put ''plots'' tree s))"
    using build_summary_ready s \<open>metadata_json u = Doc m\<close> assms(4) by blast
  moreover have "collect_plot_paths t = Inr tree" using tree collect_cong [of t v] t by simp
  ultimately show thesis using that t by simp
qed

lemma report_lines_index:
  assumes "plots_ready tree" and "report_ready (JObj (dict_put ''plots'' tree s))"
  shows "\<exists>lines. report_lines (JObj (dict_put ''plots'' tree s)) = Inr lines \<and>
    item_line ` {s. \<exists>ks. lookup ks tree = Some (JStr s)} \<subseteq> set lines"
proof -
  let ?s = "JObj (dict_put ''plots'' tree s)"
  have "get_obj ?s ''plots'' = Inr tree" by (simp add: pydict.get_put)
  from appendix_c_items [OF this assms(1)]
  obtain new where new: "emits (appendix_c ?s) (Inr ()) new" "item_line ` {s. \<exists>ks. lookup ks tree = Some (JStr s)} \<subseteq> set new"
    by blast
  have "appendix_c ?s \<in> set (report_sections ?s)" by (simp add: report_sections_def)
  from report_lines_contain [OF assms(2) this new(1)] new(2) show ?thesis by blast
qed

lemma generate_report_lines:
  "summary_json t = Doc s \<Longrightarrow> report_lines s = Inr lines \<Longrightarrow>
    generate_report t = (Inr (), t\<lparr>report_md := Some (join newline lines)\<rparr>)"
  by (simp add: generate_report_def load_summary_def md_save_def modifyA_def)

text \<open>C1. The pipeline completes. On a dataset without old plots whose metadata can be printed, whenever
  \<^verbatim>\<open>analyze.py\<close> returns, \<^verbatim>\<open>report_generator.py\<close> returns too and has written the report: every key, statistic and
  plot entry it reads is there, and no plot makes the primary metrics section raise.\<close>

theorem pipeline_completes:
  assumes "analyze ds = (Inr (), t)" and "plots ds = []" and "metadata_json ds = Doc m" and "printable_metadata m"
  shows "\<exists>lines. generate_report t = (Inr (), t\<lparr>report_md := Some (join newline lines)\<rparr>)"
proof -
  obtain s tree where st: "summary_json t = Doc (JObj (dict_put ''plots'' tree s))" "plots_ready tree"
    "report_ready (JObj (dict_put ''plots'' tree s))"
    using analyze_ready [OF assms] by blast
  from report_lines_index [OF st(2,3)] generate_report_lines [OF st(1)] show ?thesis by blast
qed

section \<open>The schema of the summary\<close>

fun is_number :: "json \<Rightarrow> bool" where
  "is_number (JNum n) = True"
| "is_number j = False"

text \<open>The statistics of a metric: eleven numbers.\<close>

definition statistic_names :: "string list" where
  "statistic_names = [''count'', ''mean'', ''median'', ''min'', ''max'', ''stddev'', ''coefficient_of_variation'',
     ''p50'', ''p90'', ''p95'', ''p99'']"

fun stats_schema :: "json \<Rightarrow> bool" where
  "stats_schema (JObj d) \<longleftrightarrow> dict_keys d = statistic_names \<and> list_all (is_number \<circ> snd) d"
| "stats_schema j \<longleftrightarrow> False"

text \<open>A load generator's part: empty when there is no parsed run, else the statistics of each of its metrics.\<close>

fun tool_schema :: "string list \<Rightarrow> json \<Rightarrow> bool" where
  "tool_schema metrics (JObj d) \<longleftrightarrow> d = [] \<or> dict_keys d = metrics \<and> list_all (stats_schema \<circ> snd) d"
| "tool_schema metrics j \<longleftrightarrow> False"

text \<open>A part that is copied from the metadata: under every key the value of the entry it is copied from.\<close>

definition copied :: "json \<Rightarrow> (string \<times> string \<times> string) list \<Rightarrow> json \<Rightarrow> bool" where
  "copied metadata spec j \<longleftrightarrow>
     list_all (\<lambda>(key, part, name). \<not> isl (getitem j key) \<and> getitem j key = bindE (getitem metadata part) (\<lambda>p. getitem p name)) spec"

lemma summarize_schema: "summarize js = Inr stats \<Longrightarrow> stats_schema stats"
  unfolding summarize_def summarize_nums_def by (elim bindE_InrE) (auto simp: statistic_names_def)

lemma summarize_keys_schema:
  assumes "summarize_keys tool keys runs = Inr t"
  shows "tool_schema keys t"
proof -
  obtain valid d where d: "t = JObj d" "mapE (\<lambda>k. bindE (summarize_key valid tool k) (\<lambda>s. Inr (k, s))) keys = Inr d"
    using assms by (auto simp: summarize_keys_def elim!: bindE_InrE)
  have "stats_schema (snd (d ! i))" if "i < length d" for i
  proof -
    have "bindE (summarize_key valid tool (keys ! i)) (\<lambda>s. Inr (keys ! i, s)) = Inr (d ! i)"
      using d(2) that by (auto simp: mapE_Inr_iff)
    then obtain stats where "summarize_key valid tool (keys ! i) = Inr stats" "d ! i = (keys ! i, stats)"
      by (auto elim!: bindE_InrE)
    then show ?thesis by (auto simp: summarize_key_def elim!: bindE_InrE dest: summarize_schema)
  qed
  then have "list_all (stats_schema \<circ> snd) d" by (auto simp: list_all_length)
  with mapE_tag [OF d(2)] d(1) show ?thesis by simp
qed

lemma summarize_tool_keys:
  "summarize_tool tool f ds s = Inr s' \<Longrightarrow> tool \<in> set (dict_keys s) \<Longrightarrow> dict_keys s' = dict_keys s"
  unfolding summarize_tool_def by (auto simp: dict_keys_put image_iff split: if_splits elim!: bindE_InrE) force

lemma copy_entries_copied:
  assumes "copy_entries m spec = Inr j" and "distinct (map fst spec)"
  shows "copied m spec j"
  using copy_entries_get [OF assms] by (fastforce simp: copied_def list_all_iff)

definition summary_names :: "string list" where
  "summary_names = [''metadata'', ''workload'', ''environment'', ''wrk'', ''vegeta'', ''plots'']"

lemma build_summary_schema:
  assumes "build_summary u = Inr s"
  obtains m md wl env w v where "metadata_json u = Doc m" and "dict_keys s = summary_names"
    and "dict_get s ''metadata'' = Some md" and "copied m metadata_spec md"
    and "dict_get s ''workload'' = Some wl" and "copied m workload_spec wl"
    and "dict_get s ''environment'' = Some env" and "copied m environment_spec env"
    and "dict_get s ''wrk'' = Some w" and "tool_schema wrk_metrics w"
    and "dict_get s ''vegeta'' = Some v" and "tool_schema vegeta_metrics v"
proof -
  obtain m where m: "metadata_json u = Doc m" using assms by (cases "metadata_json u") (auto simp: build_summary_def)
  let ?rs = "[(''metadata'', copy_entries m metadata_spec), (''workload'', copy_entries m workload_spec),
        (''environment'', copy_entries m environment_spec),
        (''wrk'', Inr (JObj [])), (''vegeta'', Inr (JObj [])), (''plots'', Inr (JObj []))]"
  obtain s0 s1 where s0: "displayE ?rs = Inr s0"
    and s1: "summarize_tool ''wrk'' summarize_wrk u s0 = Inr s1" and s2: "summarize_tool ''vegeta'' summarize_vegeta u s1 = Inr s"
    using assms m by (auto simp: build_summary_def elim!: bindE_InrE)
  obtain md wl env where copies: "copy_entries m metadata_spec = Inr md" "copy_entries m workload_spec = Inr wl"
      "copy_entries m environment_spec = Inr env"
    using displayE_mem [OF s0] by (metis list.set_intros)
  have k0: "dict_keys s0 = summary_names" using displayE_keys [OF s0] by (simp add: summary_names_def)
  then have k1: "dict_keys s1 = summary_names" using summarize_tool_keys [OF s1] by (simp add: summary_names_def)
  then have "dict_keys s = summary_names" using summarize_tool_keys [OF s2] by (simp add: summary_names_def)
  moreover have keep: "dict_get s k = dict_get s0 k" if "k \<noteq> ''wrk''" "k \<noteq> ''vegeta''" for k
    using that summarize_tool_get(1) [OF s1, of k] summarize_tool_get(1) [OF s2, of k] by simp
  have "dict_get s ''metadata'' = Some md" "dict_get s ''workload'' = Some wl" "dict_get s ''environment'' = Some env"
    by (simp_all add: keep displayE_val [OF s0] copies)
  moreover have "copied m metadata_spec md" "copied m workload_spec wl" "copied m environment_spec env"
    by (rule copy_entries_copied [OF copies(1)] copy_entries_copied [OF copies(2)] copy_entries_copied [OF copies(3)];
        simp add: spec_defs)+
  moreover have e: "dict_get s0 ''wrk'' = Some (JObj [])" "dict_get s0 ''vegeta'' = Some (JObj [])"
    by (simp_all add: displayE_val [OF s0] copies)
  have "\<exists>w. dict_get s ''wrk'' = Some w \<and> tool_schema wrk_metrics w"
    using summarize_tool_get(2) [OF s1] summarize_tool_get(1) [OF s2, of "''wrk''"] e(1)
    by (auto simp: summarize_wrk_def dest: summarize_keys_schema)
  moreover have "\<exists>v. dict_get s ''vegeta'' = Some v \<and> tool_schema vegeta_metrics v"
    using summarize_tool_get(2) [OF s2] summarize_tool_get(1) [OF s1, of "''vegeta''"] e(2)
    by (auto simp: summarize_vegeta_def dest: summarize_keys_schema)
  ultimately show thesis using that [OF m] by blast
qed

text \<open>C21. The schema of the summary. Whenever the analysis returns, on any dataset, \<^verbatim>\<open>summary.json\<close> is an object with
  exactly the six entries metadata, workload, environment, wrk, vegeta and plots, in this order: the first three have
  under every key the value of the entry of \<^verbatim>\<open>metadata.json\<close> it is copied from; the part of a load generator is empty
  or has, for each of its metrics, exactly the eleven statistics, each a number; and the plots are a tree
  of objects without duplicate keys whose leaves are strings.\<close>

theorem summary_has_schema:
  assumes "analyze ds = (Inr (), t)"
  shows "\<exists>m s. metadata_json ds = Doc m \<and> summary_json t = Doc (JObj s) \<and> dict_keys s = summary_names \<and>
    (\<exists>md. dict_get s ''metadata'' = Some md \<and> copied m metadata_spec md) \<and>
    (\<exists>wl. dict_get s ''workload'' = Some wl \<and> copied m workload_spec wl) \<and>
    (\<exists>env. dict_get s ''environment'' = Some env \<and> copied m environment_spec env) \<and>
    (\<exists>w. dict_get s ''wrk'' = Some w \<and> tool_schema wrk_metrics w) \<and>
    (\<exists>v. dict_get s ''vegeta'' = Some v \<and> tool_schema vegeta_metrics v) \<and>
    (\<exists>d. dict_get s ''plots'' = Some (JObj d) \<and> plot_tree (JObj d))"
proof -
  obtain u s v tree where u: "parse_runs ds = (Inr (), u)" and s: "build_summary u = Inr s"
    and tree: "collect_plot_paths v = Inr tree"
    and t: "t = v\<lparr>summary_json := Doc (JObj (dict_put ''plots'' tree s))\<rparr>"
    using analyze_returns [OF assms] .
  have "no_raw u = no_raw ds" using keeps_snd [OF keeps_parse_keys(1)] u by (simp add: parse_runs_keys)
  then have mu: "metadata_json u = metadata_json ds" by (simp add: no_raw_def)
  have "plot_tree tree" "is_obj tree" using collect_grown_from [OF tree] by (simp_all add: grown_from_def)
  then obtain d where d: "tree = JObj d" "plot_tree (JObj d)" by (cases tree) auto
  obtain m md wl env w x where m: "metadata_json u = Doc m" and "dict_keys s = summary_names"
    and "dict_get s ''metadata'' = Some md" "copied m metadata_spec md"
    and "dict_get s ''workload'' = Some wl" "copied m workload_spec wl"
    and "dict_get s ''environment'' = Some env" "copied m environment_spec env"
    and "dict_get s ''wrk'' = Some w" "tool_schema wrk_metrics w"
    and "dict_get s ''vegeta'' = Some x" "tool_schema vegeta_metrics x"
    using build_summary_schema [OF s] .
  moreover from this have "dict_keys (dict_put ''plots'' tree s) = summary_names"
    by (simp add: dict_keys_put summary_names_def)
  ultimately show ?thesis
    using t mu d by (intro exI [of _ m] exI [of _ "dict_put ''plots'' tree s"]) (simp add: pydict.get_put del: plot_tree_simps)
qed

text \<open>C15. The report lists every plot. On a dataset whose directory listings have no name twice, without old plots and with
  metadata that can be printed, if the analysis returns and no two PNG images are filed under the same key of the
  plot tree, then the report is written and its index has a line for every PNG image below \<^verbatim>\<open>plots/\<close>, with its path.
  (Metadata that cannot be printed or a foreign old plot can make the report raise; of two images under one
  key only one is listed.)\<close>

theorem report_lists_every_image:
  assumes "wf_dataset ds" and "analyze ds = (Inr (), t)" and "plots ds = []" and "metadata_json ds = Doc m" and "printable_metadata m"
    and "separate {p \<in> image_paths t. is_png p}"
  shows "\<exists>lines. generate_report t = (Inr (), t\<lparr>report_md := Some (join newline lines)\<rparr>) \<and>
    (\<forall>p \<in> image_paths t. is_png p \<longrightarrow> item_line (join ''/'' p) \<in> set lines)"
proof -
  obtain s tree where st: "summary_json t = Doc (JObj (dict_put ''plots'' tree s))" "collect_plot_paths t = Inr tree" "plots_ready tree"
    "report_ready (JObj (dict_put ''plots'' tree s))"
    using analyze_ready [OF assms(2-5)] by blast
  let ?s = "JObj (dict_put ''plots'' tree s)"
  obtain lines where lines: "report_lines ?s = Inr lines" "item_line ` {s. \<exists>ks. lookup ks tree = Some (JStr s)} \<subseteq> set lines"
    using report_lines_index [OF st(3,4)] by blast
  have "distinct (map fst (plots t))"
  proof -
    obtain u s' v tree' where u: "parse_runs ds = (Inr (), u)" and v: "generate_plots s' u = (Inr (), v)"
      and t: "t = v\<lparr>summary_json := Doc (JObj (dict_put ''plots'' tree' s'))\<rparr>"
      using analyze_returns [OF assms(2)] by metis
    have "distinct (map fst (plots u))"
      using wf_parse_keys [OF assms(1)] u by (simp add: parse_runs_keys wf_dataset_def)
    then show ?thesis using all_plotter.distinct_images [OF _ v] t by simp
  qed
  then have "files {p \<in> image_paths t. is_png p} tree"
    using collect_files assms(6) st(2) by fastforce
  then have "item_line (join ''/'' p) \<in> set lines" if "p \<in> image_paths t" "is_png p" for p
    using that lines(2) unfolding files_def by blast
  moreover note generate_report_lines [OF st(1) lines(1)]
  ultimately show ?thesis by blast
qed

section \<open>An example run of the pipeline\<close>

text \<open>One run of a tool that is neither wrk nor vegeta, with one pidstat line: four system plots.\<close>

definition oha_run :: run_dir where
  "oha_run = \<lparr>wrk_txt = None, vegeta_json = Absent, pidstat_txt = Some ''10:00 AM 0 42 1 2 3 4 50 5 6 7 8 2048 3 9 torus'',
     vmstat_txt = None, histogram_txt = None, parsed_json = Absent\<rparr>"

definition oha_parsed :: json where
  "oha_parsed = JObj [(''pidstat'', JList [JObj [(''time'', JStr ''10:00 AM''), (''pid'', JNum (PInt 42)),
     (''cpu'', JNum (PFloat 50)), (''rss'', JNum (PInt 2048)), (''mem'', JNum (PFloat 3)), (''command'', JStr ''torus'')]])]"

definition oha_dataset :: dataset where
  "oha_dataset = \<lparr>metadata_json = Doc example_metadata, raw = Some [(''oha'', Dir [(''run-1'', Dir oha_run)])], plots = [],
     summary_json = Absent, report_md = None\<rparr>"

definition oha_files :: "string list" where
  "oha_files = [''cpu-timeseries.png'', ''cpu-distribution.png'', ''memory-timeseries.png'', ''memory-distribution.png'']"

lemma oha_parse: "parse_run oha_run = Inr oha_parsed"
  by code_simp

lemma oha_parse_runs:
  "parse_runs oha_dataset = (Inr (), oha_dataset\<lparr>raw := Some [(''oha'', Dir [(''run-1'', Dir (oha_run\<lparr>parsed_json := Doc oha_parsed\<rparr>))])]\<rparr>)"
proof -
  have "run_keys oha_dataset = [(''oha'', ''run-1'')]" by code_simp
  moreover have "run_at ''oha'' ''run-1'' oha_dataset = Some (Dir oha_run)" by (simp add: run_at_def tool_entry_def oha_dataset_def)
  ultimately show ?thesis
    by (simp add: parse_runs_keys parse_run_dir_def call_parser_def parser_main_def action_defs oha_parse set_run_def oha_dataset_def)
qed

abbreviation oha_done :: dataset where
  "oha_done \<equiv> oha_dataset\<lparr>raw := Some [(''oha'', Dir [(''run-1'', Dir (oha_run\<lparr>parsed_json := Doc oha_parsed\<rparr>))])]\<rparr>"

lemma oha_samples:
  "samples f ''vmstat'' (tool_runs ''oha'' oha_done) = Inr []"
  "samples (field ''cpu'') ''pidstat'' (tool_runs ''oha'' oha_done) = Inr [[JNum (PFloat 50)]]"
  "samples rss_mb ''pidstat'' (tool_runs ''oha'' oha_done) = Inr [[JNum (PFloat 2)]]"
  by code_simp+

lemma oha_summary: "\<exists>s. build_summary oha_done = Inr s \<and> \<not> entry_truthy ''wrk'' s \<and> \<not> entry_truthy ''vegeta'' s"
proof -
  have "case build_summary oha_done of Inl _ \<Rightarrow> False | Inr s \<Rightarrow> \<not> entry_truthy ''wrk'' s \<and> \<not> entry_truthy ''vegeta'' s"
    by code_simp
  then show ?thesis by (auto split: sum.splits)
qed

lemma oha_images:
  "tool_drawable ''oha'' oha_done" "tool_images ''oha'' oha_done = (\<lambda>file. [''system'', ''oha'', file]) ` set oha_files"
  "tool_dirs oha_done = {''oha''}"
  by (auto simp: tool_drawable_def tool_images_def all_series_def drawable_def image_def oha_samples all_numbers_def oha_files_def tool_dirs_def)

lemma oha_generate:
  "\<exists>v. sys_generate oha_done = (Inr (), v) \<and> image_paths v = (\<lambda>file. [''system'', ''oha'', file]) ` set oha_files"
proof -
  obtain r v where v: "sys_generate oha_done = (r, v)" by fastforce
  let ?es = "[(''oha'', Dir [(''run-1'', Dir (oha_run\<lparr>parsed_json := Doc oha_parsed\<rparr>))])]"
  have "forA (by_name ?es) (\<lambda>(tool, entry). if \<not> is_dir entry then returnA () else generate_for_tool tool) oha_done = (r, v)"
    using v by (simp add: sys_generate_def)
  then have run: "generate_for_tool ''oha'' oha_done = (r, v)"
    by (simp add: by_name_def bindA_def returnA_def split: prod.splits sum.splits)
  have "tool_entry ''oha'' oha_done \<noteq> None" by (simp add: tool_entry_def)
  with draws_returns [OF draws_generate_for_tool run] oha_images(1) have ok: "r = Inr ()" by blast
  have "image_paths oha_done = {}" by (simp add: image_paths_def oha_dataset_def)
  with draws_images [OF draws_generate_for_tool, of "''oha''" oha_done v] run ok oha_images(2) \<open>tool_entry _ _ \<noteq> None\<close>
  show ?thesis using v by auto
qed

lemma oha_separate: "separate ((\<lambda>file. [''system'', ''oha'', file]) ` set oha_files)"
proof -
  have "distinct (map (\<lambda>file. plot_keys [''system'', ''oha'', file]) oha_files)" by code_simp
  then have "inj_on (\<lambda>file. plot_keys [''system'', ''oha'', file]) (set oha_files)"
    unfolding distinct_map by blast
  moreover have "prefix (plot_keys [''system'', ''oha'', f]) (plot_keys [''system'', ''oha'', g]) \<longleftrightarrow>
      plot_keys [''system'', ''oha'', f] = plot_keys [''system'', ''oha'', g]" for f g by simp
  ultimately show ?thesis unfolding separate_def inj_on_def by auto
qed

lemma oha_analyze:
  "\<exists>t. analyze oha_dataset = (Inr (), t) \<and> image_paths t = (\<lambda>file. [''system'', ''oha'', file]) ` set oha_files"
proof -
  obtain s where s: "build_summary oha_done = Inr s" "\<not> entry_truthy ''wrk'' s" "\<not> entry_truthy ''vegeta'' s"
    using oha_summary by blast
  obtain v where v: "sys_generate oha_done = (Inr (), v)" "image_paths v = (\<lambda>file. [''system'', ''oha'', file]) ` set oha_files"
    using oha_generate by blast
  have gen: "generate_plots s oha_done = (Inr (), v)" using s v(1) by (simp add: generate_plots_def)
  have "separate {p \<in> image_paths v. is_png p}" unfolding v(2) by (rule separate_mono [OF oha_separate]) auto
  moreover have "distinct (map fst (plots oha_done))" by (simp add: oha_dataset_def)
  then have "distinct (map fst (plots v))" by (rule all_plotter.distinct_images [OF _ gen])
  ultimately obtain tree where "collect_plot_paths v = Inr tree" using collect_files by blast
  with s gen have "analyze oha_dataset = (Inr (), v\<lparr>summary_json := Doc (JObj (dict_put ''plots'' tree s))\<rparr>)"
    by (simp add: analyze_def bindA_def oha_parse_runs getA_def liftA_def save_summary_def modifyA_def)
  then show ?thesis using v(2) by (auto simp: image_paths_def)
qed

lemma oha_metadata: "printable_metadata example_metadata"
  by (auto simp: printable_metadata_def metadata_spec_def workload_spec_def environment_spec_def example_metadata_def printable_def)

theorem pipeline_completes_witness:
  "\<exists>t lines. analyze oha_dataset = (Inr (), t) \<and> generate_report t = (Inr (), t\<lparr>report_md := Some (join newline lines)\<rparr>)"
proof -
  obtain t where t: "analyze oha_dataset = (Inr (), t)" using oha_analyze by blast
  have "plots oha_dataset = []" "metadata_json oha_dataset = Doc example_metadata" by (simp_all add: oha_dataset_def)
  from pipeline_completes [OF t this oha_metadata] t show ?thesis by blast
qed

theorem summary_has_schema_witness:
  "\<exists>t s. analyze oha_dataset = (Inr (), t) \<and> summary_json t = Doc (JObj s) \<and> dict_keys s = summary_names"
proof -
  obtain t where t: "analyze oha_dataset = (Inr (), t)" using oha_analyze by blast
  from summary_has_schema [OF t] t show ?thesis by blast
qed

theorem report_lists_every_image_witness:
  "\<exists>t lines. analyze oha_dataset = (Inr (), t) \<and> generate_report t = (Inr (), t\<lparr>report_md := Some (join newline lines)\<rparr>) \<and>
    item_line ''system/oha/cpu-timeseries.png'' \<in> set lines"
proof -
  obtain t where t: "analyze oha_dataset = (Inr (), t)" "image_paths t = (\<lambda>file. [''system'', ''oha'', file]) ` set oha_files"
    using oha_analyze by blast
  have m: "plots oha_dataset = []" "metadata_json oha_dataset = Doc example_metadata" by (simp_all add: oha_dataset_def)
  have "wf_dataset oha_dataset" by code_simp
  moreover have "separate {p \<in> image_paths t. is_png p}" unfolding t(2) by (rule separate_mono [OF oha_separate]) auto
  ultimately obtain lines where lines: "generate_report t = (Inr (), t\<lparr>report_md := Some (join newline lines)\<rparr>)"
    "\<forall>p \<in> image_paths t. is_png p \<longrightarrow> item_line (join ''/'' p) \<in> set lines"
    using report_lists_every_image [OF _ t(1) m oha_metadata] by blast
  have "[''system'', ''oha'', ''cpu-timeseries.png''] \<in> image_paths t" by (simp add: t(2) oha_files_def)
  moreover have "is_png [''system'', ''oha'', ''cpu-timeseries.png'']" by code_simp
  ultimately have "item_line ''system/oha/cpu-timeseries.png'' \<in> set lines" using lines(2) by fastforce
  with t(1) lines(1) show ?thesis by blast
qed

end
