(* ===== verification/Router.thy ===== *)
theory Router
  imports Prelude "HOL-Library.Sublist"
begin

text \<open>
  The request router of the proxy, \<^verbatim>\<open>internal/routing/router.go\<close>. A Go string is a list of bytes.
  The routes are a Go map from paths to pointers; a pointer is an \<^typ>\<open>'svc option\<close>, \<^const>\<open>None\<close> for
  \<^verbatim>\<open>nil\<close>. Go iterates over a map in an unspecified order, so \<open>Route\<close> takes the order of the iteration
  as an argument and its theorem holds for every order that enumerates the map. The reference
  definition \<open>longest_route\<close> walks down the prefixes of the path instead of scanning the routes.
\<close>

record 'svc Router =
  routes :: "string \<rightharpoonup> 'svc option"

definition NewRouter :: "'svc Router" where
  "NewRouter = \<lparr>routes = Map.empty\<rparr>"

definition AddRoute :: "string \<Rightarrow> 'svc option \<Rightarrow> 'svc Router \<Rightarrow> 'svc Router" where
  "AddRoute path svc r = r\<lparr>routes := (routes r)(path \<mapsto> svc)\<rparr>"

definition HasPrefix :: "string \<Rightarrow> string \<Rightarrow> bool" where
  "HasPrefix s p \<longleftrightarrow> length p \<le> length s \<and> take (length p) s = p"

text \<open>The loop over the routes with the variables \<^verbatim>\<open>bestmatch\<close> and \<^verbatim>\<open>bestSvc\<close>. The index \<^verbatim>\<open>path[len(routeKey)]\<close> is
  in range when it is evaluated: the key is a prefix of the path and has another length.\<close>

fun route_loop :: "string \<Rightarrow> (string \<times> 'svc option) list \<Rightarrow> string \<Rightarrow> 'svc option \<Rightarrow> string \<times> 'svc option" where
  "route_loop path [] bestmatch bestSvc = (bestmatch, bestSvc)"
| "route_loop path ((routeKey, svc) # rest) bestmatch bestSvc =
    (if \<not> HasPrefix path routeKey then route_loop path rest bestmatch bestSvc
     else if length path = length routeKey \<or> path ! length routeKey = CHR ''/'' then
       if length bestmatch < length routeKey then route_loop path rest routeKey svc
       else route_loop path rest bestmatch bestSvc
     else route_loop path rest bestmatch bestSvc)"

text \<open>The entries of the map in the order of the iteration.\<close>

definition entries_in :: "string list \<Rightarrow> (string \<rightharpoonup> 'v) \<Rightarrow> (string \<times> 'v) list" where
  "entries_in order m = List.map_filter (\<lambda>k. map_option (Pair k) (m k)) order"

definition enumerates :: "string list \<Rightarrow> (string \<rightharpoonup> 'v) \<Rightarrow> bool" where
  "enumerates order m \<longleftrightarrow> distinct order \<and> set order = dom m"

definition Route :: "string list \<Rightarrow> 'svc Router \<Rightarrow> string \<Rightarrow> string \<times> 'svc option" where
  "Route order r path = route_loop path (entries_in order (routes r)) [] None"

section \<open>Longest prefix match\<close>

text \<open>The route matches the path: it is a prefix that ends at the end of the path or before a slash.\<close>

definition matches :: "string \<Rightarrow> string \<Rightarrow> bool" where
  "matches path k \<longleftrightarrow> HasPrefix path k \<and> (length path = length k \<or> path ! length k = CHR ''/'')"

text \<open>The reference: the longest non-empty prefix of length at most \<open>n\<close> that is a matching route.\<close>

fun longest_upto :: "(string \<rightharpoonup> 'svc option) \<Rightarrow> string \<Rightarrow> nat \<Rightarrow> string \<times> 'svc option" where
  "longest_upto m path 0 = ([], None)"
| "longest_upto m path (Suc n) =
    (case m (take (Suc n) path) of
       Some svc \<Rightarrow> if matches path (take (Suc n) path) then (take (Suc n) path, svc) else longest_upto m path n
     | None \<Rightarrow> longest_upto m path n)"

definition longest_route :: "(string \<rightharpoonup> 'svc option) \<Rightarrow> string \<Rightarrow> string \<times> 'svc option" where
  "longest_route m path = longest_upto m path (length path)"

lemma matches_take: "matches path k \<Longrightarrow> k = take (length k) path \<and> length k \<le> length path"
  by (auto simp: matches_def HasPrefix_def)

lemma matches_length_inj: "matches path k \<Longrightarrow> matches path k' \<Longrightarrow> length k = length k' \<Longrightarrow> k = k'"
  by (metis matches_take)

text \<open>What both definitions compute: a matching route that no matching route exceeds, if there is one.\<close>

definition best_route :: "(string \<times> 'svc option) set \<Rightarrow> string \<Rightarrow> string \<times> 'svc option \<Rightarrow> bool" where
  "best_route es path b \<longleftrightarrow>
    (\<forall>(k, svc) \<in> es. matches path k \<longrightarrow> length k \<le> length (fst b)) \<and>
    (b = ([], None) \<or> (b \<in> es \<and> matches path (fst b) \<and> fst b \<noteq> []))"

lemma best_route_unique:
  assumes "best_route es path b" and "best_route es path b'"
    and "\<And>k svc svc'. (k, svc) \<in> es \<Longrightarrow> (k, svc') \<in> es \<Longrightarrow> svc = svc'"
  shows "b = b'"
proof (cases b; cases b')
  fix k svc k' svc' assume b: "b = (k, svc)" "b' = (k', svc')"
  have "length k = length k'"
    using assms(1,2) unfolding b best_route_def by (auto intro!: le_antisym)
  then show ?thesis
    using assms unfolding b best_route_def by (auto dest: matches_length_inj)
qed

lemma route_loop_best:
  assumes "best_route seen path (bestmatch, bestSvc)"
  shows "best_route (seen \<union> set es) path (route_loop path es bestmatch bestSvc)"
  using assms
proof (induction es arbitrary: seen bestmatch bestSvc)
  case Nil
  then show ?case by simp
next
  case (Cons e es)
  obtain k svc where e: "e = (k, svc)" by (cases e)
  let ?b = "if matches path k \<and> length bestmatch < length k then (k, svc) else (bestmatch, bestSvc)"
  have "best_route (insert e seen) path ?b"
    using Cons.prems unfolding e best_route_def by (fastforce split: if_splits)
  then have "best_route (insert e seen \<union> set es) path (route_loop path es (fst ?b) (snd ?b))"
    by (intro Cons.IH) simp
  moreover have "route_loop path (e # es) bestmatch bestSvc = route_loop path es (fst ?b) (snd ?b)"
    by (simp add: e matches_def)
  ultimately show ?case by (simp add: insert_commute)
qed

lemma longest_upto_best:
  assumes "\<forall>k. matches path k \<longrightarrow> n < length k \<longrightarrow> m k = None" and "n \<le> length path"
  shows "best_route {(k, svc). m k = Some svc} path (longest_upto m path n)"
  using assms
proof (induction n)
  case 0
  have "m k = None" if "matches path k" "k \<noteq> []" for k using 0 that by simp
  then show ?case by (force simp: best_route_def)
next
  case (Suc n)
  let ?k = "take (Suc n) path"
  have len: "length ?k = Suc n" using Suc.prems(2) by simp
  have only: "k = ?k" if "matches path k" "length k = Suc n" for k
    using matches_take [OF that(1)] that(2) by simp
  show ?case
  proof (cases "m ?k \<noteq> None \<and> matches path ?k")
    case True
    then obtain svc where svc: "m ?k = Some svc" by auto
    have "length k \<le> Suc n" if "matches path k" "m k = Some s" for k s
      using Suc.prems(1) that by (force simp: not_le [symmetric])
    then show ?thesis using True svc len by (auto simp: best_route_def)
  next
    case False
    have "\<forall>k. matches path k \<longrightarrow> n < length k \<longrightarrow> m k = None"
      using Suc.prems(1) only False by (metis Suc_lessI)
    then show ?thesis using Suc.IH Suc.prems(2) False by (auto split: option.split)
  qed
qed

lemma set_entries_in: "enumerates order m \<Longrightarrow> set (entries_in order m) = {(k, v). m k = Some v}"
  by (force simp: enumerates_def entries_in_def map_filter_def)

lemma Route_reference:
  assumes "enumerates order (routes r)"
  shows "Route order r path = longest_route (routes r) path"
proof (rule best_route_unique)
  show "best_route {(k, svc). routes r k = Some svc} path (Route order r path)"
    using route_loop_best [of "{}" path "[]" None "entries_in order (routes r)"] set_entries_in [OF assms]
    by (simp add: Route_def best_route_def)
  show "best_route {(k, svc). routes r k = Some svc} path (longest_route (routes r) path)"
    unfolding longest_route_def by (rule longest_upto_best) (auto dest: matches_take)
qed auto

text \<open>C6. Longest prefix match. Whatever the order in which Go iterates over the map, \<^verbatim>\<open>Route\<close> returns what the
  walk down the prefixes of the path returns: the longest route that is a prefix of the path ending at
  a segment boundary, with its service, and the empty route with no service if there is none.\<close>

theorem Route_longest_prefix:
  assumes "enumerates order (routes r)"
  shows "Route order r path = longest_route (routes r) path"
  using assms by (rule Route_reference)

theorem Route_longest_prefix_witness:
  "Route [''/api'', ''/api/v2'', ''/a''] (AddRoute ''/api/v2'' (Some 2) (AddRoute ''/api'' (Some 1) (AddRoute ''/a'' (Some (0::nat)) NewRouter)))
      ''/api/v2/users'' = (''/api/v2'', Some 2)"
proof -
  let ?r = "AddRoute ''/api/v2'' (Some 2) (AddRoute ''/api'' (Some 1) (AddRoute ''/a'' (Some (0::nat)) NewRouter))"
  have "enumerates [''/api'', ''/api/v2'', ''/a''] (routes ?r)"
    by (auto simp: enumerates_def AddRoute_def NewRouter_def)
  moreover have "longest_route (routes ?r) ''/api/v2/users'' = (''/api/v2'', Some 2)"
    by (simp add: longest_route_def AddRoute_def NewRouter_def matches_def HasPrefix_def numeral_eq_Suc)
  ultimately show ?thesis using Route_longest_prefix [of _ ?r "''/api/v2/users''"] by simp
qed

text \<open>A route \<^verbatim>\<open>/\<close> serves the root only: below it a path matches only if another slash follows.\<close>

lemma matches_root: "matches path ''/'' \<longleftrightarrow> path = ''/'' \<or> (\<exists>rest. path = ''//'' @ rest)"
  by (cases path; cases "tl path") (auto simp: matches_def HasPrefix_def)

lemma root_is_no_catch_all: "Route [''/''] (AddRoute ''/'' (Some svc) NewRouter) ''/users'' = ([], None)"
  by (simp add: Route_def entries_in_def map_filter_def AddRoute_def NewRouter_def HasPrefix_def)

end
