(* ===== verification/Config.thy ===== *)
theory Config
  imports Router "HOL-Library.Word"
begin

text \<open>
  The configuration of the proxy, \<^verbatim>\<open>internal/config/config.go\<close>: the structs as records, \<^verbatim>\<open>Validate\<close> with its
  loops and early returns, the durations of the health check in 64-bit arithmetic, and \<^verbatim>\<open>LoadConfig\<close>. A Go
  string is a list of bytes; \<^verbatim>\<open>strings.TrimSpace\<close> and \<^verbatim>\<open>strconv.Atoi\<close> are written out. The file, the YAML
  decoder, \<^verbatim>\<open>url.ParseRequestURI\<close> and the key-pair loader are arguments; their errors are strings.
\<close>

section \<open>Strings\<close>

text \<open>The UTF-8 encodings of the white space of \<^verbatim>\<open>unicode.IsSpace\<close>.\<close>

definition space_runes :: "string list" where
  "space_runes = [[CHR 0x09], [CHR 0x0A], [CHR 0x0B], [CHR 0x0C], [CHR 0x0D], [CHR 0x20],
     [CHR 0xC2, CHR 0x85], [CHR 0xC2, CHR 0xA0], [CHR 0xE1, CHR 0x9A, CHR 0x80],
     [CHR 0xE2, CHR 0x80, CHR 0x80], [CHR 0xE2, CHR 0x80, CHR 0x81], [CHR 0xE2, CHR 0x80, CHR 0x82],
     [CHR 0xE2, CHR 0x80, CHR 0x83], [CHR 0xE2, CHR 0x80, CHR 0x84], [CHR 0xE2, CHR 0x80, CHR 0x85],
     [CHR 0xE2, CHR 0x80, CHR 0x86], [CHR 0xE2, CHR 0x80, CHR 0x87], [CHR 0xE2, CHR 0x80, CHR 0x88],
     [CHR 0xE2, CHR 0x80, CHR 0x89], [CHR 0xE2, CHR 0x80, CHR 0x8A], [CHR 0xE2, CHR 0x80, CHR 0xA8],
     [CHR 0xE2, CHR 0x80, CHR 0xA9], [CHR 0xE2, CHR 0x80, CHR 0xAF], [CHR 0xE2, CHR 0x81, CHR 0x9F],
     [CHR 0xE3, CHR 0x80, CHR 0x80]]"

function strip_front :: "string list \<Rightarrow> string \<Rightarrow> string" where
  "strip_front ws s =
    (case List.find (\<lambda>w. w \<noteq> [] \<and> HasPrefix s w) ws of
       None \<Rightarrow> s
     | Some w \<Rightarrow> strip_front ws (drop (length w) s))"
  by auto

termination
proof (relation "measure (length \<circ> snd)")
  fix ws s w assume "List.find (\<lambda>w. w \<noteq> [] \<and> HasPrefix s w) ws = Some w"
  then have "w \<noteq> []" "length w \<le> length s" by (auto simp: find_Some_iff HasPrefix_def)
  then show "((ws, drop (length w) s), ws, s) \<in> measure (length \<circ> snd)"
    by (cases w; cases s) auto
qed simp

declare strip_front.simps [simp del]

definition TrimSpace :: "string \<Rightarrow> string" where
  "TrimSpace s = rev (strip_front (map rev space_runes) (rev (strip_front space_runes s)))"

definition digit :: "char \<Rightarrow> nat option" where
  "digit c = (let n = of_char c :: nat in if 48 \<le> n \<and> n \<le> 57 then Some (n - 48) else None)"

fun digits_value :: "nat \<Rightarrow> string \<Rightarrow> nat option" where
  "digits_value acc [] = Some acc"
| "digits_value acc (c # cs) = (case digit c of None \<Rightarrow> None | Some d \<Rightarrow> digits_value (10 * acc + d) cs)"

definition Atoi :: "string \<Rightarrow> int option" where
  "Atoi s =
    (let neg = (s \<noteq> [] \<and> hd s = CHR ''-''); ds = (if s \<noteq> [] \<and> hd s \<in> {CHR ''-'', CHR ''+''} then tl s else s)
     in if ds = [] then None
        else case digits_value 0 ds of
          None \<Rightarrow> None
        | Some n \<Rightarrow>
            (let v = (if neg then - int n else int n)
             in if - (2 ^ 63) \<le> v \<and> v < 2 ^ 63 then Some v else None))"

section \<open>The structs\<close>

record HealthCheckConfig =
  IntervalMs :: "64 word"
  TimeoutMs :: "64 word"
  HealthPath :: string

record ServiceConfig =
  Name :: string
  Upstreams :: "string list"

record RouteConfig =
  Path :: string
  ServiceName :: string

record TlsConfig =
  CertFile :: string
  KeyFile :: string
  MinVersion :: string

record Config =
  APIVersion :: string
  ServerAddr :: string
  HealthCheck :: HealthCheckConfig
  Services :: "ServiceConfig list"
  Routes :: "RouteConfig list"
  Tls :: "TlsConfig option"
  ObservabilityEnabled :: "bool option"

definition EnabledValue :: "bool option \<Rightarrow> bool" where
  "EnabledValue c = (case c of None \<Rightarrow> True | Some b \<Rightarrow> b)"

text \<open>A \<^verbatim>\<open>time.Duration\<close> is a signed 64-bit number of nanoseconds; the products wrap around.\<close>

definition Interval :: "HealthCheckConfig \<Rightarrow> 64 word" where
  "Interval h = IntervalMs h * 1000000"

definition Timeout :: "HealthCheckConfig \<Rightarrow> 64 word" where
  "Timeout h = TimeoutMs h * 1000000"

section \<open>Validation\<close>

datatype config_error =
    AddrEmpty
  | IntervalNotPositive
  | TimeoutNotPositive
  | TimeoutAboveInterval
  | HealthPathEmpty
  | HealthPathNoSlash
  | NoServices
  | ServiceNameEmpty nat
  | DuplicateService string
  | NoUpstreams nat
  | UpstreamEmpty nat nat
  | UpstreamInvalidURL nat nat string
  | UpstreamScheme nat nat string
  | UpstreamNoHost nat nat
  | UpstreamNoPort nat nat
  | UpstreamPortInvalid nat nat string
  | UpstreamPortRange nat nat int
  | NoRoutes
  | RoutePathEmpty nat
  | DuplicateRoute string
  | RouteServiceEmpty nat
  | RouteServiceUnknown nat string
  | CertFileEmpty
  | KeyFileEmpty
  | MinVersionInvalid
  | UnsupportedAPIVersion string
  | ReadError string
  | YamlError string

record parsed_url =
  Scheme :: string
  Hostname :: string
  Port :: string

type_synonym url_parser = "string \<Rightarrow> string + parsed_url"

definition check_upstream :: "url_parser \<Rightarrow> nat \<Rightarrow> nat \<Rightarrow> string \<Rightarrow> config_error option" where
  "check_upstream ParseRequestURI i j upstream =
    (if TrimSpace upstream = [] then Some (UpstreamEmpty i j)
     else case ParseRequestURI upstream of
       Inl err \<Rightarrow> Some (UpstreamInvalidURL i j err)
     | Inr u \<Rightarrow>
         if Scheme u \<notin> {''http'', ''https''} then Some (UpstreamScheme i j (Scheme u))
         else if Hostname u = [] then Some (UpstreamNoHost i j)
         else if Port u = [] then Some (UpstreamNoPort i j)
         else case Atoi (Port u) of
           None \<Rightarrow> Some (UpstreamPortInvalid i j (Port u))
         | Some portNum \<Rightarrow>
             if portNum < 1 \<or> portNum > 65535 then Some (UpstreamPortRange i j portNum) else None)"

fun check_upstreams :: "url_parser \<Rightarrow> nat \<Rightarrow> nat \<Rightarrow> string list \<Rightarrow> config_error option" where
  "check_upstreams parse i j [] = None"
| "check_upstreams parse i j (u # us) =
    (case check_upstream parse i j u of Some e \<Rightarrow> Some e | None \<Rightarrow> check_upstreams parse i (Suc j) us)"

text \<open>The loop over the services gives the first error or the set \<^verbatim>\<open>seenServices\<close>.\<close>

fun check_services :: "url_parser \<Rightarrow> nat \<Rightarrow> string set \<Rightarrow> ServiceConfig list \<Rightarrow> config_error + string set" where
  "check_services parse i seen [] = Inr seen"
| "check_services parse i seen (svc # svcs) =
    (let name = TrimSpace (Name svc)
     in if name = [] then Inl (ServiceNameEmpty i)
        else if name \<in> seen then Inl (DuplicateService name)
        else if Upstreams svc = [] then Inl (NoUpstreams i)
        else case check_upstreams parse i 0 (Upstreams svc) of
          Some e \<Rightarrow> Inl e
        | None \<Rightarrow> check_services parse (Suc i) (insert name seen) svcs)"

fun check_routes :: "string set \<Rightarrow> nat \<Rightarrow> string set \<Rightarrow> RouteConfig list \<Rightarrow> config_error option" where
  "check_routes seenServices i seenPaths [] = None"
| "check_routes seenServices i seenPaths (r # rs) =
    (let serviceName = TrimSpace (ServiceName r)
     in if TrimSpace (Path r) = [] then Some (RoutePathEmpty i)
        else if Path r \<in> seenPaths then Some (DuplicateRoute (Path r))
        else if serviceName = [] then Some (RouteServiceEmpty i)
        else if serviceName \<notin> seenServices then Some (RouteServiceUnknown i serviceName)
        else check_routes seenServices (Suc i) (insert (Path r) seenPaths) rs)"

fun check_tls :: "TlsConfig option \<Rightarrow> config_error option" where
  "check_tls None = None"
| "check_tls (Some t) =
    (if TrimSpace (CertFile t) = [] then Some CertFileEmpty
     else if TrimSpace (KeyFile t) = [] then Some KeyFileEmpty
     else if MinVersion t \<notin> {[], ''1.2'', ''1.3''} then Some MinVersionInvalid
     else None)"

definition Validate :: "url_parser \<Rightarrow> Config \<Rightarrow> config_error option" where
  "Validate parse c =
    (if TrimSpace (ServerAddr c) = [] then Some AddrEmpty
     else if sint (IntervalMs (HealthCheck c)) \<le> 0 then Some IntervalNotPositive
     else if sint (TimeoutMs (HealthCheck c)) \<le> 0 then Some TimeoutNotPositive
     else if sint (TimeoutMs (HealthCheck c)) > sint (IntervalMs (HealthCheck c)) then Some TimeoutAboveInterval
     else if TrimSpace (HealthPath (HealthCheck c)) = [] then Some HealthPathEmpty
     else if \<not> HasPrefix (HealthPath (HealthCheck c)) ''/'' then Some HealthPathNoSlash
     else if Services c = [] then Some NoServices
     else case check_services parse 0 {} (Services c) of
       Inl e \<Rightarrow> Some e
     | Inr seenServices \<Rightarrow>
         if Routes c = [] then Some NoRoutes
         else case check_routes seenServices 0 {} (Routes c) of
           Some e \<Rightarrow> Some e
         | None \<Rightarrow> check_tls (Tls c))"

definition LoadConfig :: "(string \<Rightarrow> string + string) \<Rightarrow> (string \<Rightarrow> string + Config) \<Rightarrow> url_parser \<Rightarrow> string \<Rightarrow> config_error + Config" where
  "LoadConfig ReadFile Unmarshal parse path =
    (case ReadFile path of
       Inl err \<Rightarrow> Inl (ReadError err)
     | Inr bytes \<Rightarrow>
         (case Unmarshal bytes of
            Inl err \<Rightarrow> Inl (YamlError err)
          | Inr config \<Rightarrow>
              if APIVersion config \<noteq> ''v2'' then Inl (UnsupportedAPIVersion (APIVersion config))
              else case Validate parse config of
                Some e \<Rightarrow> Inl e
              | None \<Rightarrow> Inr config))"

section \<open>What validation accepts\<close>

definition good_upstream :: "url_parser \<Rightarrow> string \<Rightarrow> bool" where
  "good_upstream parse u \<longleftrightarrow> TrimSpace u \<noteq> [] \<and>
    (\<exists>p n. parse u = Inr p \<and> Scheme p \<in> {''http'', ''https''} \<and> Hostname p \<noteq> [] \<and> Atoi (Port p) = Some n \<and> n \<in> {1..65535})"

definition good_tls :: "TlsConfig option \<Rightarrow> bool" where
  "good_tls c \<longleftrightarrow> (\<forall>t. c = Some t \<longrightarrow> TrimSpace (CertFile t) \<noteq> [] \<and> TrimSpace (KeyFile t) \<noteq> [] \<and> MinVersion t \<in> {[], ''1.2'', ''1.3''})"

definition acceptable :: "url_parser \<Rightarrow> Config \<Rightarrow> bool" where
  "acceptable parse c \<longleftrightarrow>
    TrimSpace (ServerAddr c) \<noteq> [] \<and>
    0 < sint (TimeoutMs (HealthCheck c)) \<and> sint (TimeoutMs (HealthCheck c)) \<le> sint (IntervalMs (HealthCheck c)) \<and>
    HasPrefix (HealthPath (HealthCheck c)) ''/'' \<and>
    Services c \<noteq> [] \<and> distinct (map (TrimSpace \<circ> Name) (Services c)) \<and>
    (\<forall>svc \<in> set (Services c). TrimSpace (Name svc) \<noteq> [] \<and> Upstreams svc \<noteq> [] \<and> (\<forall>u \<in> set (Upstreams svc). good_upstream parse u)) \<and>
    Routes c \<noteq> [] \<and> distinct (map Path (Routes c)) \<and>
    (\<forall>r \<in> set (Routes c). TrimSpace (Path r) \<noteq> [] \<and> TrimSpace (ServiceName r) \<in> (TrimSpace \<circ> Name) ` set (Services c)) \<and>
    good_tls (Tls c)"

lemma Atoi_Nil [simp]: "Atoi [] = None"
  by (simp add: Atoi_def)

lemma check_upstream_None: "check_upstream parse i j u = None \<longleftrightarrow> good_upstream parse u"
  by (auto simp: check_upstream_def good_upstream_def split: sum.splits option.splits)

lemma first_error_None: "(case x of Some e \<Rightarrow> Some e | None \<Rightarrow> y) = None \<longleftrightarrow> x = None \<and> y = None"
  by (cases x) auto

lemma first_error_Inr: "(case x of Some e \<Rightarrow> Inl e | None \<Rightarrow> y) = Inr z \<longleftrightarrow> x = None \<and> y = Inr z"
  by (cases x) auto

lemma check_upstreams_None: "check_upstreams parse i j us = None \<longleftrightarrow> (\<forall>u \<in> set us. good_upstream parse u)"
  by (induction us arbitrary: j) (simp_all add: first_error_None check_upstream_None)

lemma check_services_Inr:
  "check_services parse i seen svcs = Inr names \<longleftrightarrow>
    names = seen \<union> (TrimSpace \<circ> Name) ` set svcs \<and> distinct (map (TrimSpace \<circ> Name) svcs) \<and>
    seen \<inter> (TrimSpace \<circ> Name) ` set svcs = {} \<and>
    (\<forall>svc \<in> set svcs. TrimSpace (Name svc) \<noteq> [] \<and> Upstreams svc \<noteq> [] \<and> (\<forall>u \<in> set (Upstreams svc). good_upstream parse u))"
proof (induction svcs arbitrary: i seen)
  case (Cons svc svcs)
  show ?case
    by (auto simp: Let_def first_error_Inr Cons.IH check_upstreams_None)
qed auto


lemma check_routes_None:
  "check_routes names i seen rs = None \<longleftrightarrow> distinct (map Path rs) \<and> seen \<inter> Path ` set rs = {} \<and>
    (\<forall>r \<in> set rs. TrimSpace (Path r) \<noteq> [] \<and> TrimSpace (ServiceName r) \<noteq> [] \<and> TrimSpace (ServiceName r) \<in> names)"
proof (induction rs arbitrary: i seen)
  case (Cons r rs)
  show ?case by (auto simp: Let_def Cons.IH)
qed simp

lemma check_tls_None: "check_tls c = None \<longleftrightarrow> good_tls c"
  by (cases c) (auto simp: good_tls_def)

text \<open>A string with a first byte that starts no white space is not blank.\<close>

lemma strip_front_skip: "List.find (\<lambda>w. w \<noteq> [] \<and> HasPrefix s w) ws = None \<Longrightarrow> strip_front ws s = s"
  by (simp add: strip_front.simps)

lemma strip_front_keeps_last:
  "c \<notin> \<Union> (set ` set ws) \<Longrightarrow> \<exists>zs. strip_front ws (ys @ [c]) = zs @ [c]"
proof (induction "length ys" arbitrary: ys rule: less_induct)
  case less
  show ?case
  proof (cases "List.find (\<lambda>w. w \<noteq> [] \<and> HasPrefix (ys @ [c]) w) ws")
    case None
    then show ?thesis by (simp add: strip_front_skip)
  next
    case (Some w)
    then have w: "w \<in> set ws" "w \<noteq> []" "HasPrefix (ys @ [c]) w" by (auto simp: find_Some_iff)
    have "length w \<le> length ys"
    proof (rule ccontr)
      assume "\<not> length w \<le> length ys"
      with w(3) have "w = ys @ [c]" by (auto simp: HasPrefix_def)
      then show False using w(1) less.prems by force
    qed
    then have d: "drop (length w) (ys @ [c]) = drop (length w) ys @ [c]" by simp
    have "length (drop (length w) ys) < length ys" using w(2) \<open>length w \<le> length ys\<close> by (cases w; cases ys) auto
    from less.hyps [OF this less.prems] show ?thesis using Some d by (simp add: strip_front.simps [of ws "ys @ [c]"])
  qed
qed

lemma TrimSpace_slash: "HasPrefix s ''/'' \<Longrightarrow> TrimSpace s \<noteq> []"
proof -
  assume "HasPrefix s ''/''"
  then obtain t where s: "s = CHR ''/'' # t" by (cases s) (auto simp: HasPrefix_def)
  have "strip_front space_runes s = s"
    by (rule strip_front_skip) (simp add: s space_runes_def HasPrefix_def)
  moreover have "\<exists>zs. strip_front (map rev space_runes) (rev t @ [CHR ''/'']) = zs @ [CHR ''/'']"
    by (rule strip_front_keeps_last) (simp add: space_runes_def)
  ultimately show ?thesis by (auto simp: TrimSpace_def s)
qed

lemma Validate_acceptable: "Validate parse c = None \<longleftrightarrow> acceptable parse c"
proof -
  let ?h = "HealthCheck c" and ?names = "(TrimSpace \<circ> Name) ` set (Services c)"
  let ?services = "distinct (map (TrimSpace \<circ> Name) (Services c)) \<and> (\<forall>svc \<in> set (Services c).
    TrimSpace (Name svc) \<noteq> [] \<and> Upstreams svc \<noteq> [] \<and> (\<forall>u \<in> set (Upstreams svc). good_upstream parse u))"
  have svcs: "check_services parse 0 {} (Services c) = Inr ns \<longleftrightarrow> ns = ?names \<and> ?services" for ns
    by (simp add: check_services_Inr)
  show ?thesis
  proof (cases "?services")
    case True
    then have "check_services parse 0 {} (Services c) = Inr ?names" by (simp add: svcs)
    moreover have "TrimSpace (HealthPath ?h) \<noteq> []" if "HasPrefix (HealthPath ?h) ''/''" using TrimSpace_slash [OF that] .
    ultimately show ?thesis using True
      by (auto simp: Validate_def acceptable_def first_error_None check_routes_None check_tls_None image_iff)
  next
    case False
    then obtain e where "check_services parse 0 {} (Services c) = Inl e"
      using svcs by (metis sum.exhaust)
    then show ?thesis using False by (auto simp: Validate_def acceptable_def)
  qed
qed


text \<open>C28. Validation. \<^verbatim>\<open>Validate\<close> returns no error exactly for the acceptable configurations: an address, a
  health check with a positive timeout that is at most the interval and a path with a leading slash,
  services with distinct trimmed names and at least one upstream each, all with scheme http or https, a
  host and a port in 1..65535, routes with distinct paths whose trimmed services exist, and complete TLS
  settings.\<close>

theorem Validate_accepts: "Validate parse c = None \<longleftrightarrow> acceptable parse c"
  by (rule Validate_acceptable)

section \<open>Durations\<close>

text \<open>A \<^verbatim>\<open>time.Ticker\<close> needs a positive interval. Up to about 292 years the interval is what the configuration
  says; above, validation still accepts the number and the product is negative.\<close>

lemma Interval_exact:
  assumes "0 < sint (IntervalMs h)" and "sint (IntervalMs h) \<le> 9223372036854"
  shows "sint (Interval h) = sint (IntervalMs h) * 1000000"
proof -
  have "sint (Interval h) = signed_take_bit 63 (sint (IntervalMs h) * 1000000)"
    by (simp add: Interval_def sint_word_ariths)
  also have "\<dots> = sint (IntervalMs h) * 1000000"
    using assms by (intro signed_take_bit_int_eq_self) simp_all
  finally show ?thesis .
qed

lemma Interval_overflows: "0 < sint (9223372036855 :: 64 word) \<and> sint (Interval (h\<lparr>IntervalMs := 9223372036855\<rparr>)) < 0"
  by (simp add: Interval_def)

end
