(* ===== verification/RoundRobin.thy ===== *)
theory RoundRobin
  imports Prelude "HOL-Library.Word" "HOL-Library.Multiset"
begin

text \<open>
  Backends and their load balancer: \<^verbatim>\<open>internal/upstream/backend.go\<close> (the health flag),
  \<^verbatim>\<open>internal/loadbalancer/balancer.go\<close> and \<^verbatim>\<open>round_robin.go\<close>, \<^verbatim>\<open>internal/service/service.go\<close>. A pointer to a
  backend of a pool is its position in the pool: every backend object is in one pool, at one position.
  The atomic counter is a 64-bit word and wraps around. The first part models a call of \<^verbatim>\<open>Next\<close> that runs
  alone; the second part interleaves the probes of concurrent calls.
\<close>

record Backend =
  URL :: string
  healthy :: bool
  observabilityEnabled :: bool

definition IsHealthy :: "Backend \<Rightarrow> bool" where
  "IsHealthy b = healthy b"

definition SetHealthy :: "bool \<Rightarrow> Backend \<Rightarrow> Backend" where
  "SetHealthy val b = b\<lparr>healthy := val\<rparr>"

record RoundRobin =
  backends :: "Backend list"
  index :: "64 word"

definition NewRoundRobin :: "Backend list \<Rightarrow> RoundRobin" where
  "NewRoundRobin bs = \<lparr>backends = bs, index = 0\<rparr>"

text \<open>\<^verbatim>\<open>r.index.Add(1) % uint64(len(r.backends))\<close>: the new counter and the position it selects.\<close>

definition probe :: "RoundRobin \<Rightarrow> nat \<times> RoundRobin" where
  "probe r = (let ix = index r + 1 in (unat (ix mod of_nat (length (backends r))), r\<lparr>index := ix\<rparr>))"

text \<open>The loop: \<open>i\<close> iterations are left.\<close>

fun next_loop :: "nat \<Rightarrow> RoundRobin \<Rightarrow> nat option \<times> RoundRobin" where
  "next_loop 0 r = (None, r)"
| "next_loop (Suc i) r =
    (let (idx, r') = probe r
     in if IsHealthy (backends r' ! idx) then (Some idx, r') else next_loop i r')"

definition Next :: "RoundRobin \<Rightarrow> nat option \<times> RoundRobin" where
  "Next r = (if backends r = [] then (None, r) else next_loop (length (backends r)) r)"

record Service =
  lb :: RoundRobin

definition NewService :: "Backend list \<Rightarrow> Service" where
  "NewService bs = \<lparr>lb = NewRoundRobin bs\<rparr>"

definition NextBackend :: "Service \<Rightarrow> nat option \<times> Service" where
  "NextBackend s = (let (b, r) = Next (lb s) in (b, s\<lparr>lb := r\<rparr>))"

section \<open>The interface of a load balancer\<close>

text \<open>What the clients of \<^verbatim>\<open>LoadBalancer\<close> rely on: a call changes neither the pool nor the health of its
  backends and returns a healthy member of the pool; \<open>room lb k\<close> says that \<open>k\<close> more calls are answered
  whenever a backend is healthy.\<close>

locale load_balancer =
  fixes pool :: "'lb \<Rightarrow> 'b list"
    and up :: "'b \<Rightarrow> bool"
    and room :: "'lb \<Rightarrow> nat \<Rightarrow> bool"
    and next_backend :: "'lb \<Rightarrow> nat option \<times> 'lb"
  assumes next_pool: "pool (snd (next_backend l)) = pool l"
    and next_up: "room l 1 \<Longrightarrow> fst (next_backend l) = Some j \<Longrightarrow> j < length (pool l) \<and> up (pool l ! j)"
    and next_found: "room l 1 \<Longrightarrow> fst (next_backend l) = None \<longleftrightarrow> (\<forall>b \<in> set (pool l). \<not> up b)"
    and next_room: "room l (Suc k) \<Longrightarrow> room (snd (next_backend l)) k"
    and room_mono: "room l k \<Longrightarrow> k' \<le> k \<Longrightarrow> room l k'"
begin

text \<open>A sequence of requests, one after the other.\<close>

fun answers :: "nat \<Rightarrow> 'lb \<Rightarrow> nat option list" where
  "answers 0 l = []"
| "answers (Suc k) l = fst (next_backend l) # answers k (snd (next_backend l))"

lemma answers_up:
  assumes "room l k" and "Some j \<in> set (answers k l)"
  shows "j < length (pool l) \<and> up (pool l ! j)"
  using assms
proof (induction k arbitrary: l)
  case (Suc k)
  have "room l 1" using room_mono [OF Suc.prems(1)] by simp
  from next_up [OF this] show ?case
    using Suc.IH [OF next_room [OF Suc.prems(1)]] Suc.prems(2) next_pool [of l] by auto
qed simp

lemma answers_available:
  assumes "room l k" and "b \<in> set (pool l)" and "up b"
  shows "None \<notin> set (answers k l)"
  using assms
proof (induction k arbitrary: l)
  case (Suc k)
  have "room l 1" using room_mono [OF Suc.prems(1)] by simp
  from next_found [OF this] show ?case
    using Suc.IH [OF next_room [OF Suc.prems(1)]] Suc.prems(2,3) next_pool [of l] by auto
qed simp

end

section \<open>A call that runs alone\<close>

text \<open>A pool fits in memory: its length is a Go \<^verbatim>\<open>int\<close>.\<close>

definition wf_pool :: "RoundRobin \<Rightarrow> bool" where
  "wf_pool r \<longleftrightarrow> backends r \<noteq> [] \<and> length (backends r) < 2 ^ 63"

text \<open>The position of the \<open>k\<close>-th probe from now on while the counter does not wrap around.\<close>

definition position :: "RoundRobin \<Rightarrow> nat \<Rightarrow> nat" where
  "position r k = (unat (index r) + k) mod length (backends r)"

definition unwrapped :: "RoundRobin \<Rightarrow> nat \<Rightarrow> bool" where
  "unwrapped r k \<longleftrightarrow> unat (index r) + k < 2 ^ 64"

lemma unat_add_of_nat: "unat (x :: 64 word) + k < 2 ^ 64 \<Longrightarrow> unat (x + of_nat k) = unat x + k"
  by (simp add: unat_word_ariths unat_of_nat)

lemma probe_position:
  assumes "wf_pool r" and "unwrapped r 1"
  shows "probe r = (position r 1, r\<lparr>index := index r + 1\<rparr>)"
proof -
  have "unat (index r + 1) = unat (index r) + 1"
    using unat_add_of_nat [of "index r" 1] assms(2) by (simp add: unwrapped_def)
  moreover have "unat (of_nat (length (backends r)) :: 64 word) = length (backends r)"
    using assms(1) by (simp add: wf_pool_def unat_of_nat)
  ultimately show ?thesis by (simp add: probe_def Let_def position_def unat_mod)
qed

lemma position_step [simp]: "unwrapped r 1 \<Longrightarrow> position (r\<lparr>index := index r + 1\<rparr>) k = position r (Suc k)"
  using unat_add_of_nat [of "index r" 1] by (simp add: position_def unwrapped_def)

lemma unwrapped_step [simp]: "unwrapped r (Suc k) \<Longrightarrow> unwrapped (r\<lparr>index := index r + 1\<rparr>) k"
  using unat_add_of_nat [of "index r" 1] by (simp add: unwrapped_def)

lemma unwrapped_mono: "unwrapped r k \<Longrightarrow> k' \<le> k \<Longrightarrow> unwrapped r k'"
  by (simp add: unwrapped_def)

lemma position_less: "wf_pool r \<Longrightarrow> position r k < length (backends r)"
  by (simp add: position_def wf_pool_def)

abbreviation up_at :: "RoundRobin \<Rightarrow> nat \<Rightarrow> bool" where
  "up_at r j \<equiv> healthy (backends r ! j)"

text \<open>The loop stops at the first probe of a healthy backend.\<close>

lemma next_loop_first:
  assumes "wf_pool r" and "unwrapped r n"
  shows "next_loop n r =
    (case List.find (\<lambda>k. up_at r (position r k)) [1..<Suc n] of
       Some k \<Rightarrow> (Some (position r k), r\<lparr>index := index r + of_nat k\<rparr>)
     | None \<Rightarrow> (None, r\<lparr>index := index r + of_nat n\<rparr>))"
  using assms
proof (induction n arbitrary: r)
  case 0
  then show ?case by simp
next
  case (Suc n)
  let ?r = "r\<lparr>index := index r + 1\<rparr>"
  have one: "unwrapped r 1" using unwrapped_mono [OF Suc.prems(2)] by simp
  have IH: "next_loop n ?r = (case List.find (\<lambda>k. up_at r (position r (Suc k))) [1..<Suc n] of
       Some k \<Rightarrow> (Some (position r (Suc k)), r\<lparr>index := index r + of_nat (Suc k)\<rparr>)
     | None \<Rightarrow> (None, r\<lparr>index := index r + of_nat (Suc n)\<rparr>))"
    using Suc.IH [of ?r] Suc.prems one by (simp add: wf_pool_def add.assoc del: upt_Suc cong: option.case_cong)
  have upt: "[1..<Suc (Suc n)] = 1 # map Suc [1..<Suc n]" by (simp add: upt_conv_Cons map_Suc_upt)
  have find_map: "List.find P (map Suc xs) = map_option Suc (List.find (\<lambda>k. P (Suc k)) xs)" for P xs
    by (induction xs) simp_all
  show ?case
    unfolding upt next_loop.simps probe_position [OF Suc.prems(1) one]
    using IH by (auto simp: IsHealthy_def find_map split: option.splits simp del: upt_Suc)
qed

text \<open>The probes of one call reach every backend of the pool.\<close>

lemma position_reaches:
  assumes "j < length (backends r)"
  shows "\<exists>k \<in> {1..length (backends r)}. position r k = j"
proof -
  let ?n = "length (backends r)" and ?a = "unat (index r) mod length (backends r)"
  have a: "?a < ?n" using assms by (intro mod_less_divisor) linarith
  define k where "k = (if ?a < j then j - ?a else j + ?n - ?a)"
  have "k \<in> {1..?n}" using assms a by (auto simp: k_def)
  moreover have "(?a + k) mod ?n = j" using assms a by (auto simp: k_def)
  then have "position r k = j" by (simp add: position_def mod_add_left_eq)
  ultimately show ?thesis by blast
qed

lemma reaches_healthy:
  assumes "b \<in> set (backends r)" and "healthy b"
  obtains k where "k \<in> {1..length (backends r)}" and "up_at r (position r k)"
  using assms position_reaches [of _ r] by (metis in_set_conv_nth)

lemma find_upt_Some:
  assumes "List.find P [a..<b] = Some k"
  shows "k \<in> {a..<b} \<and> P k \<and> (\<forall>i \<in> {a..<k}. \<not> P i)"
  using assms by (auto simp: find_Some_iff) (metis add_less_cancel_left le_Suc_ex)

lemma Next_simps:
  assumes "wf_pool r" and "unwrapped r (length (backends r))"
  shows "Next r =
    (case List.find (\<lambda>k. up_at r (position r k)) [1..<Suc (length (backends r))] of
       Some k \<Rightarrow> (Some (position r k), r\<lparr>index := index r + of_nat k\<rparr>)
     | None \<Rightarrow> (None, r\<lparr>index := index r + of_nat (length (backends r))\<rparr>))"
  using next_loop_first [OF assms] assms(1) by (simp add: Next_def wf_pool_def del: upt_Suc)

lemma Next_None:
  assumes "wf_pool r" and "unwrapped r (length (backends r))"
  shows "fst (Next r) = None \<longleftrightarrow> (\<forall>b \<in> set (backends r). \<not> healthy b)"
proof
  assume "fst (Next r) = None"
  then have none: "List.find (\<lambda>k. up_at r (position r k)) [1..<Suc (length (backends r))] = None"
    using Next_simps [OF assms] by (auto split: option.splits)
  show "\<forall>b \<in> set (backends r). \<not> healthy b"
  proof (intro ballI notI)
    fix b assume "b \<in> set (backends r)" "healthy b"
    from reaches_healthy [OF this] obtain k where "k \<in> {1..length (backends r)}" "up_at r (position r k)" .
    with none show False by (auto simp: find_None_iff simp del: upt_Suc)
  qed
next
  assume "\<forall>b \<in> set (backends r). \<not> healthy b"
  then have "\<not> up_at r (position r k)" for k using position_less [OF assms(1)] by simp
  then have "List.find (\<lambda>k. up_at r (position r k)) [1..<Suc (length (backends r))] = None"
    by (simp add: find_None_iff del: upt_Suc)
  then show "fst (Next r) = None" by (simp add: Next_simps [OF assms] del: upt_Suc)
qed

text \<open>The room of a pool for \<open>k\<close> calls: the counter does not wrap around in as many full rounds.\<close>

definition rr_room :: "RoundRobin \<Rightarrow> nat \<Rightarrow> bool" where
  "rr_room r k \<longleftrightarrow> wf_pool r \<and> unwrapped r (k * length (backends r))"

lemma next_loop_backends: "backends (snd (next_loop n r)) = backends r"
  by (induction n arbitrary: r) (simp_all add: probe_def Let_def)

lemma Next_backends [simp]: "backends (snd (Next r)) = backends r"
  by (simp add: Next_def next_loop_backends)

lemma Next_advances:
  assumes "wf_pool r" and "unwrapped r (length (backends r))"
  shows "\<exists>j \<le> length (backends r). index (snd (Next r)) = index r + of_nat j"
proof (cases "List.find (\<lambda>k. up_at r (position r k)) [1..<Suc (length (backends r))]")
  case None
  then show ?thesis by (auto simp: Next_simps [OF assms] simp del: upt_Suc)
next
  case (Some k)
  then show ?thesis
    using find_upt_Some [OF Some] by (intro exI [of _ k]) (simp add: Next_simps [OF assms] del: upt_Suc)
qed

lemma Next_room:
  assumes "rr_room r (Suc k)"
  shows "rr_room (snd (Next r)) k"
proof -
  let ?n = "length (backends r)"
  have wf: "wf_pool r" and u: "unwrapped r (?n + k * ?n)" using assms by (simp_all add: rr_room_def)
  obtain j where j: "j \<le> ?n" "index (snd (Next r)) = index r + of_nat j"
    using Next_advances [OF wf unwrapped_mono [OF u]] by auto
  have "unat (index r + of_nat j) = unat (index r) + j"
    using u j(1) by (intro unat_add_of_nat) (simp add: unwrapped_def)
  with u j show ?thesis using wf by (simp add: rr_room_def wf_pool_def unwrapped_def)
qed

interpretation rr: load_balancer backends healthy rr_room Next
proof
  fix r j k k' show "backends (snd (Next r)) = backends r" by simp
  show "fst (Next r) = None \<longleftrightarrow> (\<forall>b \<in> set (backends r). \<not> healthy b)" if "rr_room r 1"
    using that Next_None by (simp add: rr_room_def)
  show "j < length (backends r) \<and> up_at r j" if "rr_room r 1" "fst (Next r) = Some j"
    using that Next_simps [of r] position_less [of r]
    by (auto simp: rr_room_def split: option.splits dest!: find_upt_Some simp del: upt_Suc)
  show "rr_room (snd (Next r)) k" if "rr_room r (Suc k)" using that by (rule Next_room)
  show "rr_room r k'" if "rr_room r k" "k' \<le> k"
    using that unwrapped_mono [of r "k * length (backends r)"] by (simp add: rr_room_def)
qed

text \<open>C27. Next alone. While the counter does not wrap around during the call, \<^verbatim>\<open>Next\<close> returns the first healthy
  backend in cyclic order after the last one probed and moves the counter to it, and it returns \<^verbatim>\<open>nil\<close> only
  if every backend is unhealthy.\<close>

theorem Next_first_healthy:
  assumes "wf_pool r" and "unwrapped r (length (backends r))"
  shows "(\<exists>k \<in> {1..length (backends r)}. Next r = (Some (position r k), r\<lparr>index := index r + of_nat k\<rparr>) \<and>
      up_at r (position r k) \<and> (\<forall>i \<in> {1..<k}. \<not> up_at r (position r i))) \<or>
    (fst (Next r) = None \<and> (\<forall>b \<in> set (backends r). \<not> healthy b))"
proof (cases "List.find (\<lambda>k. up_at r (position r k)) [1..<Suc (length (backends r))]")
  case None
  then have "fst (Next r) = None" by (simp add: Next_simps [OF assms] del: upt_Suc)
  then show ?thesis using Next_None [OF assms] by blast
next
  case (Some k)
  then have "Next r = (Some (position r k), r\<lparr>index := index r + of_nat k\<rparr>)"
    by (simp add: Next_simps [OF assms] del: upt_Suc)
  then show ?thesis using find_upt_Some [OF Some] by auto
qed


definition pool_of :: "bool list \<Rightarrow> RoundRobin" where
  "pool_of hs = NewRoundRobin (map (\<lambda>h. \<lparr>URL = ''http://127.0.0.1:8081'', healthy = h, observabilityEnabled = False\<rparr>) hs)"

theorem Next_first_healthy_witness:
  "fst (Next (pool_of [True, False, False])) = Some 0"
proof -
  let ?r = "pool_of [True, False, False]"
  have "wf_pool ?r" "unwrapped ?r (length (backends ?r))"
    by (simp_all add: pool_of_def NewRoundRobin_def wf_pool_def unwrapped_def)
  from Next_first_healthy [OF this] show ?thesis
    by (auto simp: pool_of_def NewRoundRobin_def position_def nth_Cons' split: if_splits)
qed

section \<open>Concurrent calls\<close>

text \<open>A call in progress has made \<open>i\<close> probes; a call that has returned keeps the value of its loop variable
  and its result. One step of a call is one atomic operation on the shared counter, together with the
  read of the health flag it selects. Between the steps of the calls the health checks may change flags:
  \<open>traffic_step K\<close> interleaves calls and changes of the flags of the backends outside \<open>K\<close>.\<close>

datatype next_call = Probing nat | Returned nat "nat option"

record traffic =
  balancer :: RoundRobin
  calls :: "next_call multiset"

inductive call_step :: "traffic \<Rightarrow> traffic \<Rightarrow> bool" where
  arrive: "call_step s (s\<lparr>calls := add_mset (Probing 0) (calls s)\<rparr>)"
| hit: "calls s = add_mset (Probing i) M \<Longrightarrow> i < length (backends (balancer s)) \<Longrightarrow>
    probe (balancer s) = (idx, r) \<Longrightarrow> IsHealthy (backends r ! idx) \<Longrightarrow>
    call_step s (s\<lparr>balancer := r, calls := add_mset (Returned i (Some idx)) M\<rparr>)"
| miss: "calls s = add_mset (Probing i) M \<Longrightarrow> i < length (backends (balancer s)) \<Longrightarrow>
    probe (balancer s) = (idx, r) \<Longrightarrow> \<not> IsHealthy (backends r ! idx) \<Longrightarrow>
    call_step s (s\<lparr>balancer := r, calls := add_mset (Probing (Suc i)) M\<rparr>)"
| give_up: "calls s = add_mset (Probing i) M \<Longrightarrow> i = length (backends (balancer s)) \<Longrightarrow>
    call_step s (s\<lparr>calls := add_mset (Returned i None) M\<rparr>)"

definition set_flag :: "nat \<Rightarrow> bool \<Rightarrow> RoundRobin \<Rightarrow> RoundRobin" where
  "set_flag i h r = r\<lparr>backends := (backends r)[i := SetHealthy h (backends r ! i)]\<rparr>"

inductive traffic_step :: "nat set \<Rightarrow> traffic \<Rightarrow> traffic \<Rightarrow> bool" for K where
  call: "call_step s t \<Longrightarrow> traffic_step K s t"
| check: "i < length (backends (balancer s)) \<Longrightarrow> i \<notin> K \<Longrightarrow>
    traffic_step K s (s\<lparr>balancer := set_flag i h (balancer s)\<rparr>)"

definition idle :: "RoundRobin \<Rightarrow> traffic" where
  "idle r = \<lparr>balancer = r, calls = {#}\<rparr>"

text \<open>The probes a call has made, the backend it has got, and whether it has given up.\<close>

fun made :: "next_call \<Rightarrow> nat" where
  "made (Probing i) = i"
| "made (Returned i (Some idx)) = Suc i"
| "made (Returned i None) = i"

fun picked :: "next_call \<Rightarrow> nat multiset" where
  "picked (Returned i (Some idx)) = {#idx#}"
| "picked c = {#}"

fun gave_up :: "next_call \<Rightarrow> nat" where
  "gave_up (Returned i None) = 1"
| "gave_up c = 0"

definition probes :: "traffic \<Rightarrow> nat" where
  "probes s = (\<Sum>c \<in># calls s. made c)"

definition picks :: "traffic \<Rightarrow> nat multiset" where
  "picks s = (\<Sum>c \<in># calls s. picked c)"

definition failures :: "traffic \<Rightarrow> nat" where
  "failures s = (\<Sum>c \<in># calls s. gave_up c)"

lemmas traffic_defs = probes_def picks_def failures_def

text \<open>The positions that \<open>k\<close> probes visit, hit or miss.\<close>

definition visits :: "RoundRobin \<Rightarrow> nat \<Rightarrow> nat multiset" where
  "visits r k = mset (map (position r) [1..<Suc k])"

lemma visits_simps [simp]: "visits r 0 = {#}" "visits r (Suc k) = add_mset (position r (Suc k)) (visits r k)"
  by (simp_all add: visits_def)

text \<open>At any moment: the counter has advanced by the number of probes, and a backend that stays healthy has
  been handed out as often as the probes have visited it, whatever the interleaving.\<close>

definition traffic_inv :: "nat set \<Rightarrow> RoundRobin \<Rightarrow> traffic \<Rightarrow> bool" where
  "traffic_inv K r s \<longleftrightarrow> length (backends (balancer s)) = length (backends r) \<and>
    index (balancer s) = index r + of_nat (probes s) \<and>
    (\<forall>j \<in> K. up_at (balancer s) j \<and> count (picks s) j = count (visits r (probes s)) j) \<and>
    (\<forall>c \<in># calls s. gave_up c * length (backends r) \<le> made c)"

lemma call_step_mono: "call_step s t \<Longrightarrow> probes s \<le> probes t"
  by (induction rule: call_step.induct) (auto simp: probes_def)

lemma traffic_step_mono: "traffic_step K s t \<Longrightarrow> probes s \<le> probes t"
  by (induction rule: traffic_step.induct) (auto simp: call_step_mono, simp add: probes_def)

lemma probe_after:
  assumes "index q = index r + of_nat k" and "length (backends q) = length (backends r)"
    and "wf_pool r" and "unwrapped r (Suc k)"
  shows "probe q = (position r (Suc k), q\<lparr>index := index r + of_nat (Suc k)\<rparr>)"
proof -
  have u: "unat (index q) = unat (index r) + k"
    using assms(1,4) by (simp add: unat_add_of_nat unwrapped_def)
  then have "unwrapped q 1" "wf_pool q" using assms(2-4) by (auto simp: unwrapped_def wf_pool_def)
  from probe_position [OF this(2,1)] show ?thesis using u assms(1,2) by (simp add: position_def add_ac)
qed

lemma traffic_inv_probe:
  assumes "traffic_inv K r s" and "wf_pool r" and "unwrapped r (Suc (probes s))" and "probe (balancer s) = (idx, q)"
  shows "idx = position r (Suc (probes s)) \<and> q = (balancer s)\<lparr>index := index r + of_nat (Suc (probes s))\<rparr>"
  using probe_after [OF _ _ assms(2,3), of "balancer s"] assms(1,4) by (simp add: traffic_inv_def)

lemma call_step_inv:
  assumes "call_step s t" and "traffic_inv K r s" and "wf_pool r" and "unwrapped r (probes t)"
  shows "traffic_inv K r t"
  using assms
proof (induction rule: call_step.induct)
  case (arrive s)
  then show ?case by (simp add: traffic_inv_def traffic_defs)
next
  case (hit s i M idx q)
  have k: "probes (s\<lparr>balancer := q, calls := add_mset (Returned i (Some idx)) M\<rparr>) = Suc (probes s)"
    using hit.hyps(1) by (simp add: probes_def)
  with hit.prems(3) have "unwrapped r (Suc (probes s))" by simp
  from traffic_inv_probe [OF hit.prems(1,2) this hit.hyps(3)] show ?case
    using hit.hyps(1) hit.prems(1) k by (auto simp: traffic_inv_def picks_def)
next
  case (miss s i M idx q)
  have k: "probes (s\<lparr>balancer := q, calls := add_mset (Probing (Suc i)) M\<rparr>) = Suc (probes s)"
    using miss.hyps(1) by (simp add: probes_def)
  with miss.prems(3) have "unwrapped r (Suc (probes s))" by simp
  from traffic_inv_probe [OF miss.prems(1,2) this miss.hyps(3)] show ?case
    using miss.hyps(1,4) miss.prems(1) k by (auto simp: traffic_inv_def picks_def IsHealthy_def)
next
  case (give_up s i M)
  then show ?case by (auto simp: traffic_inv_def traffic_defs)
qed

lemma traffic_step_inv:
  assumes "traffic_step K s t" and "traffic_inv K r s" and "wf_pool r" and "unwrapped r (probes t)"
  shows "traffic_inv K r t"
  using assms
proof (induction rule: traffic_step.induct)
  case (call s t)
  then show ?case using call_step_inv by blast
next
  case (check i s h)
  then have "up_at (set_flag i h (balancer s)) j = up_at (balancer s) j" if "j \<in> K" for j
    using that by (auto simp: set_flag_def nth_list_update)
  with check show ?case by (simp add: traffic_inv_def traffic_defs set_flag_def)
qed

lemma traffic_reaches_inv:
  assumes "(traffic_step K)\<^sup>*\<^sup>* (idle r) s" and "\<forall>j \<in> K. up_at r j" and "wf_pool r" and "unwrapped r (probes s)"
  shows "traffic_inv K r s"
  using assms
proof (induction rule: rtranclp_induct)
  case base
  then show ?case by (simp add: traffic_inv_def traffic_defs idle_def)
next
  case (step s t)
  then have "unwrapped r (probes s)" using traffic_step_mono unwrapped_mono by blast
  with step show ?case using traffic_step_inv by blast
qed

lemma failures_probes: "traffic_inv K r s \<Longrightarrow> failures s * length (backends r) \<le> probes s"
  unfolding traffic_inv_def traffic_defs sum_mset_distrib_right by (simp add: sum_mset_mono)

text \<open>Every full round of probes visits each backend once.\<close>

lemma positions_round:
  "mset (map (position r) [Suc k..<Suc (k + length (backends r))]) = mset [0..<length (backends r)]"
proof (cases "backends r = []")
  case False
  let ?n = "length (backends r)"
  have inj: "inj_on (position r) {Suc k..<Suc (k + ?n)}"
  proof (rule inj_onI)
    fix a b assume ab: "a \<in> {Suc k..<Suc (k + ?n)}" "b \<in> {Suc k..<Suc (k + ?n)}" "position r a = position r b"
    have eq: "a = b" if "a \<le> b" "b < a + ?n" "position r a = position r b" for a b
    proof -
      have "?n dvd (unat (index r) + b) - (unat (index r) + a)"
        using that(1,3) by (subst mod_eq_dvd_iff_nat [symmetric]) (simp_all add: position_def)
      then show ?thesis using that(1,2) dvd_imp_le [of ?n "b - a"] by (cases "a = b") auto
    qed
    show "a = b"
    proof (cases "a \<le> b")
      case True
      with ab(1,2) show ?thesis by - (rule eq [OF _ _ ab(3)], simp_all)
    next
      case False
      with ab(1,2) show ?thesis by - (rule eq [OF _ _ ab(3) [symmetric], symmetric], simp_all)
    qed
  qed
  have sub: "position r ` {Suc k..<Suc (k + ?n)} \<subseteq> {0..<?n}" using False by (auto simp: position_def)
  have "card (position r ` {Suc k..<Suc (k + ?n)}) = ?n" using card_image [OF inj] by simp
  then have "position r ` {Suc k..<Suc (k + ?n)} = {0..<?n}"
    using sub by (intro card_subset_eq) simp_all
  then show ?thesis using inj by (intro set_eq_iff_mset_eq_distinct [THEN iffD1]) (auto simp: distinct_map simp del: upt_Suc)
qed simp

lemma visits_add_round: "visits r (k + length (backends r)) = visits r k + mset [0..<length (backends r)]"
proof -
  have "[1..<Suc (k + length (backends r))] = [1..<Suc k] @ [Suc k..<Suc (k + length (backends r))]"
    using upt_add_eq_append [of 1 "Suc k" "length (backends r)"] by simp
  then show ?thesis unfolding visits_def using positions_round [of r k] by (simp del: upt_Suc)
qed

lemma visits_round: "visits r (q * length (backends r) + k) = visits r k + repeat_mset q (mset [0..<length (backends r)])"
proof (induction q)
  case (Suc q)
  have "Suc q * length (backends r) + k = (q * length (backends r) + k) + length (backends r)" by simp
  then show ?case using Suc.IH by (simp only: visits_add_round repeat_mset_Suc union_assoc union_commute union_lcomm)
qed simp

lemma visits_mono: "visits r k \<subseteq># visits r (k + m)"
proof (induction m)
  case (Suc m)
  then show ?case by (auto intro: subset_mset.order_trans)
qed simp

text \<open>After any number of probes a backend has been visited once per full round, and at most once more.\<close>

lemma count_visits:
  assumes "j < length (backends r)"
  shows "count (visits r k) j \<in> {k div length (backends r), Suc (k div length (backends r))}"
proof -
  let ?n = "length (backends r)"
  have one: "count (mset [0..<?n]) j = 1" using assms by simp
  have "k mod ?n < ?n" using assms by (intro mod_less_divisor) linarith
  then have "visits r (k mod ?n) \<subseteq># visits r (0 + ?n)"
    using visits_mono [of r "k mod ?n" "?n - k mod ?n"] by simp
  then have "count (visits r (k mod ?n)) j \<le> 1"
    using one mset_subset_eq_count [of _ _ j] unfolding visits_add_round visits_simps by (metis add_0)
  moreover have "count (visits r k) j = count (visits r (k mod ?n)) j + k div ?n"
    using one visits_round [of r "k div ?n" "k mod ?n"] by simp
  ultimately show ?thesis by (auto simp: le_Suc_eq)
qed

text \<open>C22. Fair distribution under concurrency. However the probes of concurrent calls and the changes of health
  flags interleave, at every moment the numbers of calls that two backends which have been healthy all the
  time have been handed out to differ by at most one. (The 64-bit counter is assumed not to wrap around
  during the run.)\<close>

theorem concurrent_calls_fair:
  assumes "(traffic_step K)\<^sup>*\<^sup>* (idle r) s" and "\<forall>k \<in> K. up_at r k" and "wf_pool r" and "unwrapped r (probes s)"
    and "i \<in> K" and "i < length (backends r)" and "j \<in> K" and "j < length (backends r)"
  shows "count (picks s) i \<le> count (picks s) j + 1"
proof -
  have "count (picks s) i = count (visits r (probes s)) i" "count (picks s) j = count (visits r (probes s)) j"
    using traffic_reaches_inv [OF assms(1-4)] assms(5,7) by (simp_all add: traffic_inv_def)
  then show ?thesis
    using count_visits [OF assms(6), of "probes s"] count_visits [OF assms(8), of "probes s"] by auto
qed

text \<open>C40. Calls that come back empty-handed. With a backend in the pool that stays healthy, at most as many concurrent
  calls give up as calls get a backend, whatever happens to the health of the others meanwhile. (A call that runs
  alone never gives up. The 64-bit counter is assumed not to wrap around during the run.)\<close>

theorem concurrent_failures_bounded:
  assumes "(traffic_step {j})\<^sup>*\<^sup>* (idle r) s" and "wf_pool r" and "unwrapped r (probes s)"
    and "j < length (backends r)" and "up_at r j"
  shows "failures s \<le> size (picks s)"
proof -
  note inv = traffic_reaches_inv [OF assms(1) _ assms(2,3)]
  have "failures s \<le> probes s div length (backends r)"
    using failures_probes [OF inv] less_eq_div_iff_mult_less_eq [of "length (backends r)" "failures s" "probes s"] assms(4,5)
    by fastforce
  also have "\<dots> \<le> count (visits r (probes s)) j" using count_visits [OF assms(4), of "probes s"] by auto
  also have "\<dots> \<le> size (picks s)" using inv assms(5) count_le_size [of "picks s" j] by (simp add: traffic_inv_def)
  finally show ?thesis .
qed

text \<open>Two concurrent calls on a pool whose first backend is healthy: the first call probes the second backend,
  the other call is given the first one, and the first call probes the second backend again and gives up.\<close>

abbreviation half_up :: RoundRobin where
  "half_up \<equiv> pool_of [True, False]"

definition starved :: traffic where
  "starved = \<lparr>balancer = half_up\<lparr>index := 3\<rparr>, calls = {#Returned 2 None, Returned 0 (Some 0)#}\<rparr>"

lemma probe_half_up: "probe (half_up\<lparr>index := w\<rparr>) = (unat ((w + 1) mod 2), half_up\<lparr>index := w + 1\<rparr>)"
  by (simp add: probe_def pool_of_def NewRoundRobin_def Let_def)

lemma starved_run: "call_step\<^sup>*\<^sup>* (idle half_up) starved"
proof -
  let ?s = "\<lambda>w M. \<lparr>balancer = half_up\<lparr>index := w\<rparr>, calls = M\<rparr>"
  have up: "healthy (backends (half_up\<lparr>index := w\<rparr>) ! 0)" "\<not> healthy (backends (half_up\<lparr>index := w\<rparr>) ! 1)"
    and len: "length (backends (half_up\<lparr>index := w\<rparr>)) = 2" "backends half_up \<noteq> []" for w
    by (simp_all add: pool_of_def NewRoundRobin_def)
  have "idle half_up = ?s 0 {#}" by (simp add: idle_def pool_of_def NewRoundRobin_def)
  moreover have "call_step (?s 0 {#}) (?s 0 {#Probing 0#})" using call_step.arrive [of "?s 0 {#}"] by simp
  moreover have "call_step (?s 0 {#Probing 0#}) (?s 0 {#Probing 0, Probing 0#})"
    using call_step.arrive [of "?s 0 {#Probing 0#}"] by simp
  moreover have "call_step (?s 0 {#Probing 0, Probing 0#}) (?s 1 {#Probing 1, Probing 0#})"
    using call_step.miss [of "?s 0 {#Probing 0, Probing 0#}" 0 "{#Probing 0#}" 1 "half_up\<lparr>index := 1\<rparr>"] up len
    by (simp add: probe_half_up IsHealthy_def)
  moreover have "call_step (?s 1 {#Probing 1, Probing 0#}) (?s 2 {#Probing 1, Returned 0 (Some 0)#})"
    using call_step.hit [of "?s 1 {#Probing 1, Probing 0#}" 0 "{#Probing 1#}" 0 "half_up\<lparr>index := 2\<rparr>"] up len
    by (simp add: probe_half_up IsHealthy_def add_mset_commute)
  moreover have "call_step (?s 2 {#Probing 1, Returned 0 (Some 0)#}) (?s 3 {#Probing (Suc 1), Returned 0 (Some 0)#})"
    using call_step.miss [of "?s 2 {#Probing 1, Returned 0 (Some 0)#}" 1 "{#Returned 0 (Some 0)#}" 1 "half_up\<lparr>index := 3\<rparr>"] up len
    by (simp add: probe_half_up IsHealthy_def)
  moreover have "call_step (?s 3 {#Probing (Suc 1), Returned 0 (Some 0)#}) (?s 3 {#Returned 2 None, Returned 0 (Some 0)#})"
    using call_step.give_up [of "?s 3 {#Probing (Suc 1), Returned 0 (Some 0)#}" "Suc 1" "{#Returned 0 (Some 0)#}"] len
    by (simp add: numeral_2_eq_2)
  ultimately show ?thesis unfolding starved_def by (auto intro!: converse_rtranclp_into_rtranclp simp only:)
qed

lemma traffic_calls: "call_step\<^sup>*\<^sup>* s t \<Longrightarrow> (traffic_step K)\<^sup>*\<^sup>* s t"
  by (rule rtranclp_mono [THEN predicate2D]) (auto intro: traffic_step.call)

theorem concurrent_failures_bounded_witness: "failures starved = 1 \<and> failures starved \<le> size (picks starved)"
  using concurrent_failures_bounded [OF traffic_calls [OF starved_run], of 0]
  by (simp add: starved_def failures_def probes_def pool_of_def NewRoundRobin_def wf_pool_def unwrapped_def)

text \<open>Three calls on a pool of three: the first call finds the second backend down, the second call is given the
  third backend and the first call the first one; then the second backend recovers and fails again, and the
  third call is given the third backend.\<close>

abbreviation sides_up :: RoundRobin where
  "sides_up \<equiv> pool_of [True, False, True]"

definition shared :: traffic where
  "shared = \<lparr>balancer = sides_up\<lparr>index := 5\<rparr>, calls = {#Returned 1 (Some 2), Returned 1 (Some 0), Returned 0 (Some 2)#}\<rparr>"

lemma probe_sides_up: "probe (sides_up\<lparr>index := w\<rparr>) = (unat ((w + 1) mod 3), sides_up\<lparr>index := w + 1\<rparr>)"
  by (simp add: probe_def pool_of_def NewRoundRobin_def Let_def)

lemma set_flag_length: "length (backends (set_flag i h r)) = length (backends r)"
  by (simp add: set_flag_def)

lemma set_flag_sides_up:
  "set_flag 1 False (set_flag 1 True (sides_up\<lparr>index := w\<rparr>)) = sides_up\<lparr>index := w\<rparr>"
  by (simp add: set_flag_def pool_of_def NewRoundRobin_def SetHealthy_def)

lemma shared_run: "(traffic_step {0, 2})\<^sup>*\<^sup>* (idle sides_up) shared"
proof -
  let ?s = "\<lambda>w M. \<lparr>balancer = sides_up\<lparr>index := w\<rparr>, calls = M\<rparr>"
  let ?up = "\<lambda>M. \<lparr>balancer = set_flag 1 True (sides_up\<lparr>index := 3\<rparr>), calls = M\<rparr>"
  have up: "healthy (backends (sides_up\<lparr>index := w\<rparr>) ! 0)" "\<not> healthy (backends (sides_up\<lparr>index := w\<rparr>) ! 1)"
      "healthy (backends (sides_up\<lparr>index := w\<rparr>) ! 2)"
    and len: "length (backends (sides_up\<lparr>index := w\<rparr>)) = 3" for w
    by (simp_all add: pool_of_def NewRoundRobin_def)
  have arrive: "traffic_step {0, 2} (?s w M) (?s w (add_mset (Probing 0) M))" for w M
    using traffic_step.call [OF call_step.arrive [of "?s w M"]] by simp
  have hit: "traffic_step {0, 2} (?s w (add_mset (Probing i) M)) (?s (w + 1) (add_mset (Returned i (Some k)) M))"
    if "i < 3" "unat ((w + 1) mod 3) = k" "k = 0 \<or> k = 2" for w i k M
    using that up len
      call_step.hit [of "?s w (add_mset (Probing i) M)" i M k "sides_up\<lparr>index := w + 1\<rparr>"]
    by (intro traffic_step.call) (auto simp: probe_sides_up IsHealthy_def)
  have miss: "traffic_step {0, 2} (?s w (add_mset (Probing i) M)) (?s (w + 1) (add_mset (Probing (Suc i)) M))"
    if "i < 3" "unat ((w + 1) mod 3) = 1" for w i M
    using that up len
      call_step.miss [of "?s w (add_mset (Probing i) M)" i M 1 "sides_up\<lparr>index := w + 1\<rparr>"]
    by (intro traffic_step.call) (auto simp: probe_sides_up IsHealthy_def)
  let ?p = "Probing" and ?r = "\<lambda>i k. Returned i (Some k)"
  have "idle sides_up = ?s 0 {#}" by (simp add: idle_def pool_of_def NewRoundRobin_def)
  moreover have "traffic_step {0, 2} (?s 0 {#}) (?s 0 {#?p 0#})" by (rule arrive)
  moreover have "traffic_step {0, 2} (?s 0 {#?p 0#}) (?s 1 {#?p 1#})" using miss [of 0 0 "{#}"] by simp
  moreover have "traffic_step {0, 2} (?s 1 {#?p 1#}) (?s 1 {#?p 0, ?p 1#})" by (rule arrive)
  moreover have "traffic_step {0, 2} (?s 1 {#?p 0, ?p 1#}) (?s 2 {#?r 0 2, ?p 1#})"
    using hit [of 0 1 2 "{#?p 1#}"] by simp
  moreover have "traffic_step {0, 2} (?s 2 {#?r 0 2, ?p 1#}) (?s 3 {#?r 0 2, ?r 1 0#})"
    using hit [of 1 2 0 "{#?r 0 2#}"] by (simp add: add_mset_commute)
  moreover have "traffic_step {0, 2} (?s 3 {#?r 0 2, ?r 1 0#}) (?up {#?r 0 2, ?r 1 0#})"
    using traffic_step.check [of 1 "?s 3 {#?r 0 2, ?r 1 0#}" "{0, 2}" True] len by simp
  moreover have "traffic_step {0, 2} (?up {#?r 0 2, ?r 1 0#}) (?s 3 {#?r 0 2, ?r 1 0#})"
    using traffic_step.check [of 1 "?up {#?r 0 2, ?r 1 0#}" "{0, 2}" False] len [of 3]
    unfolding set_flag_length traffic.simps set_flag_sides_up by simp
  moreover have "traffic_step {0, 2} (?s 3 {#?r 0 2, ?r 1 0#}) (?s 3 {#?p 0, ?r 0 2, ?r 1 0#})" by (rule arrive)
  moreover have "traffic_step {0, 2} (?s 3 {#?p 0, ?r 0 2, ?r 1 0#}) (?s 4 {#?p 1, ?r 0 2, ?r 1 0#})"
    using miss [of 0 3 "{#?r 0 2, ?r 1 0#}"] by simp
  moreover have "traffic_step {0, 2} (?s 4 {#?p 1, ?r 0 2, ?r 1 0#}) (?s 5 {#?r 1 2, ?r 0 2, ?r 1 0#})"
    using hit [of 1 4 2 "{#?r 0 2, ?r 1 0#}"] by simp
  moreover have "shared = ?s 5 {#?r 1 2, ?r 0 2, ?r 1 0#}" by (simp add: shared_def add_mset_commute)
  ultimately show ?thesis by (auto intro!: converse_rtranclp_into_rtranclp simp only:)
qed

theorem concurrent_calls_fair_witness:
  "count (picks shared) 2 = 2 \<and> count (picks shared) 0 = 1 \<and> count (picks shared) 2 \<le> count (picks shared) 0 + 1"
  using concurrent_calls_fair [OF shared_run, of 2 0]
  by (simp add: shared_def picks_def probes_def pool_of_def NewRoundRobin_def wf_pool_def unwrapped_def)

text \<open>When the counter wraps around and the size of the pool does not divide \<open>2 ^ 64\<close>, one round of probes
  visits a backend twice and misses another: the only healthy backend is not found.\<close>

lemma Next_wrap_misses:
  "fst (Next ((pool_of [False, False, True])\<lparr>index := - 2\<rparr>)) = None \<and>
   (\<exists>b \<in> set (backends (pool_of [False, False, True])). healthy b)"
  by (simp add: Next_def pool_of_def NewRoundRobin_def probe_def IsHealthy_def numeral_3_eq_3)

end
