(* ===== verification/Runtime.thy ===== *)
theory Runtime
  imports Config RoundRobin
begin

text \<open>
  Building a runtime from a configuration, \<^verbatim>\<open>internal/runtime/builder.go\<close> with \<^verbatim>\<open>NewBackend\<close> of
  \<^verbatim>\<open>internal/upstream/backend.go\<close> and \<^verbatim>\<open>LoadTlsConfig\<close>, and the data path of a request, the body of
  \<^verbatim>\<open>httpHandler\<close> of \<^verbatim>\<open>internal/proxy/server.go\<close>. A pointer to a service is its key in the map \<^verbatim>\<open>services\<close> of
  the builder. The loader of a key pair and \<^verbatim>\<open>url.Parse\<close> are arguments. A prober is the record of what
  it was started with. The forwarding itself, its metrics and the log are in \<open>Forward\<close>, the metrics of a build in \<open>Manager\<close>.
\<close>

section \<open>Building a runtime\<close>

record prober =
  checkURL :: string
  checkPath :: string
  checkInterval :: "64 word"
  checkTimeout :: "64 word"

record tls_setup =
  certificate :: string
  minVersion :: nat

datatype build_error = TlsLoad string | TlsVersion string | BackendURL string string string

record Runtime =
  Generation :: "64 word"
  Addr :: string
  router :: "string Router"
  services :: "string \<rightharpoonup> Service"
  TLSConfig :: "tls_setup option"
  observes :: bool
  probers :: "prober list"

definition VersionTLS12 :: nat where
  "VersionTLS12 = 771"

definition VersionTLS13 :: nat where
  "VersionTLS13 = 772"

fun LoadTlsConfig :: "(string \<Rightarrow> string \<Rightarrow> string + string) \<Rightarrow> TlsConfig option \<Rightarrow> build_error + tls_setup option" where
  "LoadTlsConfig LoadX509KeyPair None = Inr None"
| "LoadTlsConfig LoadX509KeyPair (Some t) =
    (case LoadX509KeyPair (CertFile t) (KeyFile t) of
       Inl err \<Rightarrow> Inl (TlsLoad err)
     | Inr cert \<Rightarrow>
         if MinVersion t \<in> {[], ''1.2''} then Inr (Some \<lparr>certificate = cert, minVersion = VersionTLS12\<rparr>)
         else if MinVersion t = ''1.3'' then Inr (Some \<lparr>certificate = cert, minVersion = VersionTLS13\<rparr>)
         else Inl (TlsVersion (MinVersion t)))"

definition NewBackend :: "(string \<Rightarrow> string + 'u) \<Rightarrow> string \<Rightarrow> bool \<Rightarrow> string + Backend" where
  "NewBackend Parse targetUrl observe =
    (case Parse targetUrl of
       Inl err \<Rightarrow> Inl err
     | Inr u \<Rightarrow> Inr (SetHealthy True \<lparr>URL = targetUrl, healthy = False, observabilityEnabled = observe\<rparr>))"

definition new_prober :: "HealthCheckConfig \<Rightarrow> Backend \<Rightarrow> prober" where
  "new_prober h b = \<lparr>checkURL = URL b, checkPath = HealthPath h, checkInterval = Interval h, checkTimeout = Timeout h\<rparr>"

text \<open>The inner loop over the upstreams of a service: the backends so far and the probers started so far.\<close>

fun build_backends :: "(string \<Rightarrow> string + 'u) \<Rightarrow> Config \<Rightarrow> string \<Rightarrow> string list \<Rightarrow> Backend list \<Rightarrow> prober list \<Rightarrow>
    build_error + Backend list \<times> prober list" where
  "build_backends Parse cfg name [] bs ps = Inr (bs, ps)"
| "build_backends Parse cfg name (u # us) bs ps =
    (case NewBackend Parse u (EnabledValue (ObservabilityEnabled cfg)) of
       Inl err \<Rightarrow> Inl (BackendURL u name err)
     | Inr b \<Rightarrow> build_backends Parse cfg name us (bs @ [b]) (ps @ [new_prober (HealthCheck cfg) b]))"

fun build_services :: "(string \<Rightarrow> string + 'u) \<Rightarrow> Config \<Rightarrow> ServiceConfig list \<Rightarrow> (string \<rightharpoonup> Service) \<Rightarrow> prober list \<Rightarrow>
    build_error + (string \<rightharpoonup> Service) \<times> prober list" where
  "build_services Parse cfg [] m ps = Inr (m, ps)"
| "build_services Parse cfg (svc # svcs) m ps =
    (case build_backends Parse cfg (Name svc) (Upstreams svc) [] ps of
       Inl err \<Rightarrow> Inl err
     | Inr (bs, ps') \<Rightarrow> build_services Parse cfg svcs (m(Name svc \<mapsto> NewService bs)) ps')"

text \<open>The loop over the routes: a name that is no key of the map gives the nil pointer.\<close>

fun build_routes :: "(string \<rightharpoonup> Service) \<Rightarrow> RouteConfig list \<Rightarrow> string Router \<Rightarrow> string Router" where
  "build_routes m [] r = r"
| "build_routes m (rc # rcs) r =
    build_routes m rcs (AddRoute (Path rc) (map_option (\<lambda>_. ServiceName rc) (m (ServiceName rc))) r)"

text \<open>\<^verbatim>\<open>BuildRuntime\<close> with the counter \<^verbatim>\<open>nextGeneration\<close> before and after.\<close>

definition BuildRuntime :: "(string \<Rightarrow> string \<Rightarrow> string + string) \<Rightarrow> (string \<Rightarrow> string + 'u) \<Rightarrow> Config \<Rightarrow> 64 word \<Rightarrow>
    (build_error + Runtime) \<times> 64 word" where
  "BuildRuntime LoadX509KeyPair Parse cfg nextGeneration =
    (case LoadTlsConfig LoadX509KeyPair (Tls cfg) of
       Inl err \<Rightarrow> (Inl err, nextGeneration)
     | Inr tls \<Rightarrow>
         let generation = nextGeneration + 1
         in case build_services Parse cfg (Services cfg) Map.empty [] of
              Inl err \<Rightarrow> (Inl err, generation)
            | Inr (svcs, ps) \<Rightarrow>
                (Inr \<lparr>Generation = generation, Addr = ServerAddr cfg, router = build_routes svcs (Routes cfg) NewRouter,
                   services = svcs, TLSConfig = tls, observes = EnabledValue (ObservabilityEnabled cfg), probers = ps\<rparr>,
                 generation))"

section \<open>Handling a request\<close>

datatype response = StatusNotFound | StatusServiceUnavailable | Forwarded string

text \<open>The body of \<^verbatim>\<open>httpHandler\<close> between the acquisition and the release of the runtime. \<open>order\<close> is the order in which
  Go iterates over the routes.\<close>

definition httpHandler :: "string list \<Rightarrow> Runtime \<Rightarrow> string \<Rightarrow> response \<times> Runtime" where
  "httpHandler order rt path =
    (case snd (Route order (router rt) path) of
       None \<Rightarrow> (StatusNotFound, rt)
     | Some name \<Rightarrow>
         (case services rt name of
            None \<Rightarrow> (StatusNotFound, rt)
          | Some svc \<Rightarrow>
              (let (backend, svc') = NextBackend svc; rt' = rt\<lparr>services := (services rt)(name \<mapsto> svc')\<rparr>
               in case backend of
                    None \<Rightarrow> (StatusServiceUnavailable, rt')
                  | Some j \<Rightarrow> (Forwarded (URL (backends (lb svc') ! j)), rt'))))"

section \<open>What a runtime holds\<close>

definition backend_of :: "Config \<Rightarrow> string \<Rightarrow> Backend" where
  "backend_of cfg u = \<lparr>URL = u, healthy = True, observabilityEnabled = EnabledValue (ObservabilityEnabled cfg)\<rparr>"

lemma build_backends_Inr:
  "build_backends Parse cfg name us bs ps = Inr (bs', ps') \<Longrightarrow>
    bs' = bs @ map (backend_of cfg) us \<and> ps' = ps @ map (new_prober (HealthCheck cfg) \<circ> backend_of cfg) us"
proof (induction us arbitrary: bs ps)
  case (Cons u us)
  obtain b where b: "NewBackend Parse u (EnabledValue (ObservabilityEnabled cfg)) = Inr b"
    using Cons.prems by (auto split: sum.splits)
  then have "b = backend_of cfg u" by (auto simp: NewBackend_def SetHealthy_def backend_of_def split: sum.splits)
  with Cons.IH [of "bs @ [b]" "ps @ [new_prober (HealthCheck cfg) b]"] Cons.prems b show ?case by simp
qed simp

text \<open>The map of the services: the last service of a name wins.\<close>

lemma build_services_Inr:
  "build_services Parse cfg svcs m ps = Inr (m', ps') \<Longrightarrow>
    m' = m ++ map_of (rev (map (\<lambda>s. (Name s, NewService (map (backend_of cfg) (Upstreams s)))) svcs)) \<and>
    ps' = ps @ concat (map (\<lambda>s. map (new_prober (HealthCheck cfg) \<circ> backend_of cfg) (Upstreams s)) svcs)"
proof (induction svcs arbitrary: m ps)
  case (Cons svc svcs)
  obtain bs qs where b: "build_backends Parse cfg (Name svc) (Upstreams svc) [] ps = Inr (bs, qs)"
    using Cons.prems by (auto split: sum.splits)
  with Cons.prems have "build_services Parse cfg svcs (m(Name svc \<mapsto> NewService bs)) qs = Inr (m', ps')" by simp
  from Cons.IH [OF this] build_backends_Inr [OF b] show ?case by (simp add: map_add_def fun_eq_iff split: option.split)
qed simp

lemma routes_build_routes:
  "routes (build_routes m rcs r) =
    routes r ++ map_of (rev (map (\<lambda>rc. (Path rc, map_option (\<lambda>_. ServiceName rc) (m (ServiceName rc)))) rcs))"
  by (induction rcs arbitrary: r) (simp_all add: AddRoute_def map_add_def fun_eq_iff split: option.split)


section \<open>From the configuration to the response\<close>

definition configured :: "Config \<Rightarrow> string \<rightharpoonup> string" where
  "configured cfg = map_of (map (\<lambda>r. (Path r, ServiceName r)) (Routes cfg))"

text \<open>Names without surrounding white space: what validation compares is what the builder looks up.\<close>

definition trimmed_names :: "Config \<Rightarrow> bool" where
  "trimmed_names cfg \<longleftrightarrow> (\<forall>s \<in> set (Services cfg). TrimSpace (Name s) = Name s) \<and>
    (\<forall>r \<in> set (Routes cfg). TrimSpace (ServiceName r) = ServiceName r)"

definition fits_in_memory :: "Config \<Rightarrow> bool" where
  "fits_in_memory cfg \<longleftrightarrow> (\<forall>s \<in> set (Services cfg). length (Upstreams s) < 2 ^ 63)"

lemma map_of_rev_distinct: "distinct (map f xs) \<Longrightarrow> map_of (rev (map (\<lambda>x. (f x, g x)) xs)) = map_of (map (\<lambda>x. (f x, g x)) xs)"
  by (subst map_of_inject_set) (simp_all add: comp_def rev_map [symmetric])

lemma trimmed_names_distinct:
  assumes "acceptable parse cfg" and "trimmed_names cfg"
  shows "distinct (map Name (Services cfg))"
proof -
  have "map (TrimSpace \<circ> Name) (Services cfg) = map Name (Services cfg)"
    using assms(2) by (simp add: trimmed_names_def)
  then show ?thesis using assms(1) by (metis acceptable_def)
qed

lemma runtime_services:
  assumes "acceptable parse cfg" and "trimmed_names cfg" and "BuildRuntime load Parse cfg g = (Inr rt, g')"
  shows "services rt = map_of (map (\<lambda>s. (Name s, NewService (map (backend_of cfg) (Upstreams s)))) (Services cfg))"
proof -
  obtain svcs ps where b: "build_services Parse cfg (Services cfg) Map.empty [] = Inr (svcs, ps)" "services rt = svcs"
    using assms(3) by (auto simp: BuildRuntime_def Let_def split: sum.splits)
  then show ?thesis
    using build_services_Inr [OF b(1)] map_of_rev_distinct [OF trimmed_names_distinct [OF assms(1,2)]] by simp
qed


lemma runtime_routes:
  assumes "acceptable parse cfg" and "trimmed_names cfg" and "BuildRuntime load Parse cfg g = (Inr rt, g')"
  shows "routes (router rt) = (\<lambda>p. map_option Some (configured cfg p))"
proof -
  have r: "routes (router rt) = map_of (rev (map (\<lambda>rc. (Path rc, map_option (\<lambda>_. ServiceName rc) (services rt (ServiceName rc)))) (Routes cfg)))"
    using assms(3) by (auto simp: BuildRuntime_def Let_def routes_build_routes NewRouter_def split: sum.splits)
  have known: "map_option (\<lambda>_. ServiceName rc) (services rt (ServiceName rc)) = Some (ServiceName rc)" if "rc \<in> set (Routes cfg)" for rc
  proof -
    have "TrimSpace (ServiceName rc) \<in> (TrimSpace \<circ> Name) ` set (Services cfg)" using assms(1) that by (simp add: acceptable_def)
    then have "ServiceName rc \<in> Name ` set (Services cfg)" using assms(2) that by (force simp: trimmed_names_def)
    then have "services rt (ServiceName rc) \<noteq> None"
      unfolding runtime_services [OF assms] by (simp add: map_of_eq_None_iff image_image)
    then show ?thesis by auto
  qed
  have "map (\<lambda>rc. (Path rc, map_option (\<lambda>_. ServiceName rc) (services rt (ServiceName rc)))) (Routes cfg) =
      map (\<lambda>rc. (Path rc, Some (ServiceName rc))) (Routes cfg)"
    using known by (intro map_cong) auto
  moreover have "distinct (map Path (Routes cfg))" using assms(1) by (simp add: acceptable_def)
  ultimately have "routes (router rt) = map_of (map (\<lambda>rc. (Path rc, Some (ServiceName rc))) (Routes cfg))"
    unfolding r by (simp only: map_of_rev_distinct)
  moreover have "map_of (map (\<lambda>rc. (Path rc, Some (ServiceName rc))) rcs) p = map_option Some (map_of (map (\<lambda>rc. (Path rc, ServiceName rc)) rcs) p)" for rcs :: "RouteConfig list" and p
    by (induction rcs) simp_all
  ultimately show ?thesis by (simp add: configured_def fun_eq_iff)
qed

text \<open>A new service hands out its second backend first: the counter is incremented before it is used.\<close>

lemma NextBackend_new:
  assumes "us \<noteq> []" and "length us < 2 ^ 63"
  shows "\<exists>svc. NextBackend (NewService (map (backend_of cfg) us)) = (Some (1 mod length us), svc) \<and>
    backends (lb svc) = map (backend_of cfg) us"
proof -
  let ?r = "NewRoundRobin (map (backend_of cfg) us)"
  have wf: "wf_pool ?r" and u: "unwrapped ?r 1"
    using assms by (simp_all add: NewRoundRobin_def wf_pool_def unwrapped_def)
  have "up_at ?r (position ?r 1)"
    using position_less [OF wf, of 1] by (simp add: NewRoundRobin_def backend_of_def)
  moreover obtain n where "length us = Suc n" using assms(1) by (cases us) auto
  ultimately have "Next ?r = (Some (position ?r 1), ?r\<lparr>index := index ?r + 1\<rparr>)"
    using probe_position [OF wf u] wf by (simp add: Next_def wf_pool_def IsHealthy_def NewRoundRobin_def)
  then show ?thesis by (simp add: NextBackend_def NewService_def position_def NewRoundRobin_def)
qed

lemma longest_upto_known: "snd (longest_upto (\<lambda>p. map_option Some (m p)) path n) = Some name \<Longrightarrow> \<exists>p. m p = Some name"
  by (induction n) (auto split: option.splits if_splits)

text \<open>From the configuration to the response. If validation accepts a configuration whose names carry no
  surrounding white space and a runtime is built from it, a request is answered 404 exactly when no
  configured route matches its path; otherwise the first request for the service of the longest matching
  route is forwarded to an upstream that the configuration lists for that service, the second one if there
  are several. The order in which Go iterates over the routes does not matter.\<close>

theorem handler_follows_config:
  assumes "Validate parse cfg = None" and "trimmed_names cfg" and "fits_in_memory cfg"
    and "BuildRuntime load Parse cfg g = (Inr rt, g')" and "enumerates order (routes (router rt))"
  shows "case snd (longest_route (\<lambda>p. map_option Some (configured cfg p)) path) of
      None \<Rightarrow> fst (httpHandler order rt path) = StatusNotFound
    | Some name \<Rightarrow> \<exists>svc \<in> set (Services cfg). Name svc = name \<and>
        fst (httpHandler order rt path) = Forwarded (Upstreams svc ! (1 mod length (Upstreams svc)))"
proof -
  note ok = assms(1) [unfolded Validate_acceptable]
  have route: "Route order (router rt) path = longest_route (\<lambda>p. map_option Some (configured cfg p)) path"
    using Route_reference [OF assms(5)] runtime_routes [OF ok assms(2,4)] by simp
  show ?thesis
  proof (cases "snd (longest_route (\<lambda>p. map_option Some (configured cfg p)) path)")
    case None
    then show ?thesis by (simp add: httpHandler_def route)
  next
    case (Some name)
    then obtain p where "configured cfg p = Some name"
      using longest_upto_known unfolding longest_route_def by metis
    then obtain rc where rc: "rc \<in> set (Routes cfg)" "ServiceName rc = name"
      by (auto simp: configured_def dest!: map_of_SomeD)
    then obtain svc where svc: "svc \<in> set (Services cfg)" "Name svc = name"
      using ok assms(2) by (force simp: acceptable_def trimmed_names_def)
    have lookup: "services rt name = Some (NewService (map (backend_of cfg) (Upstreams svc)))"
      unfolding runtime_services [OF ok assms(2,4)]
      using svc trimmed_names_distinct [OF ok assms(2)] by (intro map_of_is_SomeI) (auto simp: comp_def)
    have us: "Upstreams svc \<noteq> []" "length (Upstreams svc) < 2 ^ 63"
      using ok assms(3) svc(1) by (auto simp: acceptable_def fits_in_memory_def)
    from NextBackend_new [OF us, of cfg] obtain svc' where
      nb: "NextBackend (NewService (map (backend_of cfg) (Upstreams svc))) = (Some (1 mod length (Upstreams svc)), svc')"
        "backends (lb svc') = map (backend_of cfg) (Upstreams svc)" by blast
    have "1 mod length (Upstreams svc) < length (Upstreams svc)" using us(1) by (intro mod_less_divisor) simp
    then have "fst (httpHandler order rt path) = Forwarded (Upstreams svc ! (1 mod length (Upstreams svc)))"
      by (simp add: httpHandler_def route Some lookup nb backend_of_def)
    with svc Some show ?thesis by auto
  qed
qed


text \<open>A configuration with one service of two upstreams, and a parser of URLs that answers for these.\<close>

definition demo_parser :: url_parser where
  "demo_parser u = (if u \<in> {''http://a:81'', ''http://b:82''} then Inr \<lparr>Scheme = ''http'', Hostname = ''a'', Port = ''81''\<rparr> else Inl ''invalid URI for request'')"

definition demo_config :: "string \<Rightarrow> string \<Rightarrow> Config" where
  "demo_config name ref = \<lparr>APIVersion = ''v2'', ServerAddr = '':8080'',
     HealthCheck = \<lparr>IntervalMs = 5000, TimeoutMs = 1000, HealthPath = ''/health''\<rparr>,
     Services = [\<lparr>Name = name, Upstreams = [''http://a:81'', ''http://b:82'']\<rparr>],
     Routes = [\<lparr>Path = ''/api'', ServiceName = ref\<rparr>], Tls = None, ObservabilityEnabled = None\<rparr>"

abbreviation demo_runtime :: "string \<Rightarrow> string \<Rightarrow> Runtime" where
  "demo_runtime name ref \<equiv> projr (fst (BuildRuntime (\<lambda>_ _. Inl []) demo_parser (demo_config name ref) 0))"

lemma demo_build: "BuildRuntime (\<lambda>_ _. Inl []) demo_parser (demo_config name ref) 0 = (Inr (demo_runtime name ref), 1)"
  by (simp add: BuildRuntime_def demo_config_def demo_parser_def NewBackend_def Let_def)

theorem handler_follows_config_witness:
  "fst (httpHandler [''/api''] (demo_runtime ''api'' ''api'') ''/api/users'') = Forwarded ''http://b:82''"
proof -
  have "Validate demo_parser (demo_config ''api'' ''api'') = None" by code_simp
  moreover have "trimmed_names (demo_config ''api'' ''api'')" by code_simp
  moreover have "fits_in_memory (demo_config ''api'' ''api'')" by (simp add: fits_in_memory_def demo_config_def)
  moreover have "enumerates [''/api''] (routes (router (demo_runtime ''api'' ''api'')))"
    by (simp add: enumerates_def BuildRuntime_def demo_config_def demo_parser_def NewBackend_def Let_def AddRoute_def NewRouter_def)
  moreover have "snd (longest_route (\<lambda>p. map_option Some (configured (demo_config ''api'' ''api'') p)) ''/api/users'') = Some ''api''"
    by code_simp
  ultimately show ?thesis
    using handler_follows_config [OF _ _ _ demo_build [of "''api''" "''api''"], of demo_parser "[''/api'']" "''/api/users''"]
    by (simp add: demo_config_def)
qed

text \<open>The same configuration with a blank after the name of the service in the route: validation accepts it,
  but the builder looks up the name with the blank, and the configured route is answered 404.\<close>

lemma untrimmed_route_not_found:
  "Validate demo_parser (demo_config ''api'' ''api '') = None \<and>
   fst (httpHandler [''/api''] (demo_runtime ''api'' ''api '') ''/api'') = StatusNotFound"
  by code_simp

end
