(* ===== verification/Headers.thy ===== *)
theory Headers
  imports Prelude
begin

text \<open>
  What the proxy uses of Go's \<^verbatim>\<open>net/http\<close>, \<^verbatim>\<open>net/textproto\<close> and \<^verbatim>\<open>net\<close> packages: header maps with canonical keys, the
  hop-by-hop headers that a reverse proxy removes, and the split of an address into host and port. A header map
  sends a canonical key to its values.
\<close>

section \<open>Header maps\<close>

type_synonym Header = "string \<rightharpoonup> string list"

definition upper_byte :: "char \<Rightarrow> char" where
  "upper_byte c = (let n = of_char c :: nat in if 97 \<le> n \<and> n \<le> 122 then char_of (n - 32) else c)"

definition lower_byte :: "char \<Rightarrow> char" where
  "lower_byte c = (let n = of_char c :: nat in if 65 \<le> n \<and> n \<le> 90 then char_of (n + 32) else c)"

definition token_byte :: "char \<Rightarrow> bool" where
  "token_byte c \<longleftrightarrow> (let n = of_char c :: nat in (48 \<le> n \<and> n \<le> 57) \<or> (65 \<le> n \<and> n \<le> 90) \<or> (97 \<le> n \<and> n \<le> 122)) \<or>
    c \<in> set (''!#$%&*+-.^_|~'' @ [CHR 0x27, CHR 0x60])"

text \<open>\<^verbatim>\<open>http.CanonicalHeaderKey\<close>: upper case at the start and after a hyphen; a key with another byte is left alone.\<close>

fun canonical_from :: "bool \<Rightarrow> string \<Rightarrow> string" where
  "canonical_from start [] = []"
| "canonical_from start (c # cs) = (if start then upper_byte c else lower_byte c) # canonical_from (c = CHR ''-'') cs"

definition CanonicalHeaderKey :: "string \<Rightarrow> string" where
  "CanonicalHeaderKey key = (if list_all token_byte key then canonical_from True key else key)"

definition Get :: "string \<Rightarrow> Header \<Rightarrow> string" where
  "Get key h = (case h (CanonicalHeaderKey key) of Some (v # vs) \<Rightarrow> v | _ \<Rightarrow> [])"

definition Set :: "string \<Rightarrow> string \<Rightarrow> Header \<Rightarrow> Header" where
  "Set key value h = h(CanonicalHeaderKey key \<mapsto> [value])"

definition Del :: "string \<Rightarrow> Header \<Rightarrow> Header" where
  "Del key h = h(CanonicalHeaderKey key := None)"

definition Values :: "string \<Rightarrow> Header \<Rightarrow> string list" where
  "Values key h = (case h (CanonicalHeaderKey key) of Some vs \<Rightarrow> vs | None \<Rightarrow> [])"

lemma canonical_keys [simp]:
  "CanonicalHeaderKey ''X-Request-ID'' = ''X-Request-Id''"
  "CanonicalHeaderKey ''X-Forwarded-For'' = ''X-Forwarded-For''"
  "CanonicalHeaderKey ''X-Forwarded-Proto'' = ''X-Forwarded-Proto''"
  "CanonicalHeaderKey ''X-Forwarded-Host'' = ''X-Forwarded-Host''"
  "CanonicalHeaderKey ''Forwarded'' = ''Forwarded''"
  "CanonicalHeaderKey ''Connection'' = ''Connection''"
  "CanonicalHeaderKey ''Upgrade'' = ''Upgrade''"
  "CanonicalHeaderKey ''Te'' = ''Te''"
  "CanonicalHeaderKey ''User-Agent'' = ''User-Agent''"
  by code_simp+

lemma Get_Set: "Get key (Set key value h) = value"
  by (simp add: Get_def Set_def)

lemma fold_Del: "fold Del keys h k = (if k \<in> CanonicalHeaderKey ` set keys then None else h k)"
  by (induction keys arbitrary: h) (auto simp: Del_def)

section \<open>Hop-by-hop headers\<close>

fun split_on :: "char \<Rightarrow> string \<Rightarrow> string list" where
  "split_on c [] = [[]]"
| "split_on c (x # xs) =
    (if x = c then [] # split_on c xs
     else case split_on c xs of [] \<Rightarrow> [[x]] | w # ws \<Rightarrow> (x # w) # ws)"

definition trim_bytes :: "char list \<Rightarrow> string \<Rightarrow> string" where
  "trim_bytes cs s = rev (dropWhile (\<lambda>c. c \<in> set cs) (rev (dropWhile (\<lambda>c. c \<in> set cs) s)))"

text \<open>\<^verbatim>\<open>textproto.TrimString\<close> and the trimming of optional white space in \<^verbatim>\<open>httpguts\<close>.\<close>

definition TrimString :: "string \<Rightarrow> string" where
  "TrimString s = trim_bytes [CHR '' '', CHR 0x09, CHR 0x0A, CHR 0x0D] s"

definition HeaderValuesContainsToken :: "string list \<Rightarrow> string \<Rightarrow> bool" where
  "HeaderValuesContainsToken vs token \<longleftrightarrow>
    (\<exists>v \<in> set vs. \<exists>t \<in> set (split_on (CHR '','') v). map lower_byte (trim_bytes [CHR '' '', CHR 0x09] t) = map lower_byte token)"

definition hopHeaders :: "string list" where
  "hopHeaders = [''Connection'', ''Proxy-Connection'', ''Keep-Alive'', ''Proxy-Authenticate'', ''Proxy-Authorization'',
     ''Te'', ''Trailer'', ''Transfer-Encoding'', ''Upgrade'']"

text \<open>The headers that the values of \<^verbatim>\<open>Connection\<close> name.\<close>

definition connection_headers :: "Header \<Rightarrow> string list" where
  "connection_headers h =
    filter (\<lambda>t. t \<noteq> []) (map TrimString (concat (map (split_on (CHR '','')) (Values ''Connection'' h))))"

definition removeHopByHopHeaders :: "Header \<Rightarrow> Header" where
  "removeHopByHopHeaders h = fold Del hopHeaders (fold Del (connection_headers h) h)"

definition upgradeType :: "Header \<Rightarrow> string" where
  "upgradeType h = (if HeaderValuesContainsToken (Values ''Connection'' h) ''Upgrade'' then Get ''Upgrade'' h else [])"

definition hop_by_hop :: "Header \<Rightarrow> string \<Rightarrow> bool" where
  "hop_by_hop h k \<longleftrightarrow> k \<in> set hopHeaders \<or> k \<in> CanonicalHeaderKey ` set (connection_headers h)"

lemma canonical_hopHeaders: "map CanonicalHeaderKey hopHeaders = hopHeaders"
  by code_simp

lemma removeHopByHopHeaders_key: "removeHopByHopHeaders h k = (if hop_by_hop h k then None else h k)"
proof -
  have "CanonicalHeaderKey ` set hopHeaders = set hopHeaders"
    using arg_cong [OF canonical_hopHeaders, of set] by simp
  then show ?thesis by (auto simp: removeHopByHopHeaders_def fold_Del hop_by_hop_def)
qed

section \<open>Addresses\<close>

fun IndexByte :: "char \<Rightarrow> string \<Rightarrow> nat option" where
  "IndexByte c [] = None"
| "IndexByte c (x # xs) = (if x = c then Some 0 else map_option Suc (IndexByte c xs))"

definition LastIndexByte :: "char \<Rightarrow> string \<Rightarrow> nat option" where
  "LastIndexByte c s = map_option (\<lambda>i. length s - 1 - i) (IndexByte c (rev s))"

datatype addr_error = MissingPort | TooManyColons | MissingBracket | UnexpectedOpen | UnexpectedClose

text \<open>The end of \<^verbatim>\<open>net.SplitHostPort\<close>: no bracket may come after the positions \<open>j\<close> and \<open>k\<close>.\<close>

definition split_checked :: "string \<Rightarrow> nat \<Rightarrow> nat \<Rightarrow> nat \<Rightarrow> string \<Rightarrow> addr_error + string \<times> string" where
  "split_checked hostport i j k host =
    (if CHR ''['' \<in> set (drop j hostport) then Inl UnexpectedOpen
     else if CHR '']'' \<in> set (drop k hostport) then Inl UnexpectedClose
     else Inr (host, drop (i + 1) hostport))"

definition SplitHostPort :: "string \<Rightarrow> addr_error + string \<times> string" where
  "SplitHostPort hostport =
    (case LastIndexByte (CHR '':'') hostport of
       None \<Rightarrow> Inl MissingPort
     | Some i \<Rightarrow>
         if hd hostport = CHR ''['' then
           (case IndexByte (CHR '']'') hostport of
              None \<Rightarrow> Inl MissingBracket
            | Some e \<Rightarrow>
                if e + 1 = length hostport then Inl MissingPort
                else if e + 1 \<noteq> i then Inl (if hostport ! (e + 1) = CHR '':'' then TooManyColons else MissingPort)
                else split_checked hostport i 1 (e + 1) (drop 1 (take e hostport)))
         else if CHR '':'' \<in> set (take i hostport) then Inl TooManyColons
         else split_checked hostport i 0 0 (take i hostport))"

lemma IndexByte_append [simp]: "c \<notin> set xs \<Longrightarrow> IndexByte c (xs @ c # ys) = Some (length xs)"
  by (induction xs) auto

lemma LastIndexByte_append [simp]: "c \<notin> set ys \<Longrightarrow> LastIndexByte c (xs @ c # ys) = Some (length xs)"
  by (simp add: LastIndexByte_def)

text \<open>The two forms in which \<^verbatim>\<open>net/http\<close> gives the address of a client, of an IPv4 and of an IPv6 peer.\<close>

abbreviation free_of :: "string \<Rightarrow> string \<Rightarrow> bool" where
  "free_of cs s \<equiv> set cs \<inter> set s = {}"

lemma SplitHostPort_plain:
  assumes "free_of ''[]:'' host" and "free_of ''[]:'' port"
  shows "SplitHostPort (host @ '':'' @ port) = Inr (host, port)"
proof -
  have i: "LastIndexByte (CHR '':'') (host @ '':'' @ port) = Some (length host)" using assms(2) by simp
  have "hd (host @ '':'' @ port) \<noteq> CHR ''[''" using assms(1) by (cases host) auto
  then show ?thesis using assms by (simp add: SplitHostPort_def i split_checked_def)
qed

lemma SplitHostPort_bracketed:
  assumes "free_of ''[]'' host" and "free_of ''[]:'' port"
  shows "SplitHostPort (''['' @ host @ '']:'' @ port) = Inr (host, port)"
proof -
  have i: "LastIndexByte (CHR '':'') (''['' @ host @ '']:'' @ port) = Some (length host + 2)"
    using assms(2) LastIndexByte_append [of "CHR '':''" port "''['' @ host @ '']''"] by simp
  have e: "IndexByte (CHR '']'') (''['' @ host @ '']:'' @ port) = Some (length host + 1)"
    using assms(1) IndexByte_append [of "CHR '']''" "''['' @ host" "'':'' @ port"] by simp
  show ?thesis unfolding SplitHostPort_def i e option.case using assms by (auto simp: split_checked_def)
qed

end
