(* ===== verification/Observability.thy ===== *)
theory Observability
  imports Prelude "HOL-Library.Word"
begin

text \<open>
  The metrics of the proxy, \<^verbatim>\<open>internal/observability\<close>: a counter vector is a function from its labels to a number, a
  histogram the list of its observations in nanoseconds, a gauge vector a map. The label of a status is the
  status itself, of which the code prints the decimal digits. The registry and the exposition format belong to the
  Prometheus library.
\<close>

record metrics =
  requestsTotal :: "string \<times> string \<times> nat \<Rightarrow> nat"
  requestDuration :: "string \<times> string \<Rightarrow> nat list"
  inflight :: int
  backendRequestsTotal :: "string \<Rightarrow> nat"
  backendRequestDuration :: "string \<Rightarrow> nat list"
  backendErrorsTotal :: "string \<Rightarrow> nat"
  backendUp :: "string \<rightharpoonup> nat"
  reloadsTotal :: "string \<Rightarrow> nat"
  generation :: "64 word"
  buildTime :: "nat list"

definition newMetrics :: metrics where
  "newMetrics = \<lparr>requestsTotal = (\<lambda>_. 0), requestDuration = (\<lambda>_. []), inflight = 0, backendRequestsTotal = (\<lambda>_. 0),
     backendRequestDuration = (\<lambda>_. []), backendErrorsTotal = (\<lambda>_. 0), backendUp = Map.empty, reloadsTotal = (\<lambda>_. 0),
     generation = 0, buildTime = []\<rparr>"

section \<open>Vectors\<close>

definition Inc :: "'l \<Rightarrow> ('l \<Rightarrow> nat) \<Rightarrow> 'l \<Rightarrow> nat" where
  "Inc l v = v(l := v l + 1)"

definition Observe :: "'l \<Rightarrow> nat \<Rightarrow> ('l \<Rightarrow> nat list) \<Rightarrow> 'l \<Rightarrow> nat list" where
  "Observe l d v = v(l := v l @ [d])"

lemma Inc_apply: "Inc l v k = v k + (if k = l then 1 else 0)"
  by (simp add: Inc_def)

lemma length_Observe: "length (Observe l d v k) = length (v k) + (if k = l then 1 else 0)"
  by (simp add: Observe_def)

section \<open>Recording\<close>

definition normalizeRoute :: "string \<Rightarrow> string" where
  "normalizeRoute route = (if route = [] then ''unmatched'' else route)"

definition RecordHTTPRequest :: "string \<Rightarrow> string \<Rightarrow> nat \<Rightarrow> metrics \<Rightarrow> metrics" where
  "RecordHTTPRequest method route status m = m\<lparr>requestsTotal := Inc (method, normalizeRoute route, status) (requestsTotal m)\<rparr>"

definition ObserveHTTPRequestDuration :: "string \<Rightarrow> string \<Rightarrow> nat \<Rightarrow> metrics \<Rightarrow> metrics" where
  "ObserveHTTPRequestDuration method route duration m =
    m\<lparr>requestDuration := Observe (method, normalizeRoute route) duration (requestDuration m)\<rparr>"

text \<open>\<^verbatim>\<open>TrackInflight\<close> increments the gauge and returns the function that decrements it.\<close>

definition TrackInflight :: "metrics \<Rightarrow> metrics \<times> (metrics \<Rightarrow> metrics)" where
  "TrackInflight m = (m\<lparr>inflight := inflight m + 1\<rparr>, \<lambda>m. m\<lparr>inflight := inflight m - 1\<rparr>)"

definition RecordBackendRequest :: "string \<Rightarrow> metrics \<Rightarrow> metrics" where
  "RecordBackendRequest backend m = m\<lparr>backendRequestsTotal := Inc backend (backendRequestsTotal m)\<rparr>"

definition ObserveBackendRequestDuration :: "string \<Rightarrow> nat \<Rightarrow> metrics \<Rightarrow> metrics" where
  "ObserveBackendRequestDuration backend duration m =
    m\<lparr>backendRequestDuration := Observe backend duration (backendRequestDuration m)\<rparr>"

definition RecordBackendError :: "string \<Rightarrow> metrics \<Rightarrow> metrics" where
  "RecordBackendError backend m = m\<lparr>backendErrorsTotal := Inc backend (backendErrorsTotal m)\<rparr>"

definition SetBackendHealth :: "string \<Rightarrow> bool \<Rightarrow> metrics \<Rightarrow> metrics" where
  "SetBackendHealth backend up m = m\<lparr>backendUp := (backendUp m)(backend \<mapsto> (if up then 1 else 0))\<rparr>"

definition RecordRuntimeReload :: "bool \<Rightarrow> metrics \<Rightarrow> metrics" where
  "RecordRuntimeReload success m = m\<lparr>reloadsTotal := Inc (if success then ''success'' else ''failure'') (reloadsTotal m)\<rparr>"

definition SetRuntimeGeneration :: "64 word \<Rightarrow> metrics \<Rightarrow> metrics" where
  "SetRuntimeGeneration g m = m\<lparr>generation := g\<rparr>"

definition ObserveRuntimeBuildDuration :: "nat \<Rightarrow> metrics \<Rightarrow> metrics" where
  "ObserveRuntimeBuildDuration duration m = m\<lparr>buildTime := buildTime m @ [duration]\<rparr>"

lemmas recording_defs = RecordHTTPRequest_def ObserveHTTPRequestDuration_def TrackInflight_def RecordBackendRequest_def
  ObserveBackendRequestDuration_def RecordBackendError_def

end
