(* ===== verification/Forward.thy ===== *)
theory Forward
  imports Runtime Headers Observability
begin

text \<open>
  A request from the client to the backend and back: the logging middleware and the status recorder of
  \<^verbatim>\<open>internal/middleware\<close>, \<^verbatim>\<open>httpHandler\<close> of \<^verbatim>\<open>internal/proxy/server.go\<close> with its metrics, \<^verbatim>\<open>internal/transport\<close>, and the reverse
  proxy that \<^verbatim>\<open>internal/upstream\<close> configures: \<^verbatim>\<open>Rewrite\<close>, the instrumented transport and the error handler. Of
  \<^verbatim>\<open>httputil.ReverseProxy\<close> the model has the headers it removes, the calls of \<^verbatim>\<open>Rewrite\<close>, the transport and the error handler, and
  the status it writes; bodies, trailers and query strings are not modelled. The network, the clock, the parsed
  upstream URLs and the generated identifiers are arguments.
\<close>

section \<open>Requests and the rewriting\<close>

record http_request =
  reqMethod :: string
  urlScheme :: string
  urlHost :: string
  urlPath :: string
  reqHost :: string
  RemoteAddr :: string
  overTLS :: bool
  headers :: Header
  ctxRequestID :: "string option"

record target =
  targetScheme :: string
  targetHost :: string

definition clientIP :: "string \<Rightarrow> string" where
  "clientIP addr = (case SplitHostPort addr of Inl err \<Rightarrow> addr | Inr (host, port) \<Rightarrow> host)"

text \<open>The request ID of a request, and the generated one if it has none.\<close>

definition request_id :: "string \<Rightarrow> Header \<Rightarrow> string" where
  "request_id uuid h = (let reqID = Get ''X-Request-ID'' h in if reqID = [] then uuid else reqID)"

definition Rewrite :: "target \<Rightarrow> string \<Rightarrow> http_request \<Rightarrow> http_request \<Rightarrow> http_request" where
  "Rewrite u uuid req out =
    (let ip = clientIP (RemoteAddr req);
         prior = Get ''X-Forwarded-For'' (headers req);
         h1 = Set ''X-Forwarded-For'' (if prior \<noteq> [] then prior @ '', '' @ ip else ip) (headers out);
         h2 = Set ''X-Forwarded-Proto'' (if overTLS req then ''https'' else ''http'') h1;
         h3 = (if reqHost req \<noteq> [] then Set ''X-Forwarded-Host'' (reqHost req) h2 else h2);
         h4 = Set ''X-Request-ID'' (request_id uuid (headers req)) h3
     in out\<lparr>urlScheme := targetScheme u, urlHost := targetHost u, headers := h4\<rparr>)"

definition printable :: "string \<Rightarrow> bool" where
  "printable s = list_all (\<lambda>c. let n = of_char c :: nat in 32 \<le> n \<and> n \<le> 126) s"

text \<open>The request that the reverse proxy sends, unless the requested protocol is not printable.\<close>

definition outgoing :: "target \<Rightarrow> string \<Rightarrow> http_request \<Rightarrow> http_request option" where
  "outgoing u uuid req =
    (let upType = upgradeType (headers req)
     in if \<not> printable upType then None
        else let h1 = removeHopByHopHeaders (headers req);
                 h2 = (if HeaderValuesContainsToken (Values ''Te'' (headers req)) ''trailers'' then Set ''Te'' ''trailers'' h1 else h1);
                 h3 = (if upType \<noteq> [] then Set ''Upgrade'' upType (Set ''Connection'' ''Upgrade'' h2) else h2);
                 h4 = fold Del [''Forwarded'', ''X-Forwarded-For'', ''X-Forwarded-Host'', ''X-Forwarded-Proto''] h3;
                 out = Rewrite u uuid req (req\<lparr>headers := h4\<rparr>)
             in Some (if headers out ''User-Agent'' = None then out\<lparr>headers := Set ''User-Agent'' [] (headers out)\<rparr> else out))"

section \<open>Response writers\<close>

text \<open>The writer of \<^verbatim>\<open>net/http\<close>, the \<^verbatim>\<open>responseWriter\<close> of the logging middleware and the \<^verbatim>\<open>statusRecorder\<close>. The last two embed the
  interface \<^verbatim>\<open>http.ResponseWriter\<close> and have no method \<^verbatim>\<open>Unwrap\<close>, so that a wrapped connection cannot be hijacked.\<close>

datatype ResponseWriter = NetWriter "nat option" | LoggedWriter nat ResponseWriter | StatusRecorder nat ResponseWriter

fun WriteHeader :: "nat \<Rightarrow> ResponseWriter \<Rightarrow> ResponseWriter" where
  "WriteHeader status (NetWriter sent) =
    NetWriter (if 100 \<le> status \<and> status < 200 \<and> status \<noteq> 101 then sent else case sent of None \<Rightarrow> Some status | Some c \<Rightarrow> Some c)"
| "WriteHeader status (LoggedWriter c w) = LoggedWriter status (WriteHeader status w)"
| "WriteHeader status (StatusRecorder c w) = StatusRecorder status (WriteHeader status w)"

fun Hijack :: "ResponseWriter \<Rightarrow> bool" where
  "Hijack (NetWriter sent) = True"
| "Hijack (LoggedWriter c w) = False"
| "Hijack (StatusRecorder c w) = False"

definition NewStatusRecorder :: "ResponseWriter \<Rightarrow> ResponseWriter" where
  "NewStatusRecorder w = StatusRecorder 200 w"

fun Status :: "ResponseWriter \<Rightarrow> nat" where
  "Status (NetWriter sent) = (case sent of None \<Rightarrow> 200 | Some c \<Rightarrow> c)"
| "Status (LoggedWriter c w) = c"
| "Status (StatusRecorder c w) = c"

fun inner_writer :: "ResponseWriter \<Rightarrow> ResponseWriter" where
  "inner_writer (NetWriter sent) = NetWriter sent"
| "inner_writer (LoggedWriter c w) = w"
| "inner_writer (StatusRecorder c w) = w"

section \<open>The proxy\<close>

record log_entry =
  logMethod :: string
  logPath :: string
  logStatus :: nat
  logDuration :: nat
  logRequestID :: string
  logClient :: string

text \<open>The current runtime, the metrics, the requests that were sent to backends with their outcomes, and the log.\<close>

record proxy =
  current_rt :: Runtime
  met :: metrics
  wire :: "(string \<times> http_request \<times> (string + nat)) list"
  logs :: "log_entry list"

text \<open>A request of a client with what happens around it: the order in which Go iterates over the routes, the identifiers
  that would be generated, the network, whether the copy of the response body breaks off, and the clock.\<close>

record exchange =
  order :: "string list"
  request :: http_request
  uuidLogging :: string
  uuidRewrite :: string
  network :: "http_request \<Rightarrow> string + nat"
  copyFails :: bool
  backendTime :: nat
  totalTime :: nat

text \<open>\<^verbatim>\<open>instrumentedTransport.RoundTrip\<close>.\<close>

definition RoundTrip :: "bool \<Rightarrow> string \<Rightarrow> exchange \<Rightarrow> http_request \<Rightarrow> proxy \<Rightarrow> (string + nat) \<times> proxy" where
  "RoundTrip enabled backend x req p =
    (let resp = network x req;
         m1 = (if enabled then ObserveBackendRequestDuration backend (backendTime x) (RecordBackendRequest backend (met p)) else met p);
         m2 = (if isl resp \<and> enabled then RecordBackendError backend m1 else m1)
     in (resp, p\<lparr>met := m2, wire := wire p @ [(backend, req, resp)]\<rparr>))"

text \<open>A handler writes a response and returns or panics: the flag says that it has panicked.

  \<^verbatim>\<open>transport.Forward\<close>: the reverse proxy with the error handler of the backend. A response that switches protocols
  needs the connection of the client. When the copy of the body breaks off after the status has been written, the
  reverse proxy panics with \<^verbatim>\<open>http.ErrAbortHandler\<close>.\<close>

type_synonym handled = "ResponseWriter \<times> bool \<times> proxy"

definition ServeHTTP :: "target \<Rightarrow> bool \<Rightarrow> string \<Rightarrow> exchange \<Rightarrow> http_request \<Rightarrow> ResponseWriter \<Rightarrow> proxy \<Rightarrow> handled" where
  "ServeHTTP u enabled backend x req w p =
    (case outgoing u (uuidRewrite x) req of
       None \<Rightarrow> (WriteHeader 502 w, False, p)
     | Some out \<Rightarrow>
         (case RoundTrip enabled backend x out p of
            (Inl err, p') \<Rightarrow> (WriteHeader 502 w, False, p')
          | (Inr status, p') \<Rightarrow>
              if status = 101 \<and> \<not> Hijack w then (WriteHeader 502 w, False, p')
              else (WriteHeader status w, copyFails x, p')))"

text \<open>\<^verbatim>\<open>Server.httpHandler\<close>; the metrics are recorded by deferred calls, also when the handler panics. The flag of a backend
  is that of its runtime, see \<open>backends_observed\<close>.\<close>

definition Server_httpHandler :: "(string \<Rightarrow> target) \<Rightarrow> exchange \<Rightarrow> http_request \<Rightarrow> ResponseWriter \<Rightarrow> proxy \<Rightarrow> handled" where
  "Server_httpHandler target_of x req w p =
    (let rt = current_rt p;
         rec = NewStatusRecorder w;
         (m, completed) = (if observes rt then TrackInflight (met p) else (met p, \<lambda>m. m));
         route = fst (Route (order x) (router rt) (urlPath req));
         (resp, rt') = httpHandler (order x) rt (urlPath req);
         p1 = p\<lparr>current_rt := rt', met := m\<rparr>;
         (rec', panics, p2) = (case resp of
             StatusNotFound \<Rightarrow> (WriteHeader 404 rec, False, p1)
           | StatusServiceUnavailable \<Rightarrow> (WriteHeader 503 rec, False, p1)
           | Forwarded url \<Rightarrow> ServeHTTP (target_of url) (observes rt) url x req rec p1);
         m2 = (if observes rt
               then ObserveHTTPRequestDuration (reqMethod req) route (totalTime x)
                      (RecordHTTPRequest (reqMethod req) route (Status rec') (met p2))
               else met p2)
     in (inner_writer rec', panics, p2\<lparr>met := completed m2\<rparr>))"

text \<open>The call of the logger is not deferred: there is no entry for a request whose handler panics.\<close>

definition LoggingMiddleware :: "exchange \<Rightarrow> (http_request \<Rightarrow> ResponseWriter \<Rightarrow> proxy \<Rightarrow> handled) \<Rightarrow>
    http_request \<Rightarrow> ResponseWriter \<Rightarrow> proxy \<Rightarrow> handled" where
  "LoggingMiddleware x next_handler req w p =
    (let reqID = request_id (uuidLogging x) (headers req);
         req' = req\<lparr>ctxRequestID := Some reqID, headers := Set ''X-Request-ID'' reqID (headers req)\<rparr>;
         (wrapped, panics, p') = next_handler req' (LoggedWriter 200 w) p;
         entry = \<lparr>logMethod = reqMethod req', logPath = urlPath req', logStatus = Status wrapped,
                  logDuration = totalTime x div 1000000, logRequestID = reqID, logClient = RemoteAddr req'\<rparr>
     in (inner_writer wrapped, panics, if panics then p' else p'\<lparr>logs := logs p' @ [entry]\<rparr>))"

text \<open>\<^verbatim>\<open>Server.Handler\<close> on one request: the status that the client gets, and whether \<^verbatim>\<open>net/http\<close> aborts the response because the
  handler has panicked.\<close>

definition Handler :: "(string \<Rightarrow> target) \<Rightarrow> bool \<Rightarrow> exchange \<Rightarrow> proxy \<Rightarrow> nat \<times> bool \<times> proxy" where
  "Handler target_of logger x p =
    (let h = Server_httpHandler target_of x;
         (w, panics, p') = (if logger then LoggingMiddleware x h else h) (request x) (NetWriter None) p
     in (Status w, panics, p'))"

text \<open>Any number of requests, one after the other.\<close>

fun serve_all :: "(string \<Rightarrow> target) \<Rightarrow> exchange list \<Rightarrow> proxy \<Rightarrow> (nat \<times> bool) list \<times> proxy" where
  "serve_all target_of [] p = ([], p)"
| "serve_all target_of (x # xs) p =
    (let (status, aborted, p1) = Handler target_of True x p; (answers, p2) = serve_all target_of xs p1
     in ((status, aborted) # answers, p2))"

section \<open>What the backend receives\<close>

text \<open>The headers that the proxy decides about; all others pass unless they are hop-by-hop.\<close>

definition end_to_end :: "Header \<Rightarrow> string \<Rightarrow> bool" where
  "end_to_end h k \<longleftrightarrow> \<not> hop_by_hop h k \<and>
    k \<notin> {''Forwarded'', ''X-Forwarded-For'', ''X-Forwarded-Proto'', ''X-Forwarded-Host'', ''X-Request-Id'', ''User-Agent''}"

definition proxied :: "target \<Rightarrow> string \<Rightarrow> string \<Rightarrow> http_request \<Rightarrow> http_request \<Rightarrow> bool" where
  "proxied u reqID ip req out \<longleftrightarrow>
    urlScheme out = targetScheme u \<and> urlHost out = targetHost u \<and>
    reqMethod out = reqMethod req \<and> urlPath out = urlPath req \<and> reqHost out = reqHost req \<and>
    headers out ''X-Forwarded-For'' =
      Some [case headers req ''X-Forwarded-For'' of Some (prior # _) \<Rightarrow> (if prior = [] then ip else prior @ '', '' @ ip) | _ \<Rightarrow> ip] \<and>
    headers out ''X-Forwarded-Proto'' = Some [if overTLS req then ''https'' else ''http''] \<and>
    headers out ''X-Forwarded-Host'' = (if reqHost req = [] then None else Some [reqHost req]) \<and>
    headers out ''X-Request-Id'' = Some [reqID] \<and>
    (\<forall>k. end_to_end (headers req) k \<longrightarrow> headers out k = headers req k)"

lemma outgoing_None: "outgoing u uuid req = None \<longleftrightarrow> \<not> printable (upgradeType (headers req))"
  by (simp add: outgoing_def Let_def)

lemma outgoing_proxied:
  assumes "outgoing u uuid req = Some out"
  shows "proxied u (request_id uuid (headers req)) (clientIP (RemoteAddr req)) req out"
proof -
  let ?h = "fold Del [''Forwarded'', ''X-Forwarded-For'', ''X-Forwarded-Host'', ''X-Forwarded-Proto'']
    (let h1 = removeHopByHopHeaders (headers req);
         h2 = (if HeaderValuesContainsToken (Values ''Te'' (headers req)) ''trailers'' then Set ''Te'' ''trailers'' h1 else h1)
     in if upgradeType (headers req) \<noteq> [] then Set ''Upgrade'' (upgradeType (headers req)) (Set ''Connection'' ''Upgrade'' h2) else h2)"
  have host: "?h ''X-Forwarded-Host'' = None" by (simp add: Del_def)
  have pass: "?h k = headers req k" if "end_to_end (headers req) k" for k
    using that by (auto simp: end_to_end_def hop_by_hop_def hopHeaders_def Del_def Let_def Set_def removeHopByHopHeaders_key)
  have out: "out = (let out = Rewrite u uuid req (req\<lparr>headers := ?h\<rparr>)
      in if headers out ''User-Agent'' = None then out\<lparr>headers := Set ''User-Agent'' [] (headers out)\<rparr> else out)"
    using assms by (simp add: outgoing_def Let_def split: if_splits)
  obtain h where h: "h = ?h" by blast
  show ?thesis
    using host pass unfolding out h [symmetric]
    by (auto simp: proxied_def Rewrite_def Let_def Set_def Get_def end_to_end_def split: option.split list.split)
qed

section \<open>One request\<close>

text \<open>Documented behaviour of the libraries: \<^verbatim>\<open>http.Transport\<close> returns no informational response but that of a protocol
  switch, and a generated identifier is not empty.\<close>

definition reliable :: "exchange \<Rightarrow> bool" where
  "reliable x \<longleftrightarrow> uuidLogging x \<noteq> [] \<and> (\<forall>req status. network x req = Inr status \<longrightarrow> status = 101 \<or> 200 \<le> status)"

text \<open>The request as the middleware passes it on, and the identifier it logs.\<close>

definition logged_id :: "exchange \<Rightarrow> string" where
  "logged_id x = request_id (uuidLogging x) (headers (request x))"

definition identified :: "exchange \<Rightarrow> http_request" where
  "identified x = (request x)\<lparr>ctxRequestID := Some (logged_id x), headers := Set ''X-Request-ID'' (logged_id x) (headers (request x))\<rparr>"

lemma identified_simps [simp]:
  "reqMethod (identified x) = reqMethod (request x)" "urlPath (identified x) = urlPath (request x)"
  "reqHost (identified x) = reqHost (request x)" "RemoteAddr (identified x) = RemoteAddr (request x)"
  "overTLS (identified x) = overTLS (request x)"
  "headers (identified x) = Set ''X-Request-ID'' (logged_id x) (headers (request x))"
  by (simp_all add: identified_def)

text \<open>The answer to a client, from what the backend did.\<close>

fun answer :: "string + nat \<Rightarrow> nat" where
  "answer (Inl err) = 502"
| "answer (Inr status) = (if status = 101 then 502 else status)"

fun aborts :: "bool \<Rightarrow> string + nat \<Rightarrow> bool" where
  "aborts breaks (Inl err) = False"
| "aborts breaks (Inr status) = (breaks \<and> status \<noteq> 101)"

definition outcome :: "(string \<Rightarrow> target) \<Rightarrow> exchange \<Rightarrow> Runtime \<Rightarrow> nat \<times> (string \<times> http_request \<times> (string + nat)) list" where
  "outcome target_of x rt =
    (case fst (httpHandler (order x) rt (urlPath (request x))) of
       StatusNotFound \<Rightarrow> (404, [])
     | StatusServiceUnavailable \<Rightarrow> (503, [])
     | Forwarded url \<Rightarrow>
         (case outgoing (target_of url) (uuidRewrite x) (identified x) of
            None \<Rightarrow> (502, [])
          | Some out \<Rightarrow> (answer (network x out), [(url, out, network x out)])))"

definition label :: "exchange \<Rightarrow> Runtime \<Rightarrow> string" where
  "label x rt = normalizeRoute (fst (Route (order x) (router rt) (urlPath (request x))))"

text \<open>What the metrics of a request amount to.\<close>

definition account :: "exchange \<Rightarrow> string \<Rightarrow> nat \<times> (string \<times> http_request \<times> (string + nat)) list \<Rightarrow> metrics \<Rightarrow> metrics" where
  "account x route r m = m\<lparr>requestsTotal := Inc (reqMethod (request x), route, fst r) (requestsTotal m),
     requestDuration := Observe (reqMethod (request x), route) (totalTime x) (requestDuration m),
     backendRequestsTotal := fold (\<lambda>(url, _). Inc url) (snd r) (backendRequestsTotal m),
     backendRequestDuration := fold (\<lambda>(url, _). Observe url (backendTime x)) (snd r) (backendRequestDuration m),
     backendErrorsTotal := fold (\<lambda>(url, out, resp). if isl resp then Inc url else id) (snd r) (backendErrorsTotal m)\<rparr>"

definition aborted_outcome :: "exchange \<Rightarrow> nat \<times> (string \<times> http_request \<times> (string + nat)) list \<Rightarrow> bool" where
  "aborted_outcome x r = (\<exists>(url, out, resp) \<in> set (snd r). aborts (copyFails x) resp)"

definition entry_of :: "exchange \<Rightarrow> nat \<Rightarrow> log_entry" where
  "entry_of x status = \<lparr>logMethod = reqMethod (request x), logPath = urlPath (request x), logStatus = status,
     logDuration = totalTime x div 1000000, logRequestID = logged_id x, logClient = RemoteAddr (request x)\<rparr>"

lemma answer_final: "reliable x \<Longrightarrow> 200 \<le> answer (network x out)"
  by (cases "network x out") (auto simp: reliable_def)

lemma Handler_outcome:
  assumes "reliable x"
  shows "Handler target_of True x p =
    (let r = outcome target_of x (current_rt p); aborted = aborted_outcome x r
     in (fst r, aborted, p\<lparr>current_rt := snd (httpHandler (order x) (current_rt p) (urlPath (request x))),
        met := (if observes (current_rt p) then account x (label x (current_rt p)) r (met p) else met p),
        wire := wire p @ snd r,
        logs := logs p @ (if aborted then [] else [entry_of x (fst r)])\<rparr>))"
proof (cases "fst (httpHandler (order x) (current_rt p) (urlPath (request x)))")
  case (Forwarded url)
  show ?thesis
  proof (cases "outgoing (target_of url) (uuidRewrite x) (identified x)")
    case None
    then show ?thesis using Forwarded
      by (simp add: Handler_def LoggingMiddleware_def Server_httpHandler_def ServeHTTP_def NewStatusRecorder_def outcome_def aborted_outcome_def entry_of_def
          identified_def [symmetric] logged_id_def [symmetric] account_def label_def recording_defs split_beta Let_def)
  next
    case (Some out)
    then show ?thesis using Forwarded answer_final [OF assms, of out]
      by (cases "network x out")
        (auto simp: Handler_def LoggingMiddleware_def Server_httpHandler_def ServeHTTP_def RoundTrip_def NewStatusRecorder_def outcome_def aborted_outcome_def entry_of_def
          identified_def [symmetric] logged_id_def [symmetric] account_def label_def recording_defs split_beta Let_def
          split: if_split_asm)
  qed
qed (simp_all add: Handler_def LoggingMiddleware_def Server_httpHandler_def NewStatusRecorder_def outcome_def aborted_outcome_def entry_of_def
      logged_id_def [symmetric] account_def label_def recording_defs split_beta Let_def)

lemma logged_id_nonempty: "reliable x \<Longrightarrow> logged_id x \<noteq> []"
  by (simp add: reliable_def logged_id_def request_id_def Let_def)

lemma identified_upgrade: "upgradeType (headers (identified x)) = upgradeType (headers (request x))"
  by (simp add: upgradeType_def Values_def Get_def Set_def)

lemma identified_end_to_end: "end_to_end (headers (identified x)) k = end_to_end (headers (request x)) k"
  by (simp add: end_to_end_def hop_by_hop_def connection_headers_def Values_def Set_def)

lemma proxied_identified:
  assumes "proxied u i ip (identified x) out"
  shows "proxied u i ip (request x) out"
  using assms unfolding proxied_def identified_end_to_end
  by (simp add: Set_def end_to_end_def)

text \<open>The address of a TCP client as \<^verbatim>\<open>net/http\<close> gives it: IPv4 and port, or IPv6 in brackets and port.\<close>

definition peer_address :: "string \<Rightarrow> string \<Rightarrow> bool" where
  "peer_address ip addr \<longleftrightarrow> (\<exists>port. free_of ''[]:'' port \<and>
    (free_of ''[]:'' ip \<and> addr = ip @ '':'' @ port \<or> free_of ''[]'' ip \<and> addr = ''['' @ ip @ '']:'' @ port))"

lemma clientIP_peer: "peer_address ip addr \<Longrightarrow> clientIP addr = ip"
  unfolding peer_address_def clientIP_def by (elim exE conjE disjE) (simp_all only: SplitHostPort_plain SplitHostPort_bracketed sum.case prod.case)

text \<open>A request from the client to the backend and back.\<close>

lemma request_path:
  assumes "reliable x" and "peer_address ip (RemoteAddr (request x))" and "Handler target_of True x p = (status, aborted, p')"
  shows "(case fst (httpHandler (order x) (current_rt p) (urlPath (request x))) of
      StatusNotFound \<Rightarrow> status = 404 \<and> \<not> aborted \<and> wire p' = wire p
    | StatusServiceUnavailable \<Rightarrow> status = 503 \<and> \<not> aborted \<and> wire p' = wire p
    | Forwarded url \<Rightarrow>
        if printable (upgradeType (headers (request x)))
        then \<exists>out. wire p' = wire p @ [(url, out, network x out)] \<and> status = answer (network x out) \<and>
          aborted = aborts (copyFails x) (network x out) \<and> proxied (target_of url) (logged_id x) ip (request x) out
        else status = 502 \<and> \<not> aborted \<and> wire p' = wire p) \<and>
    (\<exists>entry. logs p' = logs p @ (if aborted then [] else [entry]) \<and> logStatus entry = status \<and> logRequestID entry = logged_id x)"
proof -
  note h = assms(3) [unfolded Handler_outcome [OF assms(1)] Let_def]
  have log: "\<exists>entry. logs p' = logs p @ (if aborted then [] else [entry]) \<and> logStatus entry = status \<and> logRequestID entry = logged_id x"
    using h by (intro exI [of _ "entry_of x status"]) (auto simp: entry_of_def)
  have out: "proxied u (logged_id x) ip (request x) out" if "outgoing u (uuidRewrite x) (identified x) = Some out" for u out
  proof (rule proxied_identified)
    have "request_id (uuidRewrite x) (headers (identified x)) = logged_id x"
      using logged_id_nonempty [OF assms(1)] by (simp add: request_id_def Get_Set)
    then show "proxied u (logged_id x) ip (identified x) out"
      using outgoing_proxied [OF that] clientIP_peer [OF assms(2)] by simp
  qed
  show ?thesis
    using h out log outgoing_None [of _ "uuidRewrite x" "identified x"] unfolding identified_upgrade
    by (fastforce simp: outcome_def aborted_outcome_def split: response.split option.splits)
qed

text \<open>C8. One request through the proxy. Without a route the client gets 404, without a healthy backend 503, and the network is
  not used. Else exactly one request goes to the chosen backend: it keeps method, path and host, is
  addressed to the upstream, says in the X-Forwarded headers where it comes from, carries the request ID of the
  client or the generated one, and passes all other headers that are not hop-by-hop. The client gets the status
  of the backend, or 502 if the backend cannot be reached or wants to switch protocols. Exactly when the copy of
  the body breaks off, the response is aborted and nothing is logged; else one entry is logged, with this status
  and with the very request ID that the backend got.\<close>

theorem forwarded_request:
  assumes "reliable x" and "peer_address ip (RemoteAddr (request x))" and "Handler target_of True x p = (status, aborted, p')"
  shows "(case fst (httpHandler (order x) (current_rt p) (urlPath (request x))) of
      StatusNotFound \<Rightarrow> status = 404 \<and> \<not> aborted \<and> wire p' = wire p
    | StatusServiceUnavailable \<Rightarrow> status = 503 \<and> \<not> aborted \<and> wire p' = wire p
    | Forwarded url \<Rightarrow>
        if printable (upgradeType (headers (request x)))
        then \<exists>out. wire p' = wire p @ [(url, out, network x out)] \<and> status = answer (network x out) \<and>
          aborted = aborts (copyFails x) (network x out) \<and> proxied (target_of url) (logged_id x) ip (request x) out
        else status = 502 \<and> \<not> aborted \<and> wire p' = wire p) \<and>
    (\<exists>entry. logs p' = logs p @ (if aborted then [] else [entry]) \<and> logStatus entry = status \<and> logRequestID entry = logged_id x)"
  using request_path [OF assms] .

section \<open>Any number of requests\<close>

lemma httpHandler_keeps: "router (snd (httpHandler ks rt path)) = router rt" "observes (snd (httpHandler ks rt path)) = observes rt"
  by (simp_all add: httpHandler_def Let_def split_beta split: option.split)

text \<open>How often the elements of a list satisfy a predicate.\<close>

abbreviation tally :: "('a \<Rightarrow> bool) \<Rightarrow> 'a list \<Rightarrow> nat" where
  "tally P xs \<equiv> length (filter P xs)"

lemma fold_Inc: "fold (\<lambda>y. if P y then Inc (f y) else id) ys v l = v l + tally (\<lambda>y. f y = l \<and> P y) ys"
  by (induction ys arbitrary: v) (auto simp: Inc_apply)

lemma account_simps [simp]:
  "requestsTotal (account x route r m) = Inc (reqMethod (request x), route, fst r) (requestsTotal m)"
  "length (requestDuration (account x route r m) l) = length (requestDuration m l) + (if l = (reqMethod (request x), route) then 1 else 0)"
  "inflight (account x route r m) = inflight m"
  "backendRequestsTotal (account x route r m) url = backendRequestsTotal m url + tally (\<lambda>(u, _). u = url) (snd r)"
  "backendErrorsTotal (account x route r m) url = backendErrorsTotal m url + tally (\<lambda>(u, out, resp). u = url \<and> isl resp) (snd r)"
  using fold_Inc [of "\<lambda>_. True" fst "snd r" "backendRequestsTotal m" url]
    fold_Inc [of "\<lambda>(u, out, resp). isl resp" fst "snd r" "backendErrorsTotal m" url]
  by (simp_all add: account_def length_Observe case_prod_unfold)

text \<open>The metrics after some requests, from those before, the answers and what was sent.\<close>

definition accounted :: "Runtime \<Rightarrow> exchange list \<Rightarrow> (nat \<times> bool) list \<Rightarrow> (string \<times> http_request \<times> (string + nat)) list \<Rightarrow> metrics \<Rightarrow> metrics \<Rightarrow> bool" where
  "accounted rt xs answers trips m m' \<longleftrightarrow>
    (\<forall>method route status. requestsTotal m' (method, route, status) = requestsTotal m (method, route, status) +
      tally (\<lambda>(x, st, _). reqMethod (request x) = method \<and> label x rt = route \<and> st = status) (zip xs answers)) \<and>
    (\<forall>method route. length (requestDuration m' (method, route)) = length (requestDuration m (method, route)) +
      tally (\<lambda>x. reqMethod (request x) = method \<and> label x rt = route) xs) \<and>
    (\<forall>url. backendRequestsTotal m' url = backendRequestsTotal m url + tally (\<lambda>(u, _). u = url) trips) \<and>
    (\<forall>url. backendErrorsTotal m' url = backendErrorsTotal m url + tally (\<lambda>(u, out, resp). u = url \<and> isl resp) trips) \<and>
    inflight m' = inflight m"

lemma accounted_Nil: "accounted rt [] [] [] m m"
  by (simp add: accounted_def)

lemma accounted_Cons:
  "accounted rt xs answers trips (account x (label x rt) r m) m' \<Longrightarrow> accounted rt (x # xs) ((fst r, b) # answers) (snd r @ trips) m m'"
  by (auto simp: accounted_def Inc_apply)

lemma accounted_router: "router rt' = router rt \<Longrightarrow> accounted rt' xs answers trips m m' = accounted rt xs answers trips m m'"
  by (simp add: accounted_def label_def)

text \<open>The statuses of the answers that were not aborted.\<close>

definition completed_statuses :: "(nat \<times> bool) list \<Rightarrow> nat list" where
  "completed_statuses answers = map fst (filter (\<lambda>(status, aborted). \<not> aborted) answers)"

lemma serve_all_account:
  assumes "serve_all target_of xs p = (answers, p')" and "\<forall>x \<in> set xs. reliable x"
  shows "\<exists>trips entries. wire p' = wire p @ trips \<and> logs p' = logs p @ entries \<and> map logStatus entries = completed_statuses answers \<and>
    length answers = length xs \<and>
    (if observes (current_rt p) then accounted (current_rt p) xs answers trips (met p) (met p') else met p' = met p)"
  using assms
proof (induction xs arbitrary: p answers)
  case Nil
  then show ?case by (auto simp: accounted_Nil completed_statuses_def)
next
  case (Cons x xs)
  let ?r = "outcome target_of x (current_rt p)"
  obtain status aborted p1 where h: "Handler target_of True x p = (status, aborted, p1)" by (metis prod_cases3)
  obtain rest where rest: "serve_all target_of xs p1 = (rest, p')" "answers = (status, aborted) # rest"
    using Cons.prems(1) h by (auto split: prod.splits)
  have "reliable x" and rel: "\<forall>x \<in> set xs. reliable x" using Cons.prems(2) by simp_all
  note one = h [unfolded Handler_outcome [OF this(1)] Let_def, symmetric]
  have rt: "router (current_rt p1) = router (current_rt p)" "observes (current_rt p1) = observes (current_rt p)"
    using one by (simp_all add: httpHandler_keeps)
  from Cons.IH [OF rest(1) rel] obtain trips entries where IH: "wire p' = wire p1 @ trips" "logs p' = logs p1 @ entries"
    "map logStatus entries = completed_statuses rest" "length rest = length xs"
    "if observes (current_rt p) then accounted (current_rt p) xs rest trips (met p1) (met p') else met p' = met p1"
    unfolding rt(2) accounted_router [OF rt(1)] by blast
  have "if observes (current_rt p) then accounted (current_rt p) (x # xs) answers (snd ?r @ trips) (met p) (met p') else met p' = met p"
    using IH(5) one rest(2) by (auto intro: accounted_Cons)
  moreover have "logs p' = logs p @ ((if aborted then [] else [entry_of x status]) @ entries)"
    "map logStatus ((if aborted then [] else [entry_of x status]) @ entries) = completed_statuses answers"
    using IH(2,3) one rest(2) by (auto simp: completed_statuses_def entry_of_def)
  ultimately show ?case using IH(1,4) one rest(2) by auto
qed

text \<open>C11. The accounts of the proxy agree with what it did. Over any number of requests, one after the other, the
  metrics of a runtime with observability grow, for every method, route and status, by the number of requests
  answered so, for every backend by the number of requests sent to it and of those that failed, and no request
  is left in flight; without observability the metrics are left alone. The log grows by one entry, with the
  status that the client got, for every request but those whose response was aborted.\<close>

theorem requests_accounted:
  assumes "serve_all target_of xs p = (answers, p')" and "\<forall>x \<in> set xs. reliable x"
  shows "length answers = length xs \<and>
    map logStatus (logs p') = map logStatus (logs p) @ map fst (filter (\<lambda>(status, aborted). \<not> aborted) answers) \<and>
    (\<exists>trips. wire p' = wire p @ trips \<and>
      (if observes (current_rt p)
       then (\<forall>method route status. requestsTotal (met p') (method, route, status) = requestsTotal (met p) (method, route, status) +
              tally (\<lambda>(x, st, _). reqMethod (request x) = method \<and> label x (current_rt p) = route \<and> st = status) (zip xs answers)) \<and>
            (\<forall>method route. length (requestDuration (met p') (method, route)) = length (requestDuration (met p) (method, route)) +
              tally (\<lambda>x. reqMethod (request x) = method \<and> label x (current_rt p) = route) xs) \<and>
            (\<forall>url. backendRequestsTotal (met p') url = backendRequestsTotal (met p) url + tally (\<lambda>(u, _). u = url) trips) \<and>
            (\<forall>url. backendErrorsTotal (met p') url = backendErrorsTotal (met p) url + tally (\<lambda>(u, out, resp). u = url \<and> isl resp) trips) \<and>
            inflight (met p') = inflight (met p)
       else met p' = met p))"
  using serve_all_account [OF assms] unfolding accounted_def completed_statuses_def by (elim exE conjE) (simp, blast?)

section \<open>Examples\<close>

text \<open>Every backend of a built runtime has the flag of the runtime.\<close>

lemma backends_observed:
  assumes "acceptable parse cfg" and "trimmed_names cfg" and "BuildRuntime load Parse cfg g = (Inr rt, g')"
    and "services rt name = Some svc" and "b \<in> set (backends (lb svc))"
  shows "observabilityEnabled b = observes rt"
proof -
  have "observes rt = EnabledValue (ObservabilityEnabled cfg)"
    using assms(3) by (auto simp: BuildRuntime_def Let_def split: sum.splits)
  moreover have "(name, svc) \<in> set (map (\<lambda>s. (Name s, NewService (map (backend_of cfg) (Upstreams s)))) (Services cfg))"
    using assms(4) unfolding runtime_services [OF assms(1-3)] by (rule map_of_SomeD)
  ultimately show ?thesis using assms(5) by (auto simp: NewService_def NewRoundRobin_def backend_of_def)
qed

definition demo_exchange :: "Header \<Rightarrow> string + nat \<Rightarrow> exchange" where
  "demo_exchange h resp = \<lparr>order = [''/api''],
     request = \<lparr>reqMethod = ''GET'', urlScheme = [], urlHost = [], urlPath = ''/api/users'', reqHost = ''example.org'',
       RemoteAddr = ''[2001:db8::1]:51712'', overTLS = True, headers = h, ctxRequestID = None\<rparr>,
     uuidLogging = ''6ba7b810'', uuidRewrite = ''6ba7b811'', network = (\<lambda>req. resp), copyFails = False, backendTime = 900000, totalTime = 1200000\<rparr>"

definition demo_target :: "string \<Rightarrow> target" where
  "demo_target url = \<lparr>targetScheme = ''http'', targetHost = drop 7 url\<rparr>"

definition demo_proxy :: proxy where
  "demo_proxy = \<lparr>current_rt = demo_runtime ''api'' ''api'', met = newMetrics, wire = [], logs = []\<rparr>"

definition demo_headers :: Header where
  "demo_headers = [''Accept'' \<mapsto> [''*/*''], ''X-Forwarded-For'' \<mapsto> [''10.0.0.9''], ''Connection'' \<mapsto> [''close'']]"

lemma demo_forwards:
  "fst (httpHandler [''/api''] (current_rt demo_proxy) ''/api/users'') = Forwarded ''http://b:82''"
  "observes (current_rt demo_proxy)"
  by code_simp+

lemma demo_reliable: "resp \<in> {Inl err, Inr 101} \<or> resp = Inr (200 + n) \<Longrightarrow> reliable (demo_exchange h resp)"
  by (auto simp: reliable_def demo_exchange_def)

lemma demo_peer: "peer_address ''2001:db8::1'' ''[2001:db8::1]:51712''"
  unfolding peer_address_def by (intro exI [of _ "''51712''"]) simp

lemma demo_simps [simp]:
  "order (demo_exchange h resp) = [''/api'']" "urlPath (request (demo_exchange h resp)) = ''/api/users''"
  "RemoteAddr (request (demo_exchange h resp)) = ''[2001:db8::1]:51712''" "headers (request (demo_exchange h resp)) = h"
  "network (demo_exchange h resp) req = resp" "\<not> copyFails (demo_exchange h resp)" "wire demo_proxy = []" "logs demo_proxy = []" "met demo_proxy = newMetrics"
  by (simp_all add: demo_exchange_def demo_proxy_def)

theorem forwarded_request_witness:
  "\<exists>p' out. Handler demo_target True (demo_exchange demo_headers (Inr 200)) demo_proxy = (200, False, p') \<and>
     wire p' = [(''http://b:82'', out, Inr 200)] \<and> urlHost out = ''b:82'' \<and>
     headers out ''X-Forwarded-For'' = Some [''10.0.0.9, 2001:db8::1''] \<and> headers out ''Accept'' = Some [''*/*'']"
proof -
  obtain status aborted p' where h: "Handler demo_target True (demo_exchange demo_headers (Inr 200)) demo_proxy = (status, aborted, p')"
    by (metis prod_cases3)
  have "printable (upgradeType demo_headers)" by code_simp
  moreover have "end_to_end demo_headers ''Accept''" by code_simp
  moreover have "demo_headers ''Accept'' = Some [''*/*'']" "demo_headers ''X-Forwarded-For'' = Some [''10.0.0.9'']"
    "targetHost (demo_target ''http://b:82'') = ''b:82''" by code_simp+
  moreover have "reliable (demo_exchange demo_headers (Inr 200))" by (rule demo_reliable [of _ _ 0]) simp
  ultimately show ?thesis
    using forwarded_request [OF _ _ h, of "''2001:db8::1''"] h demo_peer by (auto simp: demo_forwards proxied_def)
qed

text \<open>Three requests: one is answered, one cannot be sent, and the response to the third breaks off.\<close>

theorem requests_accounted_witness:
  "\<exists>answers p'. serve_all demo_target [demo_exchange demo_headers (Inr 200), demo_exchange demo_headers (Inl ''refused''),
       (demo_exchange demo_headers (Inr 200))\<lparr>copyFails := True\<rparr>] demo_proxy = (answers, p') \<and>
     length answers = 3 \<and> inflight (met p') = 0 \<and>
     map logStatus (logs p') = map fst (filter (\<lambda>(status, aborted). \<not> aborted) answers) \<and>
     backendErrorsTotal (met p') ''http://b:82'' = tally (\<lambda>(u, out, resp). u = ''http://b:82'' \<and> isl resp) (wire p')"
proof -
  let ?xs = "[demo_exchange demo_headers (Inr 200), demo_exchange demo_headers (Inl ''refused''), (demo_exchange demo_headers (Inr 200))\<lparr>copyFails := True\<rparr>]"
  obtain answers p' where s: "serve_all demo_target ?xs demo_proxy = (answers, p')" by force
  have "\<forall>x \<in> set ?xs. reliable x"
    using demo_reliable [of "Inr 200" _ 0 demo_headers] demo_reliable [of "Inl ''refused''" "''refused''" 0 demo_headers]
    by (simp add: reliable_def)
  from requests_accounted [OF s this] s show ?thesis by (auto simp: demo_forwards(2) newMetrics_def)
qed

text \<open>A client that asks for a WebSocket gets 502 even from a backend that agrees to switch protocols.\<close>

lemma websocket_refused:
  "fst (Handler demo_target True (demo_exchange [''Connection'' \<mapsto> [''Upgrade''], ''Upgrade'' \<mapsto> [''websocket'']] (Inr 101)) demo_proxy) = 502"
proof -
  let ?x = "demo_exchange [''Connection'' \<mapsto> [''Upgrade''], ''Upgrade'' \<mapsto> [''websocket'']] (Inr 101)"
  have "reliable ?x" by (rule demo_reliable) simp
  then show ?thesis
    unfolding Handler_outcome [OF \<open>reliable ?x\<close>] Let_def outcome_def by (simp add: demo_forwards split: option.split)
qed

text \<open>Of several X-Forwarded-For lines only the first is passed on.\<close>

lemma forwarded_for_lost:
  assumes "outgoing u uuid req = Some out" and "headers req ''X-Forwarded-For'' = Some (a # bs)" and "a \<noteq> []"
  shows "headers out ''X-Forwarded-For'' = Some [a @ '', '' @ clientIP (RemoteAddr req)]"
  using outgoing_proxied [OF assms(1)] assms(2,3) by (simp add: proxied_def)

end
