(* ===== verification/Health.thy ===== *)
theory Health
  imports Runtime
begin

text \<open>
  Health checks and what they do to routing: \<^verbatim>\<open>internal/health/http.go\<close> (\<^verbatim>\<open>HTTPChecker.Check\<close>), the loop body of the
  prober of \<^verbatim>\<open>internal/health/checker.go\<close> with the callbacks that the builder passes to it, and a runtime under any
  sequence of requests and checks. The HTTP client is an argument. The theorem relates every response to
  the outcomes of the checks before it.
\<close>

section \<open>The check\<close>

datatype check_error = RequestError string | ClientError string | StatusError nat

record HTTPChecker =
  checkerURL :: string
  checkerPath :: string

definition Check :: "(string \<Rightarrow> string + 'req) \<Rightarrow> ('req \<Rightarrow> string + nat) \<Rightarrow> HTTPChecker \<Rightarrow> check_error option" where
  "Check NewRequest Do h =
    (case NewRequest (checkerURL h @ checkerPath h) of
       Inl err \<Rightarrow> Some (RequestError err)
     | Inr req \<Rightarrow>
         (case Do req of
            Inl err \<Rightarrow> Some (ClientError err)
          | Inr status \<Rightarrow> if status \<noteq> 200 then Some (StatusError status) else None))"

text \<open>The branch of the prober's loop for a tick: \<^verbatim>\<open>onHealthy\<close> or \<^verbatim>\<open>onUnhealthy\<close>.\<close>

definition tick :: "check_error option \<Rightarrow> Backend \<Rightarrow> Backend" where
  "tick err b = (if err = None then SetHealthy True b else SetHealthy False b)"

lemma Check_passes:
  "Check NewRequest Do h = None \<longleftrightarrow> (\<exists>req. NewRequest (checkerURL h @ checkerPath h) = Inr req \<and> Do req = Inr 200)"
  by (auto simp: Check_def split: sum.splits)

section \<open>A runtime under requests and checks\<close>

text \<open>A request with the order in which Go iterates over the routes, or the outcome of a check of the \<open>j\<close>-th backend of
  a service.\<close>

datatype traffic_event = Request "string list" string | Checked string nat "check_error option"

fun handle :: "traffic_event \<Rightarrow> Runtime \<Rightarrow> Runtime" where
  "handle (Request order path) rt = snd (httpHandler order rt path)"
| "handle (Checked name j err) rt =
    (case services rt name of
       None \<Rightarrow> rt
     | Some svc \<Rightarrow>
         (let bs = backends (lb svc)
          in if j < length bs
             then rt\<lparr>services := (services rt)(name \<mapsto> svc\<lparr>lb := (lb svc)\<lparr>backends := bs[j := tick err (bs ! j)]\<rparr>\<rparr>)\<rparr>
             else rt))"

abbreviation handle_all :: "traffic_event list \<Rightarrow> Runtime \<Rightarrow> Runtime" where
  "handle_all es \<equiv> fold handle es"

text \<open>What the checks say of a backend: the last one decides, and a backend is healthy before its first check.\<close>

fun verdict :: "traffic_event \<Rightarrow> string \<Rightarrow> nat \<Rightarrow> bool \<Rightarrow> bool" where
  "verdict (Request order path) name j up = up"
| "verdict (Checked n i err) name j up = (if n = name \<and> i = j then err = None else up)"

definition last_verdict :: "traffic_event list \<Rightarrow> string \<Rightarrow> nat \<Rightarrow> bool" where
  "last_verdict es name j = fold (\<lambda>e. verdict e name j) es True"

lemma last_verdict_simps [simp]:
  "last_verdict [] name j = True"
  "last_verdict (es @ [e]) name j = verdict e name j (last_verdict es name j)"
  by (simp_all add: last_verdict_def)

text \<open>The pool of a service after some events, up to the counter.\<close>

definition pool_after :: "Config \<Rightarrow> traffic_event list \<Rightarrow> ServiceConfig \<Rightarrow> Backend list" where
  "pool_after cfg es svc =
    map (\<lambda>j. (backend_of cfg (Upstreams svc ! j))\<lparr>healthy := last_verdict es (Name svc) j\<rparr>) [0..<length (Upstreams svc)]"

lemma length_pool_after [simp]: "length (pool_after cfg es svc) = length (Upstreams svc)"
  by (simp add: pool_after_def)

lemma pool_after_nth: "j < length (Upstreams svc) \<Longrightarrow>
    pool_after cfg es svc ! j = (backend_of cfg (Upstreams svc ! j))\<lparr>healthy := last_verdict es (Name svc) j\<rparr>"
  by (simp add: pool_after_def)

lemma pool_after_Nil: "pool_after cfg [] svc = map (backend_of cfg) (Upstreams svc)"
  by (intro nth_equalityI) (simp_all add: pool_after_nth backend_of_def)

lemma pool_after_Request: "pool_after cfg (es @ [Request order path]) svc = pool_after cfg es svc"
  by (simp add: pool_after_def)

lemma pool_after_Checked:
  "pool_after cfg (es @ [Checked name j err]) svc =
    (if Name svc = name then (pool_after cfg es svc)[j := tick err (pool_after cfg es svc ! j)] else pool_after cfg es svc)"
proof (intro nth_equalityI)
  show "length (pool_after cfg (es @ [Checked name j err]) svc) =
      length (if Name svc = name then (pool_after cfg es svc)[j := tick err (pool_after cfg es svc ! j)] else pool_after cfg es svc)" by simp
  fix i assume "i < length (pool_after cfg (es @ [Checked name j err]) svc)"
  then show "pool_after cfg (es @ [Checked name j err]) svc ! i =
      (if Name svc = name then (pool_after cfg es svc)[j := tick err (pool_after cfg es svc ! j)] else pool_after cfg es svc) ! i"
    by (auto simp: pool_after_nth nth_list_update tick_def SetHealthy_def)
qed

text \<open>The runtime represents the configuration and the verdicts, and has room for \<open>k\<close> more requests.\<close>

definition represents :: "Config \<Rightarrow> traffic_event list \<Rightarrow> nat \<Rightarrow> Runtime \<Rightarrow> bool" where
  "represents cfg es k rt \<longleftrightarrow> routes (router rt) = (\<lambda>p. map_option Some (configured cfg p)) \<and>
    dom (services rt) = Name ` set (Services cfg) \<and>
    (\<forall>svc \<in> set (Services cfg). \<exists>s. services rt (Name svc) = Some s \<and> backends (lb s) = pool_after cfg es svc \<and> rr_room (lb s) k)"

definition roomy :: "Config \<Rightarrow> nat \<Rightarrow> bool" where
  "roomy cfg k \<longleftrightarrow> (\<forall>svc \<in> set (Services cfg). length (Upstreams svc) < 2 ^ 63 \<and> k * length (Upstreams svc) < 2 ^ 64)"

lemma represents_built:
  assumes "acceptable parse cfg" and "trimmed_names cfg" and "BuildRuntime load Parse cfg g = (Inr rt, g')" and "roomy cfg k"
  shows "represents cfg [] k rt"
proof -
  note svcs = runtime_services [OF assms(1-3)] and distinct = trimmed_names_distinct [OF assms(1,2)]
  have "\<exists>s. services rt (Name svc) = Some s \<and> backends (lb s) = pool_after cfg [] svc \<and> rr_room (lb s) k"
    if svc: "svc \<in> set (Services cfg)" for svc
  proof (intro exI conjI)
    show "services rt (Name svc) = Some (NewService (map (backend_of cfg) (Upstreams svc)))"
      unfolding svcs using svc distinct by (intro map_of_is_SomeI) (auto simp: comp_def)
    have "Upstreams svc \<noteq> []" using assms(1) svc by (auto simp: acceptable_def)
    then show "rr_room (lb (NewService (map (backend_of cfg) (Upstreams svc)))) k"
      using assms(4) svc by (auto simp: roomy_def rr_room_def NewService_def NewRoundRobin_def wf_pool_def unwrapped_def)
  qed (simp_all add: NewService_def NewRoundRobin_def pool_after_Nil)
  then show ?thesis
    using runtime_routes [OF assms(1-3)] by (auto simp: represents_def svcs dom_map_of_conv_image_fst image_image)
qed

text \<open>Updating one service keeps the others.\<close>

lemma represents_update:
  assumes "represents cfg es k rt" and "distinct (map Name (Services cfg))" and "svc \<in> set (Services cfg)"
    and "backends (lb s) = pool_after cfg es' svc" and "rr_room (lb s) k'" and "k' \<le> k"
    and "\<And>x. x \<in> set (Services cfg) \<Longrightarrow> x \<noteq> svc \<Longrightarrow> pool_after cfg es' x = pool_after cfg es x"
  shows "represents cfg es' k' (rt\<lparr>services := (services rt)(Name svc \<mapsto> s)\<rparr>)"
proof -
  have "\<exists>t. ((services rt)(Name svc \<mapsto> s)) (Name x) = Some t \<and> backends (lb t) = pool_after cfg es' x \<and> rr_room (lb t) k'"
    if x: "x \<in> set (Services cfg)" for x
  proof (cases "x = svc")
    case True
    with assms(4,5) show ?thesis by simp
  next
    case False
    with x assms(2,3) have "Name x \<noteq> Name svc" by (auto simp: distinct_map inj_on_def)
    moreover obtain t where "services rt (Name x) = Some t" "backends (lb t) = pool_after cfg es x" "rr_room (lb t) k"
      using assms(1) x by (auto simp: represents_def)
    ultimately show ?thesis using assms(7) [OF x False] rr.room_mono [of "lb t" k k'] assms(6) by simp
  qed
  moreover have "dom ((services rt)(Name svc \<mapsto> s)) = Name ` set (Services cfg)"
    using assms(1,3) by (auto simp: represents_def)
  ultimately show ?thesis using assms(1) by (auto simp: represents_def)
qed

lemma represents_weaken: "represents cfg es k rt \<Longrightarrow> k' \<le> k \<Longrightarrow> represents cfg es k' rt"
  unfolding represents_def by (meson rr.room_mono)

lemma represents_service:
  assumes "represents cfg es k rt" and "services rt name = Some s"
  obtains svc where "svc \<in> set (Services cfg)" and "Name svc = name" and "backends (lb s) = pool_after cfg es svc" and "rr_room (lb s) k"
proof -
  have "name \<in> Name ` set (Services cfg)" using assms by (auto simp: represents_def dom_def)
  then obtain svc where svc: "svc \<in> set (Services cfg)" "Name svc = name" by auto
  with assms that show ?thesis by (fastforce simp: represents_def)
qed

lemma represents_request:
  assumes "represents cfg es (Suc k) rt" and "distinct (map Name (Services cfg))"
  shows "represents cfg (es @ [Request order path]) k (handle (Request order path) rt)"
proof (cases "\<exists>name s. snd (Route order (router rt) path) = Some name \<and> services rt name = Some s")
  case False
  then have "handle (Request order path) rt = rt" by (auto simp: httpHandler_def split: option.splits)
  moreover have "represents cfg (es @ [Request order path]) k rt"
    using represents_weaken [OF assms(1), of k] by (simp add: represents_def pool_after_Request)
  ultimately show ?thesis by simp
next
  case True
  then obtain name s where r: "snd (Route order (router rt) path) = Some name" "services rt name = Some s" by blast
  from represents_service [OF assms(1) r(2)] obtain svc where svc: "svc \<in> set (Services cfg)" "Name svc = name"
    "backends (lb s) = pool_after cfg es svc" "rr_room (lb s) (Suc k)" .
  have h: "handle (Request order path) rt = rt\<lparr>services := (services rt)(Name svc \<mapsto> s\<lparr>lb := snd (Next (lb s))\<rparr>)\<rparr>"
    using r svc(2) by (simp add: httpHandler_def NextBackend_def split_beta Let_def split: option.splits)
  show ?thesis unfolding h
    using svc rr.next_room [OF svc(4)] by (intro represents_update [OF assms svc(1)]) (simp_all add: pool_after_Request)
qed

lemma represents_checked:
  assumes "represents cfg es k rt" and "distinct (map Name (Services cfg))"
  shows "represents cfg (es @ [Checked name j err]) k (handle (Checked name j err) rt)"
proof (cases "services rt name")
  case None
  then have "Name svc \<noteq> name" if "svc \<in> set (Services cfg)" for svc using assms(1) that by (auto simp: represents_def)
  then show ?thesis using assms(1) None by (auto simp: represents_def pool_after_Checked)
next
  case (Some s)
  from represents_service [OF assms(1) Some] obtain svc where svc: "svc \<in> set (Services cfg)" "Name svc = name"
    "backends (lb s) = pool_after cfg es svc" "rr_room (lb s) k" .
  let ?bs = "(pool_after cfg es svc)[j := tick err (pool_after cfg es svc ! j)]"
  have h: "handle (Checked name j err) rt =
      (if j < length (Upstreams svc) then rt\<lparr>services := (services rt)(Name svc \<mapsto> s\<lparr>lb := (lb s)\<lparr>backends := ?bs\<rparr>\<rparr>)\<rparr> else rt)"
    using Some svc(2,3) by (simp add: Let_def)
  have "?bs = pool_after cfg es svc" if "\<not> j < length (Upstreams svc)"
    using that by (intro list_update_beyond) simp
  then have out: "represents cfg (es @ [Checked name j err]) k rt" if "\<not> j < length (Upstreams svc)"
    using that assms svc(1,2) by (auto simp: represents_def pool_after_Checked distinct_map inj_on_def)
  have "represents cfg (es @ [Checked name j err]) k (rt\<lparr>services := (services rt)(Name svc \<mapsto> s\<lparr>lb := (lb s)\<lparr>backends := ?bs\<rparr>\<rparr>)\<rparr>)"
  proof (rule represents_update [OF assms svc(1)])
    show "rr_room (lb (s\<lparr>lb := (lb s)\<lparr>backends := ?bs\<rparr>\<rparr>)) k"
      using svc(3,4) by (simp add: rr_room_def wf_pool_def unwrapped_def)
    show "pool_after cfg (es @ [Checked name j err]) x = pool_after cfg es x" if "x \<in> set (Services cfg)" "x \<noteq> svc" for x
      using that svc(1,2) assms(2) by (auto simp: pool_after_Checked distinct_map inj_on_def)
  qed (simp_all add: pool_after_Checked svc(2))
  with out show ?thesis unfolding h by simp
qed

fun is_request :: "traffic_event \<Rightarrow> bool" where
  "is_request (Request order path) = True"
| "is_request (Checked name j err) = False"

lemma represents_run:
  assumes "represents cfg [] (length (filter is_request es) + k) rt" and "distinct (map Name (Services cfg))"
  shows "represents cfg es k (handle_all es rt)"
  using assms(1)
proof (induction es arbitrary: k rule: rev_induct)
  case (snoc e es)
  show ?case
  proof (cases e)
    case (Request order path)
    with snoc.prems have "represents cfg es (Suc k) (handle_all es rt)" by (intro snoc.IH) simp
    from represents_request [OF this assms(2)] Request show ?thesis by simp
  next
    case (Checked name j err)
    with snoc.prems have "represents cfg es k (handle_all es rt)" by (intro snoc.IH) simp
    from represents_checked [OF this assms(2)] Checked show ?thesis by simp
  qed
qed simp

section \<open>Responses and checks\<close>

text \<open>What a service answers according to the last checks of its backends.\<close>

definition answers_by_checks :: "traffic_event list \<Rightarrow> ServiceConfig \<Rightarrow> response \<Rightarrow> bool" where
  "answers_by_checks es svc r \<longleftrightarrow>
    (if \<exists>j < length (Upstreams svc). last_verdict es (Name svc) j
     then \<exists>j < length (Upstreams svc). last_verdict es (Name svc) j \<and> r = Forwarded (Upstreams svc ! j)
     else r = StatusServiceUnavailable)"

lemma service_answers:
  assumes "backends (lb s) = pool_after cfg es svc" and "rr_room (lb s) (Suc 0)"
  shows "answers_by_checks es svc
    (case NextBackend s of (None, _) \<Rightarrow> StatusServiceUnavailable | (Some j, s') \<Rightarrow> Forwarded (URL (backends (lb s') ! j)))"
proof (cases "fst (Next (lb s))")
  case None
  then have "\<forall>b \<in> set (pool_after cfg es svc). \<not> healthy b" using rr.next_found [of "lb s"] assms by simp
  then have "\<not> last_verdict es (Name svc) j" if "j < length (Upstreams svc)" for j
    using that pool_after_nth [OF that, of cfg es] nth_mem [of j "pool_after cfg es svc"] by force
  then show ?thesis using None by (auto simp: answers_by_checks_def NextBackend_def split_beta Let_def)
next
  case (Some j)
  then have j: "j < length (Upstreams svc)" "last_verdict es (Name svc) j"
    using rr.next_up [of "lb s" j] assms by (auto simp: pool_after_nth)
  have "URL (backends (snd (Next (lb s))) ! j) = Upstreams svc ! j"
    using j(1) assms(1) by (simp add: pool_after_nth backend_of_def)
  then show ?thesis using j Some by (auto simp: answers_by_checks_def NextBackend_def split_beta Let_def)
qed

text \<open>The answer to a request after any sequence of events.\<close>

lemma checks_decide:
  assumes "Validate parse cfg = None" and "trimmed_names cfg" and "BuildRuntime load Parse cfg g = (Inr rt, g')"
    and "roomy cfg (Suc (length (filter is_request es)))" and "enumerates order (routes (router rt))"
  shows "case snd (longest_route (\<lambda>p. map_option Some (configured cfg p)) path) of
      None \<Rightarrow> fst (httpHandler order (handle_all es rt) path) = StatusNotFound
    | Some name \<Rightarrow> \<exists>svc \<in> set (Services cfg). Name svc = name \<and>
        answers_by_checks es svc (fst (httpHandler order (handle_all es rt) path))"
proof -
  note ok = assms(1) [unfolded Validate_acceptable]
  have "represents cfg [] (length (filter is_request es) + 1) rt"
    using represents_built [OF ok assms(2,3,4)] by simp
  from represents_run [OF this trimmed_names_distinct [OF ok assms(2)]]
  have rep: "represents cfg es (Suc 0) (handle_all es rt)" by simp
  then have "routes (router (handle_all es rt)) = routes (router rt)"
    using runtime_routes [OF ok assms(2,3)] by (simp add: represents_def)
  then have "enumerates order (routes (router (handle_all es rt)))" using assms(5) by simp
  from Route_reference [OF this] rep
  have route: "Route order (router (handle_all es rt)) path = longest_route (\<lambda>p. map_option Some (configured cfg p)) path"
    by (simp add: represents_def)
  show ?thesis
  proof (cases "snd (longest_route (\<lambda>p. map_option Some (configured cfg p)) path)")
    case None
    then show ?thesis by (simp add: httpHandler_def route)
  next
    case (Some name)
    then obtain p where "configured cfg p = Some name" using longest_upto_known unfolding longest_route_def by metis
    then obtain svc where svc: "svc \<in> set (Services cfg)" "Name svc = name"
      using ok assms(2) by (force simp: configured_def acceptable_def trimmed_names_def dest!: map_of_SomeD)
    then obtain s where s: "services (handle_all es rt) name = Some s" "backends (lb s) = pool_after cfg es svc" "rr_room (lb s) (Suc 0)"
      using rep by (auto simp: represents_def)
    have "fst (httpHandler order (handle_all es rt) path) =
        (case NextBackend s of (None, _) \<Rightarrow> StatusServiceUnavailable | (Some j, s') \<Rightarrow> Forwarded (URL (backends (lb s') ! j)))"
      by (auto simp: httpHandler_def route Some s(1) split: prod.splits option.splits)
    with service_answers [OF s(2,3)] svc Some show ?thesis by auto
  qed
qed

text \<open>C10. Responses follow the health checks. Let a runtime be built from a validated configuration in which no service
  name has surrounding blanks (with blanks a configured route can be answered 404, see \<open>untrimmed_route_not_found\<close>).
  After any sequence of requests and health checks, one after the other and fewer than wrap the counter of a
  balancer around, a request is answered 404 exactly when no configured route matches; a
  matched request is forwarded to an upstream of the configured service whose last check has passed (or that has
  not been checked yet), and answered 503 exactly when the last check of every upstream of the service failed.\<close>

theorem responses_follow_checks:
  assumes "Validate parse cfg = None" and "trimmed_names cfg" and "BuildRuntime load Parse cfg g = (Inr rt, g')"
    and "roomy cfg (Suc (length (filter is_request es)))" and "enumerates order (routes (router rt))"
  shows "case snd (longest_route (\<lambda>p. map_option Some (configured cfg p)) path) of
      None \<Rightarrow> fst (httpHandler order (handle_all es rt) path) = StatusNotFound
    | Some name \<Rightarrow> \<exists>svc \<in> set (Services cfg). Name svc = name \<and>
        answers_by_checks es svc (fst (httpHandler order (handle_all es rt) path))"
  using checks_decide [OF assms] .

text \<open>Both backends are checked, and the second check fails: the request goes to the first one.\<close>

theorem responses_follow_checks_witness:
  "fst (httpHandler [''/api''] (handle_all [Checked ''api'' 0 None, Checked ''api'' 1 (Some (StatusError 500))] (demo_runtime ''api'' ''api'')) ''/api'') =
     Forwarded ''http://a:81''"
proof -
  let ?es = "[Checked ''api'' 0 None, Checked ''api'' 1 (Some (StatusError 500))]"
  have "Validate demo_parser (demo_config ''api'' ''api'') = None" "trimmed_names (demo_config ''api'' ''api'')" by code_simp+
  moreover have "roomy (demo_config ''api'' ''api'') (Suc (length (filter is_request ?es)))"
    by (simp add: roomy_def demo_config_def)
  moreover have "enumerates [''/api''] (routes (router (demo_runtime ''api'' ''api'')))"
    by (simp add: enumerates_def BuildRuntime_def demo_config_def demo_parser_def NewBackend_def Let_def AddRoute_def NewRouter_def)
  moreover have "snd (longest_route (\<lambda>p. map_option Some (configured (demo_config ''api'' ''api'') p)) ''/api'') = Some ''api''"
    by code_simp
  moreover define r where
    "r = fst (httpHandler [''/api''] (handle_all ?es (demo_runtime ''api'' ''api'')) ''/api'')"
  ultimately have "\<exists>svc \<in> set (Services (demo_config ''api'' ''api'')). Name svc = ''api'' \<and> answers_by_checks ?es svc r"
    using responses_follow_checks [OF _ _ demo_build [of "''api''" "''api''"], of demo_parser ?es "[''/api'']" "''/api''"] by simp
  then have "answers_by_checks ?es \<lparr>Name = ''api'', Upstreams = [''http://a:81'', ''http://b:82'']\<rparr> r"
    by (simp add: demo_config_def)
  then have "r = Forwarded ''http://a:81''"
    by (auto simp: answers_by_checks_def last_verdict_def less_Suc_eq numeral_2_eq_2 split: if_splits)
  then show ?thesis by (simp only: r_def)
qed

end
