(* ===== verification/Manager.thy ===== *)
theory Manager
  imports Runtime Observability
begin

text \<open>
  The reload manager, \<^verbatim>\<open>internal/reload/manager.go\<close>, with the metrics it records: read the
  configuration file, validate it, build a runtime, and hand it to the server. Here the server is what the
  manager sees of it: whether it runs and its current runtime; the concurrent life cycle is in \<open>Server\<close>.
  The interface \<open>reload_manager\<close> is what the configuration watcher relies on, the Go interface \<^verbatim>\<open>ReloadManager\<close>.
\<close>

section \<open>The manager\<close>

text \<open>The libraries the manager calls with the time that a build takes, and the contents of the configuration file, an
  error when it cannot be read.\<close>

record libraries =
  Unmarshal :: "string \<Rightarrow> string + Config"
  ParseRequestURI :: url_parser
  LoadX509KeyPair :: "string \<Rightarrow> string \<Rightarrow> string + string"
  ParseURL :: "string \<Rightarrow> string + unit"
  BuildDuration :: nat

type_synonym contents = "string + string"

datatype reload_error = NoServer | ConfigError config_error | BuildError build_error | ErrServerNotRunning

text \<open>The package variables: the generation counter of \<^verbatim>\<open>internal/runtime\<close> and the metrics.\<close>

record globals =
  nextGeneration :: "64 word"
  recorded :: metrics

record Manager = globals +
  has_server :: bool
  running :: bool
  runtime :: Runtime

text \<open>What \<^verbatim>\<open>BuildRuntime\<close> records: every backend it creates is healthy at first (\<^verbatim>\<open>SetHealthy\<close>), also when a later one
  cannot be created, and a complete build is timed.\<close>

definition record_build :: "libraries \<Rightarrow> Config \<Rightarrow> build_error + Runtime \<Rightarrow> metrics \<Rightarrow> metrics" where
  "record_build L cfg result m =
    (let created = (if isl (LoadTlsConfig (LoadX509KeyPair L) (Tls cfg)) then []
                    else takeWhile (\<lambda>u. \<not> isl (ParseURL L u)) (concat (map Upstreams (Services cfg))));
         m' = (if EnabledValue (ObservabilityEnabled cfg) then fold (\<lambda>u. SetBackendHealth u True) created m else m)
     in if isl result then m' else ObserveRuntimeBuildDuration (BuildDuration L) m')"

definition buildRuntime :: "libraries \<Rightarrow> contents \<Rightarrow> 'a globals_scheme \<Rightarrow> (reload_error + Runtime) \<times> 'a globals_scheme" where
  "buildRuntime L contents g =
    (case LoadConfig (\<lambda>path. contents) (Unmarshal L) (ParseRequestURI L) [] of
       Inl err \<Rightarrow> (Inl (ConfigError err), g)
     | Inr cfg \<Rightarrow>
         (let (result, n) = BuildRuntime (LoadX509KeyPair L) (ParseURL L) cfg (nextGeneration g);
              g' = g\<lparr>nextGeneration := n, recorded := record_build L cfg result (recorded g)\<rparr>
          in case result of Inl err \<Rightarrow> (Inl (BuildError err), g') | Inr rt \<Rightarrow> (Inr rt, g')))"

text \<open>The first runtime, before there is a server.\<close>

definition BuildInitialRuntime :: "libraries \<Rightarrow> contents \<Rightarrow> globals \<Rightarrow> (reload_error + Runtime) \<times> globals" where
  "BuildInitialRuntime L contents g =
    (case buildRuntime L contents g of
       (Inl err, g') \<Rightarrow> (Inl err, g')
     | (Inr rt, g') \<Rightarrow> (Inr rt, g'\<lparr>recorded := SetRuntimeGeneration (Generation rt) (recorded g')\<rparr>))"

text \<open>A manager on the first runtime, and the server given to it.\<close>

definition NewManager :: "Runtime \<Rightarrow> globals \<Rightarrow> Manager" where
  "NewManager rt g = \<lparr>nextGeneration = nextGeneration g, recorded = recorded g, has_server = False, running = False, runtime = rt\<rparr>"

definition SetServer :: "Manager \<Rightarrow> Manager" where
  "SetServer m = m\<lparr>has_server := True\<rparr>"

text \<open>A failed reload, as the manager and the watcher record it.\<close>

definition record_failure :: "Manager \<Rightarrow> Manager" where
  "record_failure m = m\<lparr>recorded := RecordRuntimeReload False (recorded m)\<rparr>"

text \<open>The server enters or leaves the state in which it accepts reloads.\<close>

definition set_running :: "bool \<Rightarrow> Manager \<Rightarrow> Manager" where
  "set_running b m = m\<lparr>running := b\<rparr>"

text \<open>\<^verbatim>\<open>Manager.Reload\<close>; its call of \<^verbatim>\<open>Server.Reload\<close> swaps the runtime and records the success.\<close>

definition Manager_Reload :: "libraries \<Rightarrow> contents \<Rightarrow> Manager \<Rightarrow> reload_error option \<times> Manager" where
  "Manager_Reload L contents m =
    (if \<not> has_server m then (Some NoServer, m)
     else case buildRuntime L contents m of
       (Inl err, m') \<Rightarrow> (Some err, record_failure m')
     | (Inr rt, m') \<Rightarrow>
         if \<not> running m' then (Some ErrServerNotRunning, record_failure m')
         else (None, m'\<lparr>runtime := rt, recorded := RecordRuntimeReload True (SetRuntimeGeneration (Generation rt) (recorded m'))\<rparr>))"

section \<open>What a reload promises\<close>

text \<open>The interface of the watcher: a reload of good contents makes them current if the manager is attached to a server
  that runs, a reload of bad contents changes nothing that is current, and neither a reload nor the record of a
  failure nor the life of the server does anything else.\<close>

locale reload_manager =
  fixes reload :: "'f \<Rightarrow> 'm \<Rightarrow> 'e option \<times> 'm"
    and failed :: "'m \<Rightarrow> 'm"
    and lifecycle :: "bool \<Rightarrow> 'm \<Rightarrow> 'm"
    and good :: "'f \<Rightarrow> bool"
    and current :: "'f \<Rightarrow> 'm \<Rightarrow> bool"
    and attached :: "'m \<Rightarrow> bool"
    and live :: "'m \<Rightarrow> bool"
  assumes reload_good: "attached m \<Longrightarrow> live m \<Longrightarrow> good f \<Longrightarrow> fst (reload f m) = None \<and> current f (snd (reload f m))"
    and reload_bad: "\<not> good f \<Longrightarrow> fst (reload f m) \<noteq> None \<and> current f' (snd (reload f m)) = current f' m"
    and reload_keeps: "attached (snd (reload f m)) = attached m" "live (snd (reload f m)) = live m"
    and failed_keeps: "current f (failed m) = current f m" "attached (failed m) = attached m" "live (failed m) = live m"
    and lifecycle_keeps: "current f (lifecycle b m) = current f m" "attached (lifecycle b m) = attached m" "live (lifecycle b m) = b"

text \<open>Contents from which a runtime can be built, and the runtime that is built from them.\<close>

definition builds :: "libraries \<Rightarrow> contents \<Rightarrow> Runtime \<Rightarrow> bool" where
  "builds L contents rt \<longleftrightarrow> (\<exists>(g :: globals) g'. buildRuntime L contents g = (Inr rt, g'))"

definition loadable :: "libraries \<Rightarrow> contents \<Rightarrow> bool" where
  "loadable L contents \<longleftrightarrow> (\<exists>rt. builds L contents rt)"

text \<open>Whether a runtime can be built does not depend on the generation counter, and what is built only on it.\<close>

lemma BuildRuntime_generation:
  "isl (fst (BuildRuntime load Parse cfg g)) = isl (fst (BuildRuntime load Parse cfg h))"
  by (auto simp: BuildRuntime_def Let_def split: sum.splits prod.splits)

lemma buildRuntime_result:
  "nextGeneration g = nextGeneration h \<Longrightarrow> fst (buildRuntime L contents g) = fst (buildRuntime L contents h)"
  by (auto simp: buildRuntime_def Let_def split_beta split: sum.splits)

lemma buildRuntime_builds:
  fixes m :: "'a globals_scheme"
  assumes "buildRuntime L contents m = (Inr rt, m')"
  shows "builds L contents rt"
proof -
  let ?g = "\<lparr>nextGeneration = nextGeneration m, recorded = newMetrics\<rparr>"
  have "fst (buildRuntime L contents ?g) = Inr rt" using buildRuntime_result [of ?g m L contents] assms by simp
  then show ?thesis unfolding builds_def by (metis prod.collapse)
qed

lemma buildRuntime_keeps:
  fixes m :: Manager
  shows "runtime (snd (buildRuntime L contents m)) = runtime m" "has_server (snd (buildRuntime L contents m)) = has_server m"
    "running (snd (buildRuntime L contents m)) = running m"
  by (auto simp: buildRuntime_def Let_def split_beta split: sum.splits)

lemma loadable_builds:
  fixes m :: "'a globals_scheme"
  assumes "loadable L contents"
  shows "\<exists>rt m'. buildRuntime L contents m = (Inr rt, m')"
proof -
  from assms obtain rt and g g' :: globals where "buildRuntime L contents g = (Inr rt, g')" by (auto simp: loadable_def builds_def)
  then obtain cfg where cfg: "LoadConfig (\<lambda>path. contents) (Unmarshal L) (ParseRequestURI L) [] = Inr cfg"
    "\<not> isl (fst (BuildRuntime (LoadX509KeyPair L) (ParseURL L) cfg (nextGeneration g)))"
    by (auto simp: buildRuntime_def Let_def split_beta split: sum.splits)
  then have "\<not> isl (fst (BuildRuntime (LoadX509KeyPair L) (ParseURL L) cfg (nextGeneration m)))"
    using BuildRuntime_generation [of "LoadX509KeyPair L" "ParseURL L" cfg "nextGeneration m" "nextGeneration g"] by simp
  then show ?thesis using cfg(1) by (auto simp: buildRuntime_def Let_def split_beta split: sum.splits)
qed

lemma not_loadable:
  fixes m :: "'a globals_scheme"
  assumes "\<not> loadable L contents"
  shows "\<exists>err m'. buildRuntime L contents m = (Inl err, m')"
  using assms buildRuntime_builds [of L contents m] unfolding loadable_def
  by (metis prod.collapse sum.collapse(1,2))

interpretation manager: reload_manager "Manager_Reload L" record_failure set_running "loadable L"
  "\<lambda>contents m. builds L contents (runtime m)" has_server running
proof
  fix m contents other
  note keeps = buildRuntime_keeps [of L contents m]
  show "fst (Manager_Reload L contents m) = None \<and> builds L contents (runtime (snd (Manager_Reload L contents m)))"
    if live: "has_server m" "running m" and ok: "loadable L contents"
  proof -
    from loadable_builds [OF ok] obtain rt m' where b: "buildRuntime L contents m = (Inr rt, m')" by blast
    with b live buildRuntime_builds [OF b] keeps show ?thesis by (simp add: Manager_Reload_def)
  qed
  show "fst (Manager_Reload L contents m) \<noteq> None \<and>
      builds L other (runtime (snd (Manager_Reload L contents m))) = builds L other (runtime m)" if "\<not> loadable L contents"
    using not_loadable [OF that, of m] keeps by (auto simp: Manager_Reload_def record_failure_def)
  show "has_server (snd (Manager_Reload L contents m)) = has_server m" "running (snd (Manager_Reload L contents m)) = running m"
    using keeps by (auto simp: Manager_Reload_def record_failure_def split: prod.splits sum.splits)
qed (simp_all add: record_failure_def set_running_def)

text \<open>A manager that is not live, as while the server starts, rejects every configuration.\<close>

lemma reload_rejected:
  "\<not> running m \<Longrightarrow> fst (Manager_Reload L contents m) \<noteq> None \<and> runtime (snd (Manager_Reload L contents m)) = runtime m"
  using buildRuntime_keeps [of L contents m]
  by (auto simp: Manager_Reload_def record_failure_def split: prod.splits sum.splits)

text \<open>Libraries for the examples: two texts that decode to configurations.\<close>

definition demo_libraries :: libraries where
  "demo_libraries = \<lparr>Unmarshal = (\<lambda>bytes. if bytes = ''two'' then Inr (demo_config ''web'' ''web'') else if bytes = ''one'' then Inr (demo_config ''api'' ''api'') else Inl ''yaml''),
     ParseRequestURI = demo_parser, LoadX509KeyPair = (\<lambda>_ _. Inl []), ParseURL = (\<lambda>u. Inr ()), BuildDuration = 1000\<rparr>"

lemma demo_config_loads:
  "LoadConfig (\<lambda>path. Inr ''one'') (Unmarshal demo_libraries) (ParseRequestURI demo_libraries) [] = Inr (demo_config ''api'' ''api'')"
  "LoadConfig (\<lambda>path. Inr ''two'') (Unmarshal demo_libraries) (ParseRequestURI demo_libraries) [] = Inr (demo_config ''web'' ''web'')"
proof -
  have "Validate demo_parser (demo_config ''api'' ''api'') = None" "Validate demo_parser (demo_config ''web'' ''web'') = None" by code_simp+
  then show "LoadConfig (\<lambda>path. Inr ''one'') (Unmarshal demo_libraries) (ParseRequestURI demo_libraries) [] = Inr (demo_config ''api'' ''api'')"
    "LoadConfig (\<lambda>path. Inr ''two'') (Unmarshal demo_libraries) (ParseRequestURI demo_libraries) [] = Inr (demo_config ''web'' ''web'')"
    by (simp_all add: LoadConfig_def demo_libraries_def) (simp_all add: demo_config_def)
qed

lemma demo_loads:
  "\<exists>rt g'. buildRuntime demo_libraries (Inr ''one'') (g :: globals) = (Inr rt, g')"
  "\<exists>rt g'. buildRuntime demo_libraries (Inr ''two'') (g :: globals) = (Inr rt, g')"
  unfolding buildRuntime_def demo_config_loads
  by (simp_all add: demo_libraries_def BuildRuntime_def demo_config_def NewBackend_def Let_def)

end
