(* ===== verification/Gauge.thy ===== *)
theory Gauge
  imports Health Manager
begin

text \<open>
  The health gauge of the backends: \<^verbatim>\<open>SetHealthy\<close> of \<^verbatim>\<open>internal/upstream/backend.go\<close> with its metric, on a runtime that the manager
  has built, under any sequence of requests and checks.
\<close>

text \<open>The metric that \<^verbatim>\<open>SetHealthy\<close> updates when a check of the prober is over.\<close>

fun observe_check :: "Runtime \<Rightarrow> traffic_event \<Rightarrow> metrics \<Rightarrow> metrics" where
  "observe_check rt (Request order path) m = m"
| "observe_check rt (Checked name j err) m =
    (case services rt name of
       None \<Rightarrow> m
     | Some svc \<Rightarrow>
         (let bs = backends (lb svc)
          in if j < length bs \<and> observabilityEnabled (bs ! j) then SetBackendHealth (URL (bs ! j)) (err = None) m else m))"

definition handle_observed :: "traffic_event \<Rightarrow> Runtime \<times> metrics \<Rightarrow> Runtime \<times> metrics" where
  "handle_observed e p = (handle e (fst p), observe_check (fst p) e (snd p))"

text \<open>No upstream is listed twice, in one service or in two.\<close>

definition unshared :: "Config \<Rightarrow> bool" where
  "unshared cfg \<longleftrightarrow> (\<forall>svc \<in> set (Services cfg). \<forall>svc' \<in> set (Services cfg). \<forall>j < length (Upstreams svc). \<forall>j' < length (Upstreams svc').
    Upstreams svc ! j = Upstreams svc' ! j' \<longrightarrow> svc = svc' \<and> j = j')"

definition gauges :: "Config \<Rightarrow> traffic_event list \<Rightarrow> metrics \<Rightarrow> bool" where
  "gauges cfg es m \<longleftrightarrow> (\<forall>svc \<in> set (Services cfg). \<forall>j < length (Upstreams svc).
    backendUp m (Upstreams svc ! j) = Some (if last_verdict es (Name svc) j then 1 else 0))"

lemma gauges_checked:
  assumes "represents cfg es k rt" and "distinct (map Name (Services cfg))" and "unshared cfg"
    and "EnabledValue (ObservabilityEnabled cfg)" and "gauges cfg es m"
  shows "gauges cfg (es @ [Checked name i err]) (observe_check rt (Checked name i err) m)"
  unfolding gauges_def
proof (intro ballI allI impI)
  fix svc j assume svc: "svc \<in> set (Services cfg)" and j: "j < length (Upstreams svc)"
  have old: "backendUp m (Upstreams svc ! j) = Some (if last_verdict es (Name svc) j then 1 else 0)"
    using assms(5) svc j by (auto simp: gauges_def)
  show "backendUp (observe_check rt (Checked name i err) m) (Upstreams svc ! j) =
      Some (if last_verdict (es @ [Checked name i err]) (Name svc) j then 1 else 0)"
  proof (cases "services rt name")
    case None
    then have "Name svc \<noteq> name" using assms(1) svc by (auto simp: represents_def)
    with None old show ?thesis by auto
  next
    case (Some s)
    from represents_service [OF assms(1) Some] obtain c where c: "c \<in> set (Services cfg)" "Name c = name" "backends (lb s) = pool_after cfg es c" .
    have same: "c = svc \<longleftrightarrow> Name svc = name" using c svc assms(2) by (auto simp: distinct_map inj_on_def)
    have url: "URL (pool_after cfg es c ! i) = Upstreams c ! i" "observabilityEnabled (pool_after cfg es c ! i)" if "i < length (Upstreams c)"
      using that assms(4) by (simp_all add: pool_after_nth backend_of_def)
    have obs: "observe_check rt (Checked name i err) m =
        (if i < length (Upstreams c) then SetBackendHealth (Upstreams c ! i) (err = None) m else m)"
      using Some c(3) url by (simp add: Let_def)
    show ?thesis
    proof (cases "c = svc \<and> i = j")
      case True
      with j same show ?thesis unfolding obs by (simp add: SetBackendHealth_def)
    next
      case False
      then have "Upstreams c ! i \<noteq> Upstreams svc ! j" if "i < length (Upstreams c)"
        using assms(3) c(1) svc j that by (auto simp: unshared_def)
      with False same old show ?thesis unfolding obs by (auto simp: SetBackendHealth_def)
    qed
  qed
qed

lemma gauges_run:
  assumes "represents cfg [] (length (filter is_request es)) rt" and "distinct (map Name (Services cfg))" and "unshared cfg"
    and "EnabledValue (ObservabilityEnabled cfg)" and "gauges cfg [] m"
  shows "fst (fold handle_observed es (rt, m)) = handle_all es rt \<and> gauges cfg es (snd (fold handle_observed es (rt, m)))"
  using assms(1)
proof (induction es rule: rev_induct)
  case Nil
  then show ?case using assms(5) by simp
next
  case (snoc e es)
  have "represents cfg [] (length (filter is_request es)) rt" using snoc.prems represents_weaken by (cases e) auto
  from snoc.IH [OF this] represents_run [of cfg es 0, OF _ assms(2)] this
  have IH: "fst (fold handle_observed es (rt, m)) = handle_all es rt" "gauges cfg es (snd (fold handle_observed es (rt, m)))"
    and rep: "represents cfg es 0 (handle_all es rt)" by simp_all
  show ?case
  proof (cases e)
    case (Request order path)
    with IH show ?thesis by (simp add: handle_observed_def [of "Request order path"] gauges_def)
  next
    case (Checked name j err)
    with IH gauges_checked [OF rep assms(2-4) IH(2)] show ?thesis by (simp add: handle_observed_def [of "Checked name j err"])
  qed
qed

lemma fold_SetBackendHealth:
  "backendUp (fold (\<lambda>u. SetBackendHealth u True) us m) u = (if u \<in> set us then Some 1 else backendUp m u)"
  by (induction us arbitrary: m) (auto simp: SetBackendHealth_def)

text \<open>What a successful build records: every upstream is up.\<close>

lemma build_backends_parsed: "build_backends Parse cfg name us bs ps = Inr r \<Longrightarrow> u \<in> set us \<Longrightarrow> \<not> isl (Parse u)"
  by (induction us arbitrary: bs ps) (auto simp: NewBackend_def split: sum.splits)

lemma build_services_parsed:
  "build_services Parse cfg svcs m ps = Inr r \<Longrightarrow> svc \<in> set svcs \<Longrightarrow> u \<in> set (Upstreams svc) \<Longrightarrow> \<not> isl (Parse u)"
  by (induction svcs arbitrary: m ps) (auto split: sum.splits prod.splits dest: build_backends_parsed)

lemma record_build_up:
  assumes "BuildRuntime (LoadX509KeyPair L) (ParseURL L) cfg g = (Inr rt, g')" and "EnabledValue (ObservabilityEnabled cfg)"
  shows "gauges cfg [] (record_build L cfg (Inr rt) m)"
proof -
  let ?us = "concat (map Upstreams (Services cfg))"
  obtain tls r where b: "LoadTlsConfig (LoadX509KeyPair L) (Tls cfg) = Inr tls" "build_services (ParseURL L) cfg (Services cfg) Map.empty [] = Inr r"
    using assms(1) by (auto simp: BuildRuntime_def Let_def split: sum.splits)
  have all: "takeWhile (\<lambda>u. \<not> isl (ParseURL L u)) ?us = ?us" using build_services_parsed [OF b(2)] by (auto simp: takeWhile_eq_all_conv)
  have "record_build L cfg (Inr rt) m = ObserveRuntimeBuildDuration (BuildDuration L) (fold (\<lambda>u. SetBackendHealth u True) ?us m)"
    unfolding record_build_def b(1) Let_def sum.disc if_True if_False all using assms(2) by simp
  then show ?thesis by (auto simp: gauges_def ObserveRuntimeBuildDuration_def fold_SetBackendHealth)
qed

text \<open>C20. The health gauge tells the truth. Let the manager build a runtime from a configuration that enables
  observability, in which no service name has surrounding blanks and no upstream is listed twice. Then after any
  sequence of requests and checks, one after the other and fewer than wrap the counter of a balancer around, the
  gauge of every upstream is 1 or 0 as the last check of this upstream said, and 1 before the first check, and so
  is the health flag by which the balancer chooses. (The gauge of an upstream that two services share is
  that of the check that came last, of whichever service.)\<close>

theorem gauge_follows_checks:
  assumes "LoadConfig (\<lambda>path. contents) (Unmarshal L) (ParseRequestURI L) [] = Inr cfg"
    and "buildRuntime L contents (g :: globals) = (Inr rt, g')"
    and "EnabledValue (ObservabilityEnabled cfg)" and "trimmed_names cfg" and "unshared cfg" and "roomy cfg (length (filter is_request es))"
    and "fold handle_observed es (rt, recorded g') = (rt', m')" and "svc \<in> set (Services cfg)" and "j < length (Upstreams svc)"
  shows "backendUp m' (Upstreams svc ! j) = Some (if last_verdict es (Name svc) j then 1 else 0) \<and>
    (\<exists>s. services rt' (Name svc) = Some s \<and> healthy (backends (lb s) ! j) = last_verdict es (Name svc) j)"
proof -
  have ok: "acceptable (ParseRequestURI L) cfg"
    using assms(1) by (auto simp: LoadConfig_def Validate_acceptable split: sum.splits if_splits option.splits)
  obtain n where build: "BuildRuntime (LoadX509KeyPair L) (ParseURL L) cfg (nextGeneration g) = (Inr rt, n)"
      "recorded g' = record_build L cfg (Inr rt) (recorded g)"
    using assms(1,2) by (auto simp: buildRuntime_def Let_def split: prod.splits sum.splits)
  have rep: "represents cfg [] (length (filter is_request es)) rt" using represents_built [OF ok assms(4) build(1) assms(6)] .
  note names = trimmed_names_distinct [OF ok assms(4)]
  have "gauges cfg [] (recorded g')" using record_build_up [OF build(1) assms(3)] build(2) by simp
  from gauges_run [OF rep names assms(5,3) this] assms(7) have "rt' = handle_all es rt" "gauges cfg es m'" by simp_all
  moreover have "represents cfg es 0 (handle_all es rt)" using represents_run [of cfg es 0, OF _ names] rep by simp
  ultimately show ?thesis using assms(8,9) by (fastforce simp: gauges_def represents_def pool_after_nth)
qed

text \<open>Three checks: the first upstream fails and recovers, the second fails.\<close>

theorem gauge_follows_checks_witness:
  "\<exists>rt g'. buildRuntime demo_libraries (Inr ''one'') \<lparr>nextGeneration = 0, recorded = newMetrics\<rparr> = (Inr rt, g') \<and>
     backendUp (snd (fold handle_observed
       [Checked ''api'' 0 (Some (StatusError 500)), Checked ''api'' 1 (Some (StatusError 500)), Checked ''api'' 0 None]
       (rt, recorded g'))) ''http://b:82'' = Some 0"
proof -
  let ?g = "\<lparr>nextGeneration = 0, recorded = newMetrics\<rparr>"
  let ?cfg = "demo_config ''api'' ''api''"
  let ?es = "[Checked ''api'' 0 (Some (StatusError 500)), Checked ''api'' 1 (Some (StatusError 500)), Checked ''api'' 0 None]"
  let ?svc = "\<lparr>Name = ''api'', Upstreams = [''http://a:81'', ''http://b:82'']\<rparr>"
  obtain rt g' where b: "buildRuntime demo_libraries (Inr ''one'') ?g = (Inr rt, g')" using demo_loads(1) by blast
  obtain rt' m' where r: "fold handle_observed ?es (rt, recorded g') = (rt', m')" by force
  have "EnabledValue (ObservabilityEnabled ?cfg)" "trimmed_names ?cfg" by code_simp+
  moreover have "unshared ?cfg" by (auto simp: unshared_def demo_config_def less_Suc_eq numeral_2_eq_2)
  moreover have "roomy ?cfg (length (filter is_request ?es))" "?svc \<in> set (Services ?cfg)" by (simp_all add: roomy_def demo_config_def)
  ultimately have "backendUp m' (Upstreams ?svc ! 1) = Some (if last_verdict ?es (Name ?svc) 1 then 1 else 0)"
    using gauge_follows_checks [OF demo_config_loads(1) b _ _ _ _ r, of ?svc 1] by simp
  with b r show ?thesis by (auto simp: last_verdict_def)
qed

end
