(* ===== verification/Watcher.thy ===== *)
theory Watcher
  imports Manager
begin

text \<open>
  The configuration watcher, \<^verbatim>\<open>internal/configwatcher/watcher.go\<close>: the loop of \<^verbatim>\<open>Start\<close> over file-system events, the
  debounce timer, watcher errors and the cancellation of its context. Times are milliseconds. The contents of
  the file are part of the world, because a reload reads them when the timer fires; the file changes in steps
  of their own, and a notification may come later. So does the server: it starts and stops at any time, and
  rejects reloads while it does not run. \<^verbatim>\<open>filepath.Abs\<close> is an argument. The loop is a function of the
  reload operation; what it achieves is proved against the interface \<open>reload_manager\<close>.
\<close>

datatype fs_op = Create | Write | Remove | Rename | Chmod

datatype 'f watch_event =
    Edit 'f
  | ServerRuns bool
  | FileEvent nat string "fs_op set"
  | TimerFires nat
  | WatchError
  | ChannelClosed
  | ContextDone

record ('f, 'm) world =
  contents_of :: 'f
  debounceC :: "nat option"
  mgr :: 'm
  returned :: bool

text \<open>\<^verbatim>\<open>Start\<close> before the loop: it returns the error of \<^verbatim>\<open>fsnotify.NewWatcher\<close>, of \<^verbatim>\<open>filepath.Abs\<close> or of adding the directory
  of the file to the watched ones, and else goes on with the absolute path.\<close>

definition start_watcher :: "string option \<Rightarrow> (string \<Rightarrow> string + string) \<Rightarrow> (string \<Rightarrow> string) \<Rightarrow> (string \<Rightarrow> string option) \<Rightarrow> string \<Rightarrow> string + string" where
  "start_watcher newWatcherErr Abs Dir Add path =
    (case newWatcherErr of
       Some err \<Rightarrow> Inl err
     | None \<Rightarrow>
         (case Abs path of
            Inl err \<Rightarrow> Inl err
          | Inr configPath \<Rightarrow> (case Add (Dir path) of Some err \<Rightarrow> Inl err | None \<Rightarrow> Inr configPath)))"

definition relevant :: "(string \<Rightarrow> string + string) \<Rightarrow> string \<Rightarrow> string \<Rightarrow> fs_op set \<Rightarrow> bool" where
  "relevant Abs configPath name op \<longleftrightarrow>
    (case Abs name of
       Inl err \<Rightarrow> False
     | Inr eventPath \<Rightarrow> eventPath = configPath \<and> op \<inter> {Write, Create, Rename} \<noteq> {})"

text \<open>One round of the loop. A timer whose channel has been replaced is not received from; \<open>TimerFires now\<close> stands for
  the time reaching \<open>now\<close>, and is received when the current timer is due.\<close>

fun watch :: "(string \<Rightarrow> string + string) \<Rightarrow> string \<Rightarrow> ('f \<Rightarrow> 'm \<Rightarrow> 'e option \<times> 'm) \<Rightarrow> ('m \<Rightarrow> 'm) \<Rightarrow> (bool \<Rightarrow> 'm \<Rightarrow> 'm) \<Rightarrow> 'f watch_event \<Rightarrow> ('f, 'm) world \<Rightarrow> ('f, 'm) world" where
  "watch Abs configPath reload failed lifecycle (Edit f) w = w\<lparr>contents_of := f\<rparr>"
| "watch Abs configPath reload failed lifecycle (ServerRuns b) w = w\<lparr>mgr := lifecycle b (mgr w)\<rparr>"
| "watch Abs configPath reload failed lifecycle (FileEvent now name op) w =
    (if returned w \<or> \<not> relevant Abs configPath name op then w else w\<lparr>debounceC := Some (now + 250)\<rparr>)"
| "watch Abs configPath reload failed lifecycle (TimerFires now) w =
    (case debounceC w of
       None \<Rightarrow> w
     | Some due \<Rightarrow>
         if returned w \<or> now < due then w
         else let (err, m) = reload (contents_of w) (mgr w)
              in w\<lparr>debounceC := None, mgr := (if err = None then m else failed m)\<rparr>)"
| "watch Abs configPath reload failed lifecycle WatchError w = w"
| "watch Abs configPath reload failed lifecycle ChannelClosed w = w\<lparr>returned := True\<rparr>"
| "watch Abs configPath reload failed lifecycle ContextDone w = w\<lparr>returned := True, debounceC := None\<rparr>"

abbreviation watch_all :: "(string \<Rightarrow> string + string) \<Rightarrow> string \<Rightarrow> ('f \<Rightarrow> 'm \<Rightarrow> 'e option \<times> 'm) \<Rightarrow> ('m \<Rightarrow> 'm) \<Rightarrow> (bool \<Rightarrow> 'm \<Rightarrow> 'm) \<Rightarrow> 'f watch_event list \<Rightarrow> ('f, 'm) world \<Rightarrow> ('f, 'm) world" where
  "watch_all Abs configPath reload failed lifecycle es \<equiv> fold (watch Abs configPath reload failed lifecycle) es"

definition watching :: "'f \<Rightarrow> 'm \<Rightarrow> ('f, 'm) world" where
  "watching f m = \<lparr>contents_of = f, debounceC = None, mgr = m, returned = False\<rparr>"

section \<open>What the events say\<close>

text \<open>An edit that no notification has followed yet.\<close>

definition unnoticed :: "(string \<Rightarrow> string + string) \<Rightarrow> string \<Rightarrow> 'f watch_event list \<Rightarrow> bool" where
  "unnoticed Abs configPath es = fold (\<lambda>e b. case e of
      Edit f \<Rightarrow> True
    | FileEvent now name op \<Rightarrow> b \<and> \<not> relevant Abs configPath name op
    | _ \<Rightarrow> b) es False"

text \<open>What the events say of the reloads: whether the server runs, the time of the notification that a reload is still to
  follow, and whether the last reload that was due came while the server did not run.\<close>

definition journal_step :: "(string \<Rightarrow> string + string) \<Rightarrow> string \<Rightarrow> 'f watch_event \<Rightarrow> bool \<times> nat option \<times> bool \<Rightarrow> bool \<times> nat option \<times> bool" where
  "journal_step Abs configPath e = (\<lambda>(runs, notice, missed). case e of
      ServerRuns b \<Rightarrow> (b, notice, missed)
    | FileEvent now name op \<Rightarrow> (runs, if relevant Abs configPath name op then Some now else notice, missed)
    | TimerFires now \<Rightarrow> (case notice of
          None \<Rightarrow> (runs, notice, missed)
        | Some t \<Rightarrow> if now < t + 250 then (runs, notice, missed) else (runs, None, \<not> runs))
    | _ \<Rightarrow> (runs, notice, missed))"

definition journal :: "(string \<Rightarrow> string + string) \<Rightarrow> string \<Rightarrow> bool \<Rightarrow> 'f watch_event list \<Rightarrow> bool \<times> nat option \<times> bool" where
  "journal Abs configPath runs es = fold (journal_step Abs configPath) es (runs, None, False)"

definition missed :: "(string \<Rightarrow> string + string) \<Rightarrow> string \<Rightarrow> bool \<Rightarrow> 'f watch_event list \<Rightarrow> bool" where
  "missed Abs configPath runs es = snd (snd (journal Abs configPath runs es))"

lemma journal_snoc [simp]:
  "journal Abs configPath runs [] = (runs, None, False)"
  "journal Abs configPath runs (es @ [e]) = journal_step Abs configPath e (journal Abs configPath runs es)"
  by (simp_all add: journal_def)

lemma unnoticed_snoc [simp]:
  "\<not> unnoticed Abs configPath []"
  "unnoticed Abs configPath (es @ [e]) = (case e of
      Edit f \<Rightarrow> True
    | FileEvent now name op \<Rightarrow> unnoticed Abs configPath es \<and> \<not> relevant Abs configPath name op
    | _ \<Rightarrow> unnoticed Abs configPath es)"
  by (simp_all add: unnoticed_def split: watch_event.split)

text \<open>The timer is due 250 milliseconds after the last notification: a burst of notifications postpones the reload.\<close>

lemma debounce_due:
  assumes "\<not> returned (watch_all Abs configPath reload failed lifecycle es (watching f m))"
  shows "debounceC (watch_all Abs configPath reload failed lifecycle es (watching f m)) =
    map_option (\<lambda>t. t + 250) (fst (snd (journal Abs configPath runs es)))"
  using assms
proof (induction es rule: rev_induct)
  case Nil
  then show ?case by (simp add: watching_def)
next
  case (snoc e es)
  then show ?case by (cases e) (auto simp: journal_step_def split_beta Let_def split: if_splits option.splits)
qed

context reload_manager
begin

text \<open>At any moment: an edit is unnoticed, or a reload is due, or the last one was rejected by a server that did not run,
  or good contents are current.\<close>

lemma watch_current:
  assumes "attached m" and "good f \<Longrightarrow> current f m" and "\<not> returned (watch_all Abs configPath reload failed lifecycle es (watching f m))"
  defines "w \<equiv> watch_all Abs configPath reload failed lifecycle es (watching f m)"
  shows "attached (mgr w) \<and> live (mgr w) = fst (journal Abs configPath (live m) es) \<and>
    (unnoticed Abs configPath es \<or> debounceC w \<noteq> None \<or> missed Abs configPath (live m) es \<or>
      (good (contents_of w) \<longrightarrow> current (contents_of w) (mgr w)))"
  using assms(3) unfolding w_def
proof (induction es rule: rev_induct)
  case Nil
  then show ?case using assms(1,2) by (simp add: watching_def)
next
  case (snoc e es)
  let ?w = "watch_all Abs configPath reload failed lifecycle es (watching f m)"
  have r: "\<not> returned ?w" using snoc.prems by (cases e) (auto simp: split_beta Let_def split: if_splits option.splits)
  note IH = snoc.IH [OF r] and due = debounce_due [OF r, of "live m"]
  obtain runs notice miss where j: "journal Abs configPath (live m) es = (runs, notice, miss)" by (metis prod_cases3)
  show ?case
  proof (cases e)
    case (TimerFires now)
    then show ?thesis
      using IH due r j failed_keeps reload_keeps reload_good [of "mgr ?w" "contents_of ?w"]
      by (auto simp: missed_def journal_step_def split_beta Let_def split: if_splits option.splits)
  qed (use IH r j snoc.prems lifecycle_keeps in \<open>auto simp: missed_def journal_step_def split: if_splits\<close>)
qed

text \<open>Bad contents never become current, and what is current stays.\<close>

lemma watch_keeps:
  assumes "\<forall>f' \<in> set es'. \<not> good f'" and "\<not> good f" and "\<And>g. Edit g \<in> set es \<Longrightarrow> g \<in> set es'"
  shows "current h (mgr (watch_all Abs configPath reload failed lifecycle es (watching f m))) = current h m"
proof -
  have "(contents_of (watch_all Abs configPath reload failed lifecycle es (watching f m)) = f \<or> contents_of (watch_all Abs configPath reload failed lifecycle es (watching f m)) \<in> set es') \<and>
      current h (mgr (watch_all Abs configPath reload failed lifecycle es (watching f m))) = current h m"
    using assms(3)
  proof (induction es rule: rev_induct)
    case Nil
    then show ?case by (simp add: watching_def)
  next
    case (snoc e es)
    let ?w = "watch_all Abs configPath reload failed lifecycle es (watching f m)"
    have IH: "contents_of ?w = f \<or> contents_of ?w \<in> set es'" "current h (mgr ?w) = current h m" using snoc.IH snoc.prems by auto
    then have "\<not> good (contents_of ?w)" using assms(1,2) by auto
    from reload_bad [OF this, of "mgr ?w" h] IH snoc.prems failed_keeps lifecycle_keeps show ?case
      by (cases e) (auto simp: split_beta Let_def split: option.splits)
  qed
  then show ?thesis by simp
qed

end

section \<open>The watcher and the manager\<close>

text \<open>C9. The watcher keeps up. Let the manager be attached to a server whose runtime has been built from the contents that
  the file has when the watcher starts, and let the file be edited, the watcher be notified, the timer fire and
  the server start and stop in any order. Whenever no edit is left unnoticed, no reload is due, and the last reload
  that was due came while the server ran, then the current runtime is built from the contents of the file,
  provided that one can be built from them: no edit is lost, whatever invalid contents came before. (A reload that
  comes while the server does not run is lost, see \<open>reload_lost\<close>.)\<close>

theorem watcher_keeps_up:
  assumes "has_server m" and "builds L contents (runtime m)"
    and "w = watch_all Abs configPath (Manager_Reload L) record_failure set_running es (watching contents m)"
    and "\<not> returned w" and "\<not> unnoticed Abs configPath es" and "debounceC w = None" and "\<not> missed Abs configPath (running m) es"
    and "loadable L (contents_of w)"
  shows "builds L (contents_of w) (runtime (mgr w))"
  using manager.watch_current [where L = L and m = m and f = contents and Abs = Abs and configPath = configPath and es = es] assms
  by auto

text \<open>An edit to contents that no YAML decoder reads, then one to the second configuration, each notified while
  the server starts; the first notification starts a timer that the second one replaces, and the server runs
  when the second one fires.\<close>

theorem watcher_keeps_up_witness:
  "\<exists>m w. w = watch_all Inr ''torus.yaml'' (Manager_Reload demo_libraries) record_failure set_running
       [Edit (Inr ''?''), FileEvent 1000 ''torus.yaml'' {Write}, Edit (Inr ''two''), FileEvent 1100 ''torus.yaml'' {Write, Chmod}, TimerFires 1250, ServerRuns True, TimerFires 1350]
       (watching (Inr ''one'') m) \<and>
     contents_of w = Inr ''two'' \<and> builds demo_libraries (Inr ''two'') (runtime (mgr w))"
proof -
  let ?g = "\<lparr>nextGeneration = 0, recorded = newMetrics\<rparr>"
  obtain rt g where one: "buildRuntime demo_libraries (Inr ''one'') ?g = (Inr rt, g)" using demo_loads(1) by blast
  define m where "m = SetServer (NewManager rt g)"
  let ?es = "[Edit (Inr ''?''), FileEvent 1000 ''torus.yaml'' {Write}, Edit (Inr ''two''), FileEvent 1100 ''torus.yaml'' {Write, Chmod}, TimerFires 1250, ServerRuns True, TimerFires 1350]"
  define w where "w = watch_all Inr ''torus.yaml'' (Manager_Reload demo_libraries) record_failure set_running ?es (watching (Inr ''one'') m)"
  have m: "has_server m" "builds demo_libraries (Inr ''one'') (runtime m)"
    using buildRuntime_builds [OF one] by (auto simp: m_def SetServer_def NewManager_def)
  have "contents_of w = Inr ''two''" "\<not> returned w" "debounceC w = None"
    by (simp_all add: w_def watching_def relevant_def split_beta Let_def)
  moreover have "\<not> unnoticed Inr ''torus.yaml'' ?es" by (simp add: unnoticed_def relevant_def)
  moreover have "\<not> missed Inr ''torus.yaml'' (running m) ?es" by (simp add: missed_def journal_def journal_step_def relevant_def)
  moreover have "loadable demo_libraries (Inr ''two'')" using demo_loads(2) [of ?g] by (auto simp: loadable_def dest: buildRuntime_builds)
  ultimately have "builds demo_libraries (Inr ''two'') (runtime (mgr w))"
    using watcher_keeps_up [OF m w_def] by simp
  with \<open>contents_of w = Inr ''two''\<close> show ?thesis unfolding w_def by blast
qed

text \<open>A reload that is due while the server starts is rejected, and nothing follows when the server runs.\<close>

lemma reload_lost:
  assumes "\<not> running (mgr w)" and "debounceC w = Some due" and "due \<le> now" and "\<not> returned w"
    and w': "w' = watch_all Abs configPath (Manager_Reload L) record_failure set_running [TimerFires now, ServerRuns True] w"
  shows "running (mgr w') \<and> debounceC w' = None \<and> runtime (mgr w') = runtime (mgr w)"
  using assms reload_rejected [of "mgr w" L "contents_of w"]
  by (auto simp: w' set_running_def record_failure_def split_beta Let_def)

text \<open>A reload that fails is counted twice: by the manager and by the watcher. Building a runtime counts no reload.\<close>

lemma record_build_reloads: "reloadsTotal (record_build L cfg result m) = reloadsTotal m"
proof -
  have "reloadsTotal (fold (\<lambda>u. SetBackendHealth u True) us m) = reloadsTotal m" for us m
    by (induction us arbitrary: m) (simp_all add: SetBackendHealth_def)
  then show ?thesis by (simp add: record_build_def Let_def ObserveRuntimeBuildDuration_def)
qed

lemma buildRuntime_reloads: "reloadsTotal (recorded (snd (buildRuntime L contents m))) = reloadsTotal (recorded m)"
  by (simp add: buildRuntime_def Let_def split_beta record_build_reloads split: sum.split)

lemma failed_reload_recorded_twice:
  assumes "has_server (mgr w)" and "\<not> loadable L (contents_of w)" and "debounceC w = Some due" and "due \<le> now" and "\<not> returned w"
    and w': "w' = watch Abs configPath (Manager_Reload L) record_failure set_running (TimerFires now) w"
  shows "reloadsTotal (recorded (mgr w')) ''failure'' = reloadsTotal (recorded (mgr w)) ''failure'' + 2"
proof -
  obtain err m where b: "buildRuntime L (contents_of w) (mgr w) = (Inl err, m)" using not_loadable [OF assms(2)] by blast
  then show ?thesis using assms(1,3-5) buildRuntime_reloads [of L "contents_of w" "mgr w"]
    by (simp add: w' Manager_Reload_def record_failure_def RecordRuntimeReload_def Inc_apply)
qed

end
