(* ===== verification/Server.thy ===== *)
theory Server
  imports Prelude "HOL-Library.Multiset"
begin

text \<open>
  The life cycle of the proxy: \<^verbatim>\<open>internal/proxy/server.go\<close> (\<^verbatim>\<open>Start\<close>, \<^verbatim>\<open>Shutdown\<close>, \<^verbatim>\<open>Reload\<close> and the part of the handler
  that acquires and releases a runtime), \<^verbatim>\<open>internal/runtime/runtime.go\<close> (the wait groups and \<^verbatim>\<open>Stop\<close>),
  \<^verbatim>\<open>internal/reload/manager.go\<close> and the goroutine of \<^verbatim>\<open>internal/health/checker.go\<close>. The shared state is a record;
  a goroutine is a value of \<open>proc\<close> that says where it is; \<open>proceed\<close> and \<open>fail\<close> give its next atomic action.
  An action is an atomic operation, a critical section of \<^verbatim>\<open>runtimeMu\<close>, or a wait that is over. The critical section
  of \<^verbatim>\<open>Shutdown\<close> that takes the lead is two actions with the mutex held in between, because \<^verbatim>\<open>/readyz\<close> and \<^verbatim>\<open>Start\<close> access the
  two variables it stores without the mutex; the stores of the other sections cannot be told apart from
  outside. A panic inside a section leaves the mutex held. A runtime is a number, in the order in which they
  are built. Of \<^verbatim>\<open>net/http\<close> the model has what the code relies on: once \<^verbatim>\<open>Serve\<close> has been called, requests are
  accepted, also on open connections after \<^verbatim>\<open>Serve\<close> has failed, until \<^verbatim>\<open>http.Server.Shutdown\<close> is called, which refuses new
  requests and returns no error only when no request is active.
\<close>

section \<open>State and goroutines\<close>

datatype serverState = serverStarting | serverRunning | serverShuttingDown | serverStopped

record server =
  current :: nat
  state :: serverState
  ready :: bool
  runtimeMu :: bool
  shutdownErr :: "string option"
  shutdownDone :: bool
  srv :: bool
  serving :: bool
  closed :: bool
  forced :: bool
  active :: nat
  built :: nat
  requestWG :: "nat \<Rightarrow> nat"
  workerWG :: "nat \<Rightarrow> nat"
  cancelled :: "nat \<Rightarrow> bool"

text \<open>What a caller of \<^verbatim>\<open>Stop\<close> does next: \<^verbatim>\<open>Server.Reload\<close> after the swap, \<^verbatim>\<open>Manager.Reload\<close> after a rejection,
  \<^verbatim>\<open>Shutdown\<close>, or \<^verbatim>\<open>Start\<close> after an error.\<close>

datatype caller = AfterReload | AfterReject | AfterShutdown | AfterError string

datatype stop_phase = Cancel | WaitRequests | WaitWorkers

datatype proc =
    Accept | Refused | Acquire | Holding nat | Handled | Served
  | Worker nat | Panicked nat | Respawn nat | Exiting nat | Gone
  | Stopping stop_phase nat caller
  | Install nat | Reloaded nat | Rejected nat | BuildFailed nat
  | Shutdown | Leading | AwaitDone | ReadErr | Owner nat | Draining nat | Forcing nat | Complete "string option"
  | ShutdownReturned "string option" | ShutdownPanicked
  | Start | Listen nat | ListenFailed nat string | Bound | SetRunning | Serve | Serving | ServeFailed string
  | StartReturned "string option"

fun resume :: "caller \<Rightarrow> nat \<Rightarrow> proc" where
  "resume AfterReload rt = Reloaded rt"
| "resume AfterReject rt = Rejected rt"
| "resume AfterShutdown rt = Complete None"
| "resume (AfterError e) rt = StartReturned (Some e)"

text \<open>\<open>forced\<close> says that \<^verbatim>\<open>forceCancel\<close> has cancelled the context of all requests. The readiness endpoint \<^verbatim>\<open>/readyz\<close>:\<close>

definition readyz :: "server \<Rightarrow> nat" where
  "readyz s = (if ready s then 200 else 503)"

section \<open>Actions\<close>

text \<open>The wait groups of a runtime, and the cancellation of its context.\<close>

definition AcquireRequest :: "nat \<Rightarrow> server \<Rightarrow> server" where
  [simp]: "AcquireRequest rt s = s\<lparr>requestWG := (requestWG s)(rt := requestWG s rt + 1)\<rparr>"

definition ReleaseRequest :: "nat \<Rightarrow> server \<Rightarrow> server" where
  [simp]: "ReleaseRequest rt s = s\<lparr>requestWG := (requestWG s)(rt := requestWG s rt - 1)\<rparr>"

definition AddWorker :: "nat \<Rightarrow> server \<Rightarrow> server" where
  [simp]: "AddWorker rt s = s\<lparr>workerWG := (workerWG s)(rt := workerWG s rt + 1)\<rparr>"

definition DoneWorker :: "nat \<Rightarrow> server \<Rightarrow> server" where
  [simp]: "DoneWorker rt s = s\<lparr>workerWG := (workerWG s)(rt := workerWG s rt - 1)\<rparr>"

definition cancel_context :: "nat \<Rightarrow> server \<Rightarrow> server" where
  [simp]: "cancel_context rt s = s\<lparr>cancelled := (cancelled s)(rt := True)\<rparr>"

text \<open>The functions below give the next action of a goroutine when nothing goes wrong: the goroutines that take its
  place and the new state, or \<^const>\<open>None\<close> when it waits or has ended. First a request: \<^verbatim>\<open>net/http\<close> accepts it, the handler
  acquires the current runtime under the read lock, releases it when it returns, and the connection is idle again.\<close>

fun request_action :: "proc \<Rightarrow> server \<Rightarrow> (proc list \<times> server) option" where
  "request_action Accept s =
    (if serving s \<and> \<not> closed s then Some ([Acquire], s\<lparr>active := active s + 1\<rparr>) else Some ([Refused], s))"
| "request_action Acquire s = (if runtimeMu s then None else Some ([Holding (current s)], AcquireRequest (current s) s))"
| "request_action (Holding rt) s = Some ([Handled], ReleaseRequest rt s)"
| "request_action Handled s = Some ([Served], s\<lparr>active := active s - 1\<rparr>)"
| "request_action p s = None"

text \<open>The goroutine of \<^verbatim>\<open>StartProber\<close>: it runs until its context is cancelled; after a panic it waits and starts another
  prober, which is registered before this one is unregistered, unless the context is cancelled.\<close>

fun prober_action :: "proc \<Rightarrow> server \<Rightarrow> (proc list \<times> server) option" where
  "prober_action (Worker rt) s = (if cancelled s rt then Some ([Exiting rt], s) else None)"
| "prober_action (Panicked rt) s = (if cancelled s rt then Some ([Exiting rt], s) else Some ([Respawn rt], s))"
| "prober_action (Respawn rt) s = Some ([Exiting rt, Worker rt], AddWorker rt s)"
| "prober_action (Exiting rt) s = Some ([Gone], DoneWorker rt s)"
| "prober_action p s = None"

text \<open>\<^verbatim>\<open>Runtime.Stop\<close>.\<close>

fun stop_action :: "stop_phase \<Rightarrow> nat \<Rightarrow> caller \<Rightarrow> server \<Rightarrow> (proc list \<times> server) option" where
  "stop_action Cancel rt k s = Some ([Stopping WaitRequests rt k], cancel_context rt s)"
| "stop_action WaitRequests rt k s = (if requestWG s rt = 0 then Some ([Stopping WaitWorkers rt k], s) else None)"
| "stop_action WaitWorkers rt k s = (if workerWG s rt = 0 then Some ([resume k rt], s) else None)"

text \<open>\<^verbatim>\<open>Server.Reload\<close> on a new runtime: rejected unless the server runs, in which case the manager stops the new runtime.\<close>

definition Reload :: "nat \<Rightarrow> server \<Rightarrow> (proc list \<times> server) option" where
  [simp]: "Reload rt s =
    (if runtimeMu s then None
     else if state s \<noteq> serverRunning then Some ([Stopping Cancel rt AfterReject], s)
     else Some ([Stopping Cancel (current s) AfterReload], s\<lparr>current := rt\<rparr>))"

text \<open>\<^verbatim>\<open>Server.Shutdown\<close>.\<close>

fun shutdown_action :: "proc \<Rightarrow> server \<Rightarrow> (proc list \<times> server) option" where
  "shutdown_action Shutdown s =
    (if runtimeMu s then None
     else case state s of
       serverStopped \<Rightarrow> Some ([ShutdownReturned (shutdownErr s)], s)
     | serverShuttingDown \<Rightarrow> Some ([AwaitDone], s)
     | _ \<Rightarrow> Some ([Leading], s\<lparr>runtimeMu := True, state := serverShuttingDown\<rparr>))"
| "shutdown_action Leading s = Some ([Owner (current s)], s\<lparr>ready := False, runtimeMu := False\<rparr>)"
| "shutdown_action AwaitDone s = (if shutdownDone s then Some ([ReadErr], s) else None)"
| "shutdown_action ReadErr s = (if runtimeMu s then None else Some ([ShutdownReturned (shutdownErr s)], s))"
| "shutdown_action (Owner rt) s =
    (if srv s then Some ([Draining rt], s\<lparr>closed := True\<rparr>) else Some ([Stopping Cancel rt AfterShutdown], s))"
| "shutdown_action (Draining rt) s = (if active s = 0 then Some ([Stopping Cancel rt AfterShutdown], s) else None)"
| "shutdown_action (Forcing rt) s = (if active s = 0 then Some ([Stopping Cancel rt AfterShutdown], s) else None)"
| "shutdown_action (Complete err) s =
    (let s' = s\<lparr>shutdownErr := err, state := (if err = None then serverStopped else state s)\<rparr>
     in if runtimeMu s then None
        else if shutdownDone s then Some ([ShutdownPanicked], s'\<lparr>runtimeMu := True\<rparr>)
        else Some ([ShutdownReturned err], s'\<lparr>shutdownDone := True\<rparr>))"
| "shutdown_action p s = None"

text \<open>\<^verbatim>\<open>Server.Start\<close>.\<close>

fun start_action :: "proc \<Rightarrow> server \<Rightarrow> (proc list \<times> server) option" where
  "start_action Start s = Some ([Listen (current s)], s\<lparr>srv := True\<rparr>)"
| "start_action (Listen rt) s = Some ([Bound], s)"
| "start_action (ListenFailed rt e) s = Some ([Stopping Cancel rt (AfterError e)], s\<lparr>state := serverStopped, forced := True\<rparr>)"
| "start_action Bound s = Some ([SetRunning], s\<lparr>ready := True\<rparr>)"
| "start_action SetRunning s = Some ([Serve], s\<lparr>state := serverRunning\<rparr>)"
| "start_action Serve s = (if closed s then Some ([StartReturned None], s) else Some ([Serving], s\<lparr>serving := True\<rparr>))"
| "start_action Serving s = (if closed s then Some ([StartReturned None], s\<lparr>serving := False\<rparr>) else None)"
| "start_action (ServeFailed e) s =
    (if runtimeMu s then None
     else if state s = serverRunning
     then Some ([Stopping Cancel (current s) (AfterError e)], s\<lparr>ready := False, state := serverStopped, forced := True\<rparr>)
     else Some ([StartReturned (Some e)], s))"
| "start_action p s = None"

text \<open>Any goroutine.\<close>

fun proceed :: "proc \<Rightarrow> server \<Rightarrow> (proc list \<times> server) option" where
  "proceed Accept s = request_action Accept s"
| "proceed Acquire s = request_action Acquire s"
| "proceed (Holding rt) s = request_action (Holding rt) s"
| "proceed Handled s = request_action Handled s"
| "proceed (Worker rt) s = prober_action (Worker rt) s"
| "proceed (Panicked rt) s = prober_action (Panicked rt) s"
| "proceed (Respawn rt) s = prober_action (Respawn rt) s"
| "proceed (Exiting rt) s = prober_action (Exiting rt) s"
| "proceed (Stopping Cancel rt k) s = stop_action Cancel rt k s"
| "proceed (Stopping WaitRequests rt k) s = stop_action WaitRequests rt k s"
| "proceed (Stopping WaitWorkers rt k) s = stop_action WaitWorkers rt k s"
| "proceed (Install rt) s = Reload rt s"
| "proceed Shutdown s = shutdown_action Shutdown s"
| "proceed Leading s = shutdown_action Leading s"
| "proceed AwaitDone s = shutdown_action AwaitDone s"
| "proceed ReadErr s = shutdown_action ReadErr s"
| "proceed (Owner rt) s = shutdown_action (Owner rt) s"
| "proceed (Draining rt) s = shutdown_action (Draining rt) s"
| "proceed (Forcing rt) s = shutdown_action (Forcing rt) s"
| "proceed (Complete err) s = shutdown_action (Complete err) s"
| "proceed Start s = start_action Start s"
| "proceed (Listen rt) s = start_action (Listen rt) s"
| "proceed (ListenFailed rt e) s = start_action (ListenFailed rt e) s"
| "proceed Bound s = start_action Bound s"
| "proceed SetRunning s = start_action SetRunning s"
| "proceed Serve s = start_action Serve s"
| "proceed Serving s = start_action Serving s"
| "proceed (ServeFailed e) s = start_action (ServeFailed e) s"
| "proceed p s = None"

text \<open>The next action when it goes wrong: a prober panics, or panics again while it recovers; the listener cannot be
  opened, or \<^verbatim>\<open>Serve\<close> fails; the deadline of the first or the second \<^verbatim>\<open>http.Server.Shutdown\<close> expires.\<close>

fun prober_fault :: "proc \<Rightarrow> server \<Rightarrow> (proc list \<times> server) option" where
  "prober_fault (Worker rt) s = Some ([Panicked rt], s)"
| "prober_fault (Panicked rt) s = Some ([Exiting rt], s)"
| "prober_fault p s = None"

fun start_fault :: "string \<Rightarrow> proc \<Rightarrow> server \<Rightarrow> (proc list \<times> server) option" where
  "start_fault e (Listen rt) s = Some ([ListenFailed rt e], s\<lparr>ready := False\<rparr>)"
| "start_fault e Serving s = (if closed s then None else Some ([ServeFailed e], s))"
| "start_fault e p s = None"

fun shutdown_fault :: "string \<Rightarrow> proc \<Rightarrow> server \<Rightarrow> (proc list \<times> server) option" where
  "shutdown_fault e (Draining rt) s = Some ([Forcing rt], s\<lparr>forced := True\<rparr>)"
| "shutdown_fault e (Forcing rt) s = Some ([Complete (Some e)], s)"
| "shutdown_fault e p s = None"

fun fail :: "string \<Rightarrow> proc \<Rightarrow> server \<Rightarrow> (proc list \<times> server) option" where
  "fail e (Worker rt) s = prober_fault (Worker rt) s"
| "fail e (Panicked rt) s = prober_fault (Panicked rt) s"
| "fail e (Listen rt) s = start_fault e (Listen rt) s"
| "fail e Serving s = start_fault e Serving s"
| "fail e (Draining rt) s = shutdown_fault e (Draining rt) s"
| "fail e (Forcing rt) s = shutdown_fault e (Forcing rt) s"
| "fail e p s = None"

definition acts :: "proc \<Rightarrow> server \<Rightarrow> proc list \<Rightarrow> server \<Rightarrow> bool" where
  "acts p s ps s' \<longleftrightarrow> proceed p s = Some (ps, s') \<or> (\<exists>e. fail e p s = Some (ps, s'))"

text \<open>\<^verbatim>\<open>NewServer\<close> on the first runtime, whose \<open>n\<close> probers run.\<close>

definition NewServer :: "nat \<Rightarrow> server" where
  "NewServer n = \<lparr>current = 0, state = serverStarting, ready = False, runtimeMu = False, shutdownErr = None, shutdownDone = False, srv = False,
     serving = False, closed = False, forced = False, active = 0, built = 1, requestWG = (\<lambda>_. 0), workerWG = (\<lambda>_. 0)(0 := n), cancelled = (\<lambda>_. False)\<rparr>"

text \<open>The manager builds a runtime with \<open>n\<close> probers. When a later backend cannot be created, the runtime is
  cancelled with the probers that run already.\<close>

definition build_runtime :: "nat \<Rightarrow> bool \<Rightarrow> server \<Rightarrow> server" where
  "build_runtime n failed s = s\<lparr>built := built s + 1, requestWG := (requestWG s)(built s := 0),
     workerWG := (workerWG s)(built s := n), cancelled := (cancelled s)(built s := failed)\<rparr>"

type_synonym system = "server \<times> proc multiset"

text \<open>One step of the system: an action of a goroutine, or the arrival of a request, of a reload or of a call of
  \<^verbatim>\<open>Shutdown\<close>. The flag allows such a call while the server is starting.\<close>

inductive sys_step :: "bool \<Rightarrow> system \<Rightarrow> system \<Rightarrow> bool" for early :: bool where
  act: "acts p s ps s' \<Longrightarrow> sys_step early (s, add_mset p M) (s', mset ps + M)"
| request: "sys_step early (s, M) (s, add_mset Accept M)"
| shutdown: "early \<or> state s \<noteq> serverStarting \<Longrightarrow> sys_step early (s, M) (s, add_mset Shutdown M)"
| reload: "sys_step early (s, M) (build_runtime n False s, add_mset (Install (built s)) (replicate_mset n (Worker (built s)) + M))"
| reload_fails: "sys_step early (s, M) (build_runtime n True s, add_mset (BuildFailed (built s)) (replicate_mset n (Worker (built s)) + M))"

definition init :: "nat \<Rightarrow> system" where
  "init n = (NewServer n, add_mset Start (replicate_mset n (Worker 0)))"

definition reachable :: "bool \<Rightarrow> system \<Rightarrow> bool" where
  "reachable early c \<longleftrightarrow> (\<exists>n. (sys_step early)\<^sup>*\<^sup>* (init n) c)"

lemma reachable_init: "reachable early (init n)"
  by (auto simp: reachable_def)

lemma reachable_step: "reachable early c \<Longrightarrow> sys_step early c d \<Longrightarrow> reachable early d"
  unfolding reachable_def by (meson rtranclp.rtrancl_into_rtrancl)

lemma reachable_induct [consumes 1, case_names init step]:
  assumes "reachable early c" and "\<And>n. P (init n)"
    and "\<And>c d. reachable early c \<Longrightarrow> P c \<Longrightarrow> sys_step early c d \<Longrightarrow> P d"
  shows "P c"
proof -
  obtain n where "(sys_step early)\<^sup>*\<^sup>* (init n) c" using assms(1) by (auto simp: reachable_def)
  then show ?thesis
  proof (induction rule: rtranclp_induct)
    case base
    show ?case by (rule assms(2))
  next
    case (step c d)
    moreover have "reachable early c" using step.hyps(1) by (auto simp: reachable_def)
    ultimately show ?case using assms(3) by blast
  qed
qed

lemma actsE:
  assumes "acts p s ps s'"
  obtains "proceed p s = Some (ps, s')" | e where "fail e p s = Some (ps, s')"
  using assms by (auto simp: acts_def)

section \<open>Identifiers\<close>

fun rt_of :: "proc \<Rightarrow> nat option" where
  "rt_of (Holding rt) = Some rt"
| "rt_of (Worker rt) = Some rt"
| "rt_of (Panicked rt) = Some rt"
| "rt_of (Respawn rt) = Some rt"
| "rt_of (Exiting rt) = Some rt"
| "rt_of (Stopping ph rt k) = Some rt"
| "rt_of (Install rt) = Some rt"
| "rt_of (Reloaded rt) = Some rt"
| "rt_of (Rejected rt) = Some rt"
| "rt_of (BuildFailed rt) = Some rt"
| "rt_of (Owner rt) = Some rt"
| "rt_of (Draining rt) = Some rt"
| "rt_of (Forcing rt) = Some rt"
| "rt_of (Listen rt) = Some rt"
| "rt_of (ListenFailed rt e) = Some rt"
| "rt_of p = None"

text \<open>Goroutines refer to runtimes that have been built, and the counters of the others are zero.\<close>

definition wf_system :: "system \<Rightarrow> bool" where
  "wf_system = (\<lambda>(s, M). current s < built s \<and> (\<forall>p \<in># M. \<forall>rt. rt_of p = Some rt \<longrightarrow> rt < built s) \<and>
    (\<forall>rt \<ge> built s. requestWG s rt = 0 \<and> workerWG s rt = 0))"

lemma rt_of_resume: "rt_of (resume k rt) = Some r \<Longrightarrow> r = rt"
  by (cases k) auto

lemma proceed_wf:
  assumes "proceed p s = Some (ps, s')" and "current s < built s" and "\<And>rt. rt_of p = Some rt \<Longrightarrow> rt < built s"
    and "\<forall>rt \<ge> built s. requestWG s rt = 0 \<and> workerWG s rt = 0"
  shows "built s' = built s \<and> current s' < built s \<and> (\<forall>q \<in> set ps. \<forall>rt. rt_of q = Some rt \<longrightarrow> rt < built s) \<and>
    (\<forall>rt \<ge> built s. requestWG s' rt = 0 \<and> workerWG s' rt = 0)"
  using assms
  by (cases "(p, s)" rule: proceed.cases) (auto simp: Let_def split: if_splits serverState.splits dest: rt_of_resume)

lemma fail_wf:
  assumes "fail e p s = Some (ps, s')" and "\<And>rt. rt_of p = Some rt \<Longrightarrow> rt < built s"
  shows "built s' = built s \<and> current s' = current s \<and> requestWG s' = requestWG s \<and> workerWG s' = workerWG s \<and>
    (\<forall>q \<in> set ps. \<forall>rt. rt_of q = Some rt \<longrightarrow> rt < built s)"
  using assms by (cases "(e, p, s)" rule: fail.cases) (auto split: if_splits)


lemma sys_step_wf: "sys_step early c d \<Longrightarrow> wf_system c \<Longrightarrow> wf_system d"
proof (induction rule: sys_step.induct)
  case (act p s ps s' M)
  from act.hyps show ?case
  proof (cases rule: actsE)
    case 1
    with act.prems proceed_wf [OF 1] show ?thesis by (auto simp: wf_system_def)
  next
    case (2 e)
    with act.prems fail_wf [OF 2] show ?thesis by (auto simp: wf_system_def)
  qed
qed (auto simp: wf_system_def build_runtime_def less_Suc_eq split: if_splits)

lemma reachable_wf: "reachable early c \<Longrightarrow> wf_system c"
proof (induction rule: reachable_induct)
  case (init n)
  show ?case by (auto simp: wf_system_def init_def NewServer_def split: if_splits)
qed (rule sys_step_wf)

section \<open>Counting goroutines\<close>

text \<open>A quantity of the shared state that counts goroutines: every action changes it by what it changes of the
  goroutines. The laws are about one goroutine; the lemma is about the system.\<close>

locale process_counter =
  fixes quantity :: "server \<Rightarrow> nat"
    and weight :: "proc \<Rightarrow> nat"
  assumes quantity_init: "quantity (NewServer n) = weight Start + n * weight (Worker 0)"
    and quantity_proceed: "proceed p s = Some (ps, s') \<Longrightarrow> current s < built s \<Longrightarrow> weight p \<le> quantity s \<Longrightarrow>
      quantity s' + weight p = quantity s + (\<Sum>q \<leftarrow> ps. weight q)"
    and quantity_fail: "fail e p s = Some (ps, s') \<Longrightarrow> quantity s' = quantity s \<and> (\<Sum>q \<leftarrow> ps. weight q) = weight p"
    and quantity_build: "current s < built s \<Longrightarrow> requestWG s (built s) = 0 \<Longrightarrow> workerWG s (built s) = 0 \<Longrightarrow>
      quantity (build_runtime n b s) = quantity s + n * weight (Worker (built s)) + weight (if b then BuildFailed (built s) else Install (built s))"
    and weight_arrival: "weight Accept = 0" "weight Shutdown = 0"
begin

lemma quantity_step:
  assumes "sys_step early c d" and "wf_system c" and "quantity (fst c) = (\<Sum>p \<in># snd c. weight p)"
  shows "quantity (fst d) = (\<Sum>p \<in># snd d. weight p)"
  using assms
proof (induction rule: sys_step.induct)
  case (act p s ps s' M)
  have le: "weight p \<le> quantity s" using act.prems(2) by simp
  from act.hyps show ?case
  proof (cases rule: actsE)
    case 1
    from quantity_proceed [OF 1 _ le] act.prems show ?thesis
      by (simp add: wf_system_def sum_mset_sum_list [symmetric])
  next
    case (2 e)
    from quantity_fail [OF 2] act.prems show ?thesis by (simp add: sum_mset_sum_list [symmetric])
  qed
next
  case (reload s M n)
  then show ?case using quantity_build [of s n False] by (simp add: wf_system_def)
next
  case (reload_fails s M n)
  then show ?case using quantity_build [of s n True] by (simp add: wf_system_def)
qed (simp_all add: weight_arrival)

lemma quantity_counts: "reachable early (s, M) \<Longrightarrow> quantity s = (\<Sum>p \<in># M. weight p)"
proof -
  have "quantity (fst c) = (\<Sum>p \<in># snd c. weight p)" if "reachable early c" for c
    using that
  proof (induction rule: reachable_induct)
    case (init n)
    show ?case by (simp add: init_def quantity_init)
  next
    case (step c d)
    then show ?case using quantity_step reachable_wf by blast
  qed
  then show "reachable early (s, M) \<Longrightarrow> quantity s = (\<Sum>p \<in># M. weight p)" by force
qed

lemma quantity_zero: "reachable early (s, M) \<Longrightarrow> quantity s = 0 \<Longrightarrow> p \<in># M \<Longrightarrow> weight p = 0"
  using quantity_counts [of early s M] by simp

lemma quantity_positive: "reachable early (s, M) \<Longrightarrow> 0 < quantity s \<Longrightarrow> \<exists>p \<in># M. 0 < weight p"
  by (rule ccontr) (simp add: quantity_counts [of early s M] sum_mset.neutral)

end

text \<open>The request wait group of a runtime counts the requests that hold it.\<close>

definition holds :: "nat \<Rightarrow> proc \<Rightarrow> nat" where
  "holds rt p = (if p = Holding rt then 1 else 0)"

lemma holds_resume [simp]: "holds rt (resume k r) = 0"
  by (cases k) (auto simp: holds_def)

lemma holds_eq: "holds rt (Holding r) = (if r = rt then 1 else 0)" "\<And>p. (\<And>r. p \<noteq> Holding r) \<Longrightarrow> holds rt p = 0"
  by (auto simp: holds_def)

interpretation requests: process_counter "\<lambda>s. requestWG s rt" "holds rt"
proof
  fix p s ps s' e b n
  show "requestWG s' rt + holds rt p = requestWG s rt + (\<Sum>q \<leftarrow> ps. holds rt q)"
    if "proceed p s = Some (ps, s')" "holds rt p \<le> requestWG s rt"
    using that by (cases "(p, s)" rule: proceed.cases)
      (auto simp: holds_eq Let_def split: if_splits serverState.splits)
  show "requestWG s' rt = requestWG s rt \<and> (\<Sum>q \<leftarrow> ps. holds rt q) = holds rt p" if "fail e p s = Some (ps, s')"
    using that by (cases "(e, p, s)" rule: fail.cases) (auto simp: holds_def split: if_splits)
qed (simp_all add: holds_def NewServer_def build_runtime_def)

text \<open>The worker wait group of a runtime counts its probers, those that are being restarted included.\<close>

fun probes_for :: "nat \<Rightarrow> proc \<Rightarrow> nat" where
  "probes_for rt (Worker r) = (if r = rt then 1 else 0)"
| "probes_for rt (Panicked r) = (if r = rt then 1 else 0)"
| "probes_for rt (Respawn r) = (if r = rt then 1 else 0)"
| "probes_for rt (Exiting r) = (if r = rt then 1 else 0)"
| "probes_for rt p = 0"

lemma probes_for_resume [simp]: "probes_for rt (resume k r) = 0"
  by (cases k) auto

interpretation workers: process_counter "\<lambda>s. workerWG s rt" "probes_for rt"
proof
  fix p s ps s' e b n
  show "workerWG s' rt + probes_for rt p = workerWG s rt + (\<Sum>q \<leftarrow> ps. probes_for rt q)"
    if "proceed p s = Some (ps, s')" "probes_for rt p \<le> workerWG s rt"
    using that by (cases "(p, s)" rule: proceed.cases)
      (auto simp: Let_def split: if_splits serverState.splits)
  show "workerWG s' rt = workerWG s rt \<and> (\<Sum>q \<leftarrow> ps. probes_for rt q) = probes_for rt p" if "fail e p s = Some (ps, s')"
    using that by (cases "(e, p, s)" rule: fail.cases) (auto split: if_splits)
qed (simp_all add: NewServer_def build_runtime_def)

text \<open>The active requests of the HTTP server.\<close>

fun in_flight :: "proc \<Rightarrow> nat" where
  "in_flight Acquire = 1"
| "in_flight (Holding rt) = 1"
| "in_flight Handled = 1"
| "in_flight p = 0"

lemma in_flight_resume [simp]: "in_flight (resume k r) = 0"
  by (cases k) auto

interpretation http: process_counter active in_flight
proof
  fix p s ps s' e b n
  show "active s' + in_flight p = active s + (\<Sum>q \<leftarrow> ps. in_flight q)"
    if "proceed p s = Some (ps, s')" "in_flight p \<le> active s"
    using that by (cases "(p, s)" rule: proceed.cases)
      (auto simp: Let_def split: if_splits serverState.splits)
  show "active s' = active s \<and> (\<Sum>q \<leftarrow> ps. in_flight q) = in_flight p" if "fail e p s = Some (ps, s')"
    using that by (cases "(e, p, s)" rule: fail.cases) (auto split: if_splits)
qed (simp_all add: NewServer_def build_runtime_def)

text \<open>Every runtime that has been built is the current one or has exactly one goroutine responsible for it: the one
  that is to install it, to stop it, or has done so.\<close>

fun owns :: "nat \<Rightarrow> proc \<Rightarrow> nat" where
  "owns rt (Install r) = (if r = rt then 1 else 0)"
| "owns rt (Stopping ph r AfterReload) = (if r = rt then 1 else 0)"
| "owns rt (Stopping ph r AfterReject) = (if r = rt then 1 else 0)"
| "owns rt (Reloaded r) = (if r = rt then 1 else 0)"
| "owns rt (Rejected r) = (if r = rt then 1 else 0)"
| "owns rt (BuildFailed r) = (if r = rt then 1 else 0)"
| "owns rt p = 0"

lemma owns_resume [simp]: "owns rt (resume k r) = owns rt (Stopping WaitWorkers r k)"
  by (cases k) auto

lemma owns_phase: "owns rt (Stopping ph r k) = (if k \<in> {AfterReload, AfterReject} \<and> r = rt then 1 else 0)"
  by (cases k) auto

definition replaced :: "nat \<Rightarrow> server \<Rightarrow> nat" where
  "replaced rt s = (if rt < built s \<and> rt \<noteq> current s then 1 else 0)"

lemma replaced_frame [simp]:
  "replaced rt (s\<lparr>active := a\<rparr>) = replaced rt s" "replaced rt (s\<lparr>requestWG := f\<rparr>) = replaced rt s"
  "replaced rt (s\<lparr>workerWG := f\<rparr>) = replaced rt s" "replaced rt (s\<lparr>cancelled := g\<rparr>) = replaced rt s"
  "replaced rt (s\<lparr>state := st\<rparr>) = replaced rt s" "replaced rt (s\<lparr>ready := b\<rparr>) = replaced rt s"
  "replaced rt (s\<lparr>closed := b\<rparr>) = replaced rt s" "replaced rt (s\<lparr>srv := b\<rparr>) = replaced rt s"
  "replaced rt (s\<lparr>serving := b\<rparr>) = replaced rt s" "replaced rt (s\<lparr>shutdownErr := err\<rparr>) = replaced rt s"
  "replaced rt (s\<lparr>runtimeMu := b\<rparr>) = replaced rt s"
  "replaced rt (s\<lparr>shutdownDone := b\<rparr>) = replaced rt s" "replaced rt (s\<lparr>forced := b\<rparr>) = replaced rt s"
  by (simp_all add: replaced_def)

interpretation ownership: process_counter "replaced rt" "owns rt"
proof
  fix p s ps s' e b n
  show "replaced rt s' + owns rt p = replaced rt s + (\<Sum>q \<leftarrow> ps. owns rt q)"
    if "proceed p s = Some (ps, s')" "current s < built s" "owns rt p \<le> replaced rt s"
    using that by (cases "(p, s)" rule: proceed.cases,
      auto simp: Let_def owns_phase split: if_split_asm serverState.splits, auto simp: replaced_def split: if_splits)
  show "replaced rt s' = replaced rt s \<and> (\<Sum>q \<leftarrow> ps. owns rt q) = owns rt p" if "fail e p s = Some (ps, s')"
    using that by (cases "(e, p, s)" rule: fail.cases) (auto simp: replaced_def split: if_splits)
qed (auto simp: replaced_def NewServer_def build_runtime_def)


text \<open>The mutex is held across actions by the call of Shutdown that takes the lead, and for ever by one that panics.\<close>

fun locks :: "proc \<Rightarrow> nat" where
  "locks Leading = 1"
| "locks ShutdownPanicked = 1"
| "locks p = 0"

lemma locks_resume [simp]: "locks (resume k r) = 0"
  by (cases k) auto

interpretation mutex: process_counter "\<lambda>s. if runtimeMu s then 1 else 0" locks
proof
  fix p s ps s' e b n
  show "(if runtimeMu s' then 1 else 0) + locks p = (if runtimeMu s then 1 else 0) + (\<Sum>q \<leftarrow> ps. locks q)"
    if "proceed p s = Some (ps, s')" "locks p \<le> (if runtimeMu s then 1 else 0)"
    using that by (cases "(p, s)" rule: proceed.cases)
      (auto simp: Let_def split: if_splits serverState.splits)
  show "(if runtimeMu s' then 1 else 0) = (if runtimeMu s then 1 else (0 :: nat)) \<and> (\<Sum>q \<leftarrow> ps. locks q) = locks p" if "fail e p s = Some (ps, s')"
    using that by (cases "(e, p, s)" rule: fail.cases) (auto split: if_splits)
qed (simp_all add: NewServer_def build_runtime_def)

lemma mutex_held:
  assumes "reachable early (s, M)" and "runtimeMu s"
  shows "Leading \<in># M \<or> ShutdownPanicked \<in># M"
proof -
  obtain p where "p \<in># M" "0 < locks p" using mutex.quantity_positive [OF assms(1)] assms(2) by auto
  then show ?thesis by (cases p rule: locks.cases) auto
qed

section \<open>Retiring a runtime\<close>

text \<open>How far a runtime is out of use, by the goroutine responsible for it.\<close>

definition unused :: "server \<Rightarrow> nat \<Rightarrow> bool" where
  "unused s rt \<longleftrightarrow> cancelled s rt \<and> requestWG s rt = 0 \<and> workerWG s rt = 0"

fun settled :: "server \<Rightarrow> proc \<Rightarrow> bool" where
  "settled s (Stopping WaitRequests rt k) = cancelled s rt"
| "settled s (Stopping WaitWorkers rt k) = (cancelled s rt \<and> (k \<in> {AfterReload, AfterReject} \<longrightarrow> requestWG s rt = 0))"
| "settled s (Reloaded rt) = unused s rt"
| "settled s (Rejected rt) = unused s rt"
| "settled s p = True"

lemma proceed_cancelled: "proceed p s = Some (ps, s') \<Longrightarrow> cancelled s rt \<Longrightarrow> cancelled s' rt"
  by (cases "(p, s)" rule: proceed.cases) (auto simp: Let_def split: if_splits serverState.splits)

lemma proceed_requests:
  "proceed p s = Some (ps, s') \<Longrightarrow> rt \<noteq> current s \<Longrightarrow> requestWG s rt = 0 \<Longrightarrow> requestWG s' rt = 0"
  by (cases "(p, s)" rule: proceed.cases) (auto simp: Let_def split: if_splits serverState.splits)

lemma proceed_workers:
  "proceed p s = Some (ps, s') \<Longrightarrow> probes_for rt p = 0 \<Longrightarrow> workerWG s rt = 0 \<Longrightarrow> workerWG s' rt = 0"
  by (cases "(p, s)" rule: proceed.cases) (auto simp: Let_def split: if_splits serverState.splits)

lemma settled_resume: "settled s (resume k rt) \<longleftrightarrow> (k \<in> {AfterReload, AfterReject} \<longrightarrow> unused s rt)"
  by (cases k) auto

lemma proceed_settles: "proceed p s = Some (ps, s') \<Longrightarrow> settled s p \<Longrightarrow> q \<in> set ps \<Longrightarrow> settled s' q"
  by (cases "(p, s)" rule: proceed.cases)
    (auto simp: Let_def unused_def settled_resume split: if_splits serverState.splits)

lemma fail_settles: "fail e p s = Some (ps, s') \<Longrightarrow> (\<forall>q \<in> set ps. settled s q) \<and> settled s' = settled s"
proof -
  assume "fail e p s = Some (ps, s')"
  then have "cancelled s' = cancelled s \<and> requestWG s' = requestWG s \<and> workerWG s' = workerWG s" "\<forall>q \<in> set ps. \<forall>t. settled t q"
    by (cases "(e, p, s)" rule: fail.cases; auto split: if_splits)+
  moreover from this(1) have "settled s' q = settled s q" for q
    by (cases "(s, q)" rule: settled.cases) (simp_all add: unused_def)
  ultimately show ?thesis by auto
qed

text \<open>The runtime of a goroutine that owns one is built and not the current one.\<close>

lemma owned:
  assumes "reachable early (s, M)" and "p \<in># M" and "owns rt p \<noteq> 0"
  shows "rt < built s \<and> rt \<noteq> current s"
proof (rule ccontr)
  assume "\<not> (rt < built s \<and> rt \<noteq> current s)"
  then have "replaced rt s = 0" by (auto simp: replaced_def)
  from ownership.quantity_zero [OF assms(1) this assms(2)] assms(3) show False by simp
qed

lemma settled_other:
  assumes "reachable early (s, add_mset p M)" and "proceed p s = Some (ps, s')" and "q \<in># M" and "settled s q"
  shows "settled s' q"
proof -
  have own: "rt \<noteq> current s" if "owns rt q \<noteq> 0" for rt using owned [OF assms(1) _ that] assms(3) by simp
  have "workerWG s' rt = 0" if "workerWG s rt = 0" for rt
    using proceed_workers [OF assms(2) _ that] workers.quantity_zero [OF assms(1) that, of p] by simp
  moreover have "requestWG s' rt = 0" if "requestWG s rt = 0" "owns rt q \<noteq> 0" for rt
    using proceed_requests [OF assms(2) own [OF that(2)] that(1)] .
  ultimately show ?thesis using assms(4) proceed_cancelled [OF assms(2)]
    by (cases "(s, q)" rule: settled.cases) (auto simp: unused_def owns_phase)
qed

lemma settled_build:
  assumes "settled s q" and "\<And>rt. rt_of q = Some rt \<Longrightarrow> rt < built s"
  shows "settled (build_runtime n b s) q"
  using assms by (cases "(s, q)" rule: settled.cases) (auto simp: unused_def build_runtime_def)

lemma reachable_settled: "reachable early (s, M) \<Longrightarrow> p \<in># M \<Longrightarrow> settled s p"
proof -
  have "\<forall>p \<in># snd c. settled (fst c) p" if "reachable early c" for c
    using that
  proof (induction rule: reachable_induct)
    case (init n)
    show ?case by (auto simp: init_def split: if_splits)
  next
    case (step c d)
    from step.hyps(2) step.hyps(1) step.IH show ?case
    proof (induction rule: sys_step.induct)
      case (act p s ps s' M)
      from act.hyps show ?case
      proof (cases rule: actsE)
        case 1
        then show ?thesis using act.prems proceed_settles [OF 1] settled_other [OF act.prems(1) 1] by auto
      next
        case (2 e)
        then show ?thesis using act.prems fail_settles [OF 2] by auto
      qed
    next
      case (reload s M n)
      then show ?case using reachable_wf [OF reload.prems(1)] settled_build [of s]
        by (auto simp: wf_system_def split: if_splits)
    next
      case (reload_fails s M n)
      then show ?case using reachable_wf [OF reload_fails.prems(1)] settled_build [of s]
        by (auto simp: wf_system_def split: if_splits)
    qed auto
  qed
  then show "reachable early (s, M) \<Longrightarrow> p \<in># M \<Longrightarrow> settled s p" by force
qed

text \<open>C2. A retired runtime is out of use. Once a reload has returned, then in every later state, whatever
  requests, reloads and shutdowns run concurrently, the runtime it replaced is not the current one, no
  request holds it and none of its probers runs, and its wait groups are zero.\<close>

theorem retired_runtime_unused:
  assumes "reachable early (s, M)" and "Reloaded rt \<in># M"
  shows "rt \<noteq> current s \<and> Holding rt \<notin># M \<and> Worker rt \<notin># M \<and> requestWG s rt = 0 \<and> workerWG s rt = 0"
proof -
  have "unused s rt" using reachable_settled [OF assms] by simp
  then have z: "requestWG s rt = 0" "workerWG s rt = 0" by (simp_all add: unused_def)
  have "Holding rt \<notin># M" using requests.quantity_zero [OF assms(1) z(1)] by (force simp: holds_eq)
  moreover have "Worker rt \<notin># M" using workers.quantity_zero [OF assms(1) z(2)] by force
  moreover have "rt \<noteq> current s" using owned [OF assms, of rt] by simp
  ultimately show ?thesis using z by simp
qed


section \<open>Runs\<close>

text \<open>A run given by a schedule: which goroutine of a list acts next, which one fails, and what arrives.\<close>

datatype event = Run nat | Break nat string | NewRequest | CallShutdown | NewConfig nat

fun put_procs :: "proc list \<Rightarrow> nat \<Rightarrow> (proc list \<times> server) option \<Rightarrow> (server \<times> proc list) option" where
  "put_procs ps i None = None"
| "put_procs ps i (Some (qs, s')) = Some (s', qs @ take i ps @ drop (Suc i) ps)"

fun exec1 :: "bool \<Rightarrow> event \<Rightarrow> server \<times> proc list \<Rightarrow> (server \<times> proc list) option" where
  "exec1 early (Run i) (s, ps) = (if i < length ps then put_procs ps i (proceed (ps ! i) s) else None)"
| "exec1 early (Break i e) (s, ps) = (if i < length ps then put_procs ps i (fail e (ps ! i) s) else None)"
| "exec1 early NewRequest (s, ps) = Some (s, Accept # ps)"
| "exec1 early CallShutdown (s, ps) = (if early \<or> state s \<noteq> serverStarting then Some (s, Shutdown # ps) else None)"
| "exec1 early (NewConfig n) (s, ps) = Some (build_runtime n False s, Install (built s) # replicate n (Worker (built s)) @ ps)"

fun exec :: "bool \<Rightarrow> event list \<Rightarrow> server \<times> proc list \<Rightarrow> (server \<times> proc list) option" where
  "exec early [] c = Some c"
| "exec early (e # es) c = (case exec1 early e c of None \<Rightarrow> None | Some c' \<Rightarrow> exec early es c')"

lemma mset_replace: "i < length ps \<Longrightarrow> mset ps = add_mset (ps ! i) (mset (take i ps) + mset (drop (Suc i) ps))"
  by (metis id_take_nth_drop mset.simps(2) mset_append union_mset_add_mset_right)

lemma put_procs_step:
  assumes "put_procs ps i r = Some (s', qs)" and "i < length ps" and "\<And>a t. r = Some (a, t) \<Longrightarrow> acts (ps ! i) s a t"
  shows "sys_step early (s, mset ps) (s', mset qs)"
proof -
  obtain a where a: "r = Some (a, s')" "qs = a @ take i ps @ drop (Suc i) ps"
    using assms(1) by (cases "(ps, i, r)" rule: put_procs.cases) auto
  from sys_step.act [OF assms(3) [OF a(1)], of early "mset (take i ps) + mset (drop (Suc i) ps)"]
  show ?thesis using mset_replace [OF assms(2)] a(2) by simp
qed

lemma exec1_step:
  assumes "exec1 early e (s, ps) = Some (s', qs)"
  shows "sys_step early (s, mset ps) (s', mset qs)"
proof (cases e)
  case (Run i)
  with assms show ?thesis by (auto simp: acts_def intro: put_procs_step split: if_splits)
next
  case (Break i err)
  with assms have "put_procs ps i (fail err (ps ! i) s) = Some (s', qs)" "i < length ps" by (auto split: if_splits)
  then show ?thesis by (rule put_procs_step) (auto simp: acts_def)
next
  case NewRequest
  with assms show ?thesis by (auto intro: sys_step.request)
next
  case CallShutdown
  with assms show ?thesis by (auto intro: sys_step.shutdown split: if_splits)
next
  case (NewConfig n)
  with assms show ?thesis using sys_step.reload [of early s "mset ps" n] by auto
qed

lemma exec_reachable:
  assumes "exec early es (s, ps) = Some (s', qs)" and "reachable early (s, mset ps)"
  shows "reachable early (s', mset qs)"
  using assms
proof (induction es arbitrary: s ps)
  case (Cons e es)
  then obtain t rs where t: "exec1 early e (s, ps) = Some (t, rs)" "exec early es (t, rs) = Some (s', qs)"
    by (auto split: option.splits)
  from Cons.IH [OF t(2) reachable_step [OF Cons.prems(2) exec1_step [OF t(1)]]] show ?case .
qed simp

text \<open>One run that starts the server, accepts a request, reloads while it is handled and retires the first runtime.\<close>

definition started :: "event list" where
  "started = [Run 0, Run 0, Run 0, Run 0, Run 0]"

lemma init_0: "init 0 = (NewServer 0, mset [Start])"
  by (simp add: init_def)

lemma exec_init: "exec early es (NewServer 0, [Start]) = Some (s, ps) \<Longrightarrow> reachable early (s, mset ps)"
  using exec_reachable [of early es "NewServer 0" "[Start]"] reachable_init [of early 0] by (simp add: init_0)

lemma reload_run:
  "\<exists>s. exec False (started @ [NewRequest, Run 0, Run 0, NewConfig 0, Run 0, Run 0, Run 1, Run 0, Run 1, Run 0])
      (NewServer 0, [Start]) = Some (s, [Reloaded 0, Served, Serving]) \<and> current s = 1"
  by (simp add: started_def NewServer_def build_runtime_def numeral_eq_Suc)

theorem retired_runtime_unused_witness:
  "\<exists>s M. reachable False (s, M) \<and> Reloaded 0 \<in># M \<and> 0 \<noteq> current s \<and> Holding 0 \<notin># M \<and> requestWG s 0 = 0"
proof -
  obtain s where s: "exec False (started @ [NewRequest, Run 0, Run 0, NewConfig 0, Run 0, Run 0, Run 1, Run 0, Run 1, Run 0])
      (NewServer 0, [Start]) = Some (s, [Reloaded 0, Served, Serving])" using reload_run by blast
  have r: "reachable False (s, mset [Reloaded 0, Served, Serving])" using exec_init [OF s] .
  have "Reloaded 0 \<in># mset [Reloaded 0, Served, Serving]" by simp
  from retired_runtime_unused [OF r this] r this show ?thesis by blast
qed


section \<open>No deadlock\<close>

text \<open>The number of actions a goroutine has left if nothing goes wrong.\<close>

fun todo_after :: "caller \<Rightarrow> nat" where
  "todo_after AfterShutdown = 1"
| "todo_after k = 0"

fun todo :: "proc \<Rightarrow> nat" where
  "todo Accept = 4"
| "todo Acquire = 3"
| "todo (Holding rt) = 2"
| "todo Handled = 1"
| "todo (Worker rt) = 2"
| "todo (Panicked rt) = 5"
| "todo (Respawn rt) = 4"
| "todo (Exiting rt) = 1"
| "todo (Stopping Cancel rt k) = 3 + todo_after k"
| "todo (Stopping WaitRequests rt k) = 2 + todo_after k"
| "todo (Stopping WaitWorkers rt k) = 1 + todo_after k"
| "todo (Install rt) = 4"
| "todo Shutdown = 8"
| "todo Leading = 7"
| "todo AwaitDone = 2"
| "todo ReadErr = 1"
| "todo (Owner rt) = 6"
| "todo (Draining rt) = 5"
| "todo (Forcing rt) = 5"
| "todo (Complete err) = 1"
| "todo Start = 8"
| "todo (Listen rt) = 7"
| "todo Bound = 6"
| "todo SetRunning = 5"
| "todo (ListenFailed rt e) = 4"
| "todo (ServeFailed e) = 4"
| "todo Serve = 2"
| "todo Serving = 1"
| "todo p = 0"

lemma todo_resume [simp]: "todo (resume k rt) = todo_after k"
  by (cases k) auto

lemma proceed_todo: "proceed p s = Some (ps, s') \<Longrightarrow> (\<Sum>q \<leftarrow> ps. todo q) < todo p"
  by (cases "(p, s)" rule: proceed.cases) (auto simp: Let_def split: if_splits serverState.splits)

text \<open>An operation in progress: not one that has ended, nor a prober of a runtime in use, nor the loop that serves.\<close>

definition pending :: "server \<Rightarrow> proc \<Rightarrow> bool" where
  "pending s p \<longleftrightarrow> 0 < todo p \<and> (\<forall>rt. p = Worker rt \<longrightarrow> cancelled s rt) \<and> (p = Serving \<longrightarrow> closed s)"

text \<open>The goroutine that performs the shutdown.\<close>

fun leads :: "proc \<Rightarrow> bool" where
  "leads Leading = True"
| "leads (Owner rt) = True"
| "leads (Draining rt) = True"
| "leads (Forcing rt) = True"
| "leads (Stopping ph rt AfterShutdown) = True"
| "leads (Complete err) = True"
| "leads p = False"

lemma leads_resume: "leads (resume k rt) \<longleftrightarrow> k = AfterShutdown"
  by (cases k) auto

lemma resume_AwaitDone [simp]: "AwaitDone \<noteq> resume k rt"
  by (cases k) auto

lemma leads_stopping [simp]: "leads (Stopping ph rt k) \<longleftrightarrow> k = AfterShutdown"
  by (cases k) auto

definition shutdown_led :: "system \<Rightarrow> bool" where
  "shutdown_led = (\<lambda>(s, M). state s = serverShuttingDown \<or> AwaitDone \<in># M \<longrightarrow> shutdownDone s \<or> (\<exists>p \<in># M. leads p))"

lemma proceed_led:
  assumes "proceed p s = Some (ps, s')"
  shows "leads p \<Longrightarrow> shutdownDone s' \<or> (\<exists>q \<in> set ps. leads q)" and "shutdownDone s \<Longrightarrow> shutdownDone s'"
    and "state s' = serverShuttingDown \<Longrightarrow> state s = serverShuttingDown \<or> (\<exists>q \<in> set ps. leads q)"
    and "AwaitDone \<in> set ps \<Longrightarrow> state s = serverShuttingDown"
  using assms by (cases "(p, s)" rule: proceed.cases;
    auto simp: Let_def leads_resume split: if_splits serverState.splits)+

lemma fail_led:
  "fail e p s = Some (ps, s') \<Longrightarrow> (leads p \<longrightarrow> (\<exists>q \<in> set ps. leads q)) \<and> shutdownDone s' = shutdownDone s \<and>
    state s' = state s \<and> AwaitDone \<notin> set ps"
  by (cases "(e, p, s)" rule: fail.cases) (auto split: if_splits)

lemma sys_step_led: "sys_step early c d \<Longrightarrow> shutdown_led c \<Longrightarrow> shutdown_led d"
proof (induction rule: sys_step.induct)
  case (act p s ps s' M)
  from act.hyps show ?case
  proof (cases rule: actsE)
    case 1
    from proceed_led [OF 1] act.prems show ?thesis by (auto simp: shutdown_led_def)
  next
    case (2 e)
    from fail_led [OF 2] act.prems show ?thesis by (auto simp: shutdown_led_def)
  qed
qed (auto simp: shutdown_led_def build_runtime_def split: if_splits)

lemma reachable_led: "reachable early c \<Longrightarrow> shutdown_led c"
proof (induction rule: reachable_induct)
  case (init n)
  show ?case by (auto simp: shutdown_led_def init_def NewServer_def split: if_splits)
qed (rule sys_step_led)

text \<open>A waiting goroutine waits for one that can act.\<close>

lemma worker_proceeds: "probes_for rt q \<noteq> 0 \<Longrightarrow> cancelled s rt \<Longrightarrow> proceed q s \<noteq> None"
  by (cases "(rt, q)" rule: probes_for.cases) (auto split: if_splits)

lemma in_flight_proceeds: "in_flight q \<noteq> 0 \<Longrightarrow> \<not> runtimeMu s \<Longrightarrow> proceed q s \<noteq> None"
  by (cases q rule: in_flight.cases) auto

lemma blocked_cases:
  assumes "pending s p" and "proceed p s = None" and "\<not> runtimeMu s"
  obtains (requests) rt k where "p = Stopping WaitRequests rt k" and "0 < requestWG s rt"
  | (workers) rt k where "p = Stopping WaitWorkers rt k" and "0 < workerWG s rt"
  | (draining) "0 < active s" and "leads p"
  | (awaiting) "p = AwaitDone" and "\<not> shutdownDone s"
  using assms unfolding pending_def
  by (cases "(p, s)" rule: proceed.cases) (auto simp: Let_def split: if_splits serverState.splits)

lemma progress_direct:
  assumes "reachable early (s, M)" and "p \<in># M" and "pending s p" and "p \<noteq> AwaitDone" and "\<not> runtimeMu s"
  shows "\<exists>q \<in># M. proceed q s \<noteq> None"
proof (cases "proceed p s = None")
  case False
  with assms(2) show ?thesis by blast
next
  case True
  from assms(3) True assms(5) show ?thesis
  proof (cases rule: blocked_cases)
    case (requests rt k)
    from requests.quantity_positive [OF assms(1) requests(2)] obtain q where "q \<in># M" "q = Holding rt"
      by (auto simp: holds_def split: if_splits)
    then show ?thesis by force
  next
    case (workers rt k)
    have "cancelled s rt" using reachable_settled [OF assms(1,2)] workers(1) by simp
    moreover obtain q where "q \<in># M" "0 < probes_for rt q"
      using workers.quantity_positive [OF assms(1) workers(2)] by auto
    ultimately show ?thesis using worker_proceeds by blast
  next
    case draining
    obtain q where "q \<in># M" "0 < in_flight q" using http.quantity_positive [OF assms(1) draining(1)] by auto
    then show ?thesis using in_flight_proceeds assms(5) by blast
  next
    case awaiting
    with assms(4) show ?thesis by blast
  qed
qed

lemma leads_pending: "leads p \<Longrightarrow> pending s p \<and> p \<noteq> AwaitDone"
proof -
  assume "leads p"
  moreover have "0 < todo (Stopping ph rt AfterShutdown)" for ph rt by (cases ph) auto
  ultimately show ?thesis by (cases p rule: leads.cases) (auto simp: pending_def)
qed

lemma progress_unlocked:
  assumes "reachable early (s, M)" and "p \<in># M" and "pending s p" and "\<not> runtimeMu s"
  shows "\<exists>q \<in># M. proceed q s \<noteq> None"
proof (cases "p = AwaitDone \<and> \<not> shutdownDone s")
  case True
  with reachable_led [OF assms(1)] assms(2) obtain q where "q \<in># M" "leads q" by (auto simp: shutdown_led_def)
  with progress_direct [OF assms(1) this(1)] leads_pending assms(4) show ?thesis by blast
next
  case False
  then show ?thesis
  proof (cases "p = AwaitDone")
    case True
    with False have "proceed p s \<noteq> None" by simp
    with assms(2) show ?thesis by blast
  next
    case False
    from progress_direct [OF assms(1-3) this assms(4)] show ?thesis .
  qed
qed

lemma progress:
  assumes "reachable early (s, M)" and "p \<in># M" and "pending s p" and "ShutdownPanicked \<notin># M"
  shows "\<exists>q \<in># M. proceed q s \<noteq> None"
proof (cases "runtimeMu s")
  case True
  with mutex_held [OF assms(1)] assms(4) have "Leading \<in># M" by blast
  moreover have "proceed Leading s \<noteq> None" by simp
  ultimately show ?thesis by blast
next
  case False
  from progress_unlocked [OF assms(1-3) False] show ?thesis .
qed

text \<open>Runs of the goroutines that are there, without failures and new arrivals.\<close>

inductive quiet_step :: "system \<Rightarrow> system \<Rightarrow> bool" where
  "proceed p s = Some (ps, s') \<Longrightarrow> quiet_step (s, add_mset p M) (s', mset ps + M)"

definition work :: "system \<Rightarrow> nat" where
  "work c = (\<Sum>p \<in># snd c. todo p)"

lemma quiet_work: "quiet_step c d \<Longrightarrow> work d < work c"
proof (induction rule: quiet_step.induct)
  case (1 p s ps s' M)
  from proceed_todo [OF 1] show ?case by (simp add: work_def sum_mset_sum_list [symmetric])
qed

lemma quiet_sys: "quiet_step c d \<Longrightarrow> sys_step early c d"
  by (induction rule: quiet_step.induct) (auto intro: sys_step.act simp: acts_def)

lemma quiet_run:
  "(quiet_step ^^ k) c d \<Longrightarrow> reachable early c \<Longrightarrow> reachable early d \<and> work d + k \<le> work c"
proof (induction k arbitrary: d)
  case (Suc k)
  then obtain e where e: "(quiet_step ^^ k) c e" "quiet_step e d" by auto
  from Suc.IH [OF e(1) Suc.prems(2)] have "reachable early e" "work e + k \<le> work c" by simp_all
  then show ?case using quiet_work [OF e(2)] reachable_step [OF _ quiet_sys [OF e(2)]] by auto
qed simp

section \<open>Shutting down a server that has started\<close>

text \<open>What holds of a goroutine in a run in which Shutdown is not called before Start has set the state.\<close>

fun orderly :: "server \<Rightarrow> proc \<Rightarrow> bool" where
  "orderly s Shutdown = (state s \<noteq> serverStarting)"
| "orderly s Leading = (state s = serverShuttingDown)"
| "orderly s (Owner rt) = (state s = serverShuttingDown \<and> rt = current s)"
| "orderly s (Draining rt) = (state s = serverShuttingDown \<and> rt = current s \<and> closed s)"
| "orderly s (Forcing rt) = (state s = serverShuttingDown \<and> rt = current s \<and> closed s)"
| "orderly s (Stopping ph rt AfterShutdown) =
    (state s = serverShuttingDown \<and> rt = current s \<and> closed s \<and> active s = 0 \<and> (ph \<noteq> Cancel \<longrightarrow> cancelled s rt))"
| "orderly s (Complete None) =
    (state s = serverShuttingDown \<and> closed s \<and> active s = 0 \<and> cancelled s (current s) \<and> workerWG s (current s) = 0)"
| "orderly s (Complete (Some e)) = (state s = serverShuttingDown)"
| "orderly s Start = (state s = serverStarting)"
| "orderly s (Listen rt) = (state s = serverStarting \<and> srv s)"
| "orderly s (ListenFailed rt e) = (state s = serverStarting \<and> srv s \<and> \<not> ready s)"
| "orderly s Bound = (state s = serverStarting \<and> srv s)"
| "orderly s SetRunning = (state s = serverStarting \<and> srv s)"
| "orderly s ShutdownPanicked = False"
| "orderly s p = True"

text \<open>The goroutines that change the state of the life cycle: Start until it serves, and the owner of the shutdown.\<close>

fun starts :: "proc \<Rightarrow> bool" where
  "starts Start = True"
| "starts (Listen rt) = True"
| "starts (ListenFailed rt e) = True"
| "starts Bound = True"
| "starts SetRunning = True"
| "starts p = False"

definition moves :: "proc \<Rightarrow> nat" where
  "moves p = (if leads p \<or> starts p then 1 else 0)"

definition drained :: "server \<Rightarrow> bool" where
  "drained s \<longleftrightarrow> state s = serverStopped \<and> closed s \<and> active s = 0 \<and> cancelled s (current s) \<and> workerWG s (current s) = 0"

definition orderly_server :: "server \<Rightarrow> bool" where
  "orderly_server s \<longleftrightarrow> (state s \<noteq> serverStarting \<longrightarrow> srv s) \<and>
    (ready s \<longrightarrow> state s \<in> {serverStarting, serverRunning} \<or> runtimeMu s) \<and>
    (forced s \<longrightarrow> state s \<in> {serverShuttingDown, serverStopped}) \<and>
    (shutdownDone s \<longrightarrow> state s \<in> {serverShuttingDown, serverStopped}) \<and>
    (shutdownDone s \<and> shutdownErr s = None \<longrightarrow> drained s)"

definition orderly_system :: "system \<Rightarrow> bool" where
  "orderly_system = (\<lambda>(s, M). orderly_server s \<and> (\<forall>p \<in># M. orderly s p) \<and> (\<Sum>p \<in># M. moves p) \<le> 1 \<and>
    (shutdownDone s \<longrightarrow> (\<Sum>p \<in># M. moves p) = 0))"

lemma starts_resume [simp]: "\<not> starts (resume k rt)"
  by (cases k) auto

lemma orderly_resume: "orderly s (resume k rt) \<longleftrightarrow> (k = AfterShutdown \<longrightarrow> orderly s (Complete None))"
  by (cases k) auto

lemma orderly_stopping: "orderly s (Stopping ph rt k) \<longleftrightarrow> (k = AfterShutdown \<longrightarrow>
    state s = serverShuttingDown \<and> rt = current s \<and> closed s \<and> active s = 0 \<and> (ph \<noteq> Cancel \<longrightarrow> cancelled s rt))"
  by (cases k) auto

lemma moves_stopping [simp]: "moves (Stopping ph rt k) = (if k = AfterShutdown then 1 else 0)"
  by (simp add: moves_def)

lemma moves_resume [simp]: "moves (resume k rt) = (if k = AfterShutdown then 1 else 0)"
  by (simp add: moves_def leads_resume)

lemma moves_other: "orderly s q \<Longrightarrow> moves q = 0 \<Longrightarrow> state t \<noteq> serverStarting \<or> state t = state s \<Longrightarrow> orderly t q"
  by (cases "(s, q)" rule: orderly.cases) (auto simp: moves_def)

lemma moves_state: "orderly s q \<Longrightarrow> moves q \<noteq> 0 \<Longrightarrow> state s \<in> {serverStarting, serverShuttingDown}"
  by (cases "(s, q)" rule: orderly.cases) (auto simp: moves_def split: if_splits)

text \<open>A goroutine that moves does not put the state back; one that does not move leaves a move undisturbed.\<close>

lemma proceed_state: "proceed p s = Some (ps, s') \<Longrightarrow> state s' \<noteq> serverStarting \<or> state s' = state s"
  by (cases "(p, s)" rule: proceed.cases) (auto simp: Let_def split: if_splits serverState.splits)

lemma proceed_frame:
  assumes "proceed p s = Some (ps, s')" and "moves p = 0" and "orderly s p" and "state s \<noteq> serverRunning"
  shows "state s' = state s \<and> current s' = current s \<and> srv s' = srv s \<and> ready s' = ready s \<and> closed s' = closed s \<and>
    shutdownDone s' = shutdownDone s \<and> shutdownErr s' = shutdownErr s \<and> (closed s \<and> active s = 0 \<longrightarrow> active s' = 0)"
  using assms by (cases "(p, s)" rule: proceed.cases) (auto simp: moves_def Let_def split: if_splits serverState.splits)

lemma orderly_frame:
  assumes "orderly s q" and "state t = state s" and "current t = current s" and "srv t = srv s" and "ready t = ready s"
    and "closed t = closed s" and "closed s \<and> active s = 0 \<longrightarrow> active t = 0"
    and "\<And>rt. cancelled s rt \<Longrightarrow> cancelled t rt" and "\<And>rt. workerWG s rt = 0 \<Longrightarrow> workerWG t rt = 0"
  shows "orderly t q"
  using assms by (cases "(s, q)" rule: orderly.cases) auto

text \<open>The successors of a goroutine are orderly, and there are as many that move.\<close>

lemma proceed_orderly:
  assumes "proceed p s = Some (ps, s')" and "orderly s p" and "state s \<noteq> serverStarting \<Longrightarrow> srv s"
    and "moves p \<noteq> 0 \<Longrightarrow> \<not> shutdownDone s" and "q \<in> set ps"
  shows "orderly s' q"
  using assms by (cases "(p, s)" rule: proceed.cases)
    (auto simp: orderly_stopping orderly_resume moves_def Let_def split: if_split_asm serverState.split_asm)


lemma proceed_moves:
  assumes "proceed p s = Some (ps, s')" and "orderly s p"
  shows "(\<Sum>q \<leftarrow> ps. moves q) \<le> (if p = Shutdown \<and> state s = serverRunning then 1 else moves p)"
  using assms by (cases "(p, s)" rule: proceed.cases)
    (auto simp: orderly_stopping moves_def leads_resume Let_def split: if_split_asm serverState.split_asm)

lemma proceed_completes:
  assumes "proceed p s = Some (ps, s')" and "shutdownDone s'" and "\<not> shutdownDone s" and "orderly s p"
  shows "moves p = 1 \<and> (\<Sum>q \<leftarrow> ps. moves q) = 0 \<and> (shutdownErr s' = None \<longrightarrow> drained s') \<and> state s' \<in> {serverShuttingDown, serverStopped}"
  using assms by (cases "(p, s)" rule: proceed.cases)
    (auto simp: drained_def moves_def Let_def split: if_split_asm serverState.split_asm)

lemma proceed_ready:
  assumes "proceed p s = Some (ps, s')" and "orderly s p" and "state s \<noteq> serverStarting \<Longrightarrow> srv s"
    and "ready s \<Longrightarrow> state s \<in> {serverStarting, serverRunning} \<or> runtimeMu s" and "forced s \<Longrightarrow> state s \<in> {serverShuttingDown, serverStopped}"
    and "moves p \<noteq> 0 \<Longrightarrow> \<not> shutdownDone s"
  shows "(state s' \<noteq> serverStarting \<longrightarrow> srv s') \<and> (ready s' \<longrightarrow> state s' \<in> {serverStarting, serverRunning} \<or> runtimeMu s') \<and>
    (forced s' \<longrightarrow> state s' \<in> {serverShuttingDown, serverStopped})"
  using assms by (cases "(p, s)" rule: proceed.cases)
    (auto simp: moves_def Let_def split: if_split_asm serverState.split_asm option.split_asm)

lemma drained_frame:
  assumes "drained s" and "proceed p s = Some (ps, s')" and "moves p = 0" and "orderly s p"
    and "\<And>rt. workerWG s rt = 0 \<Longrightarrow> workerWG s' rt = 0"
  shows "drained s'"
  using assms proceed_frame [OF assms(2-4)] proceed_cancelled [OF assms(2)] by (auto simp: drained_def)

lemma proceed_server:
  assumes "proceed p s = Some (ps, s')" and "orderly_server s" and "orderly s p" and "moves p \<noteq> 0 \<Longrightarrow> \<not> shutdownDone s"
    and "\<And>rt. workerWG s rt = 0 \<Longrightarrow> workerWG s' rt = 0"
  shows "orderly_server s'"
proof -
  have "(shutdownDone s' \<longrightarrow> state s' \<in> {serverShuttingDown, serverStopped}) \<and> (shutdownDone s' \<and> shutdownErr s' = None \<longrightarrow> drained s')"
  proof (cases "shutdownDone s")
    case True
    then have "moves p = 0" "state s \<noteq> serverRunning" using assms(2,4) by (auto simp: orderly_server_def)
    then show ?thesis using proceed_frame [OF assms(1) _ assms(3)] drained_frame [OF _ assms(1) _ assms(3,5)] assms(2) True
      by (simp add: orderly_server_def)
  next
    case False
    then show ?thesis using proceed_completes [OF assms(1) _ False assms(3)] by blast
  qed
  then show ?thesis using proceed_ready [OF assms(1,3) _ _ _ assms(4)] assms(2) unfolding orderly_server_def by blast
qed

lemma fail_orderly:
  assumes "fail e p s = Some (ps, s')"
  shows "orderly s p \<Longrightarrow> q \<in> set ps \<Longrightarrow> orderly s' q" and "(\<Sum>q \<leftarrow> ps. moves q) = moves p"
    and "orderly s r \<Longrightarrow> orderly s' r" and "orderly s p \<Longrightarrow> orderly_server s \<Longrightarrow> orderly_server s'" and "shutdownDone s' = shutdownDone s"
proof -
  have f: "state s' = state s \<and> current s' = current s \<and> srv s' = srv s \<and> (ready s' \<longrightarrow> ready s) \<and> runtimeMu s' = runtimeMu s \<and> closed s' = closed s \<and> active s' = active s \<and>
      cancelled s' = cancelled s \<and> workerWG s' = workerWG s \<and> shutdownDone s' = shutdownDone s \<and> shutdownErr s' = shutdownErr s"
    using assms by (cases "(e, p, s)" rule: fail.cases) (auto split: if_splits)
  show "orderly s p \<Longrightarrow> q \<in> set ps \<Longrightarrow> orderly s' q"
    using assms by (cases "(e, p, s)" rule: fail.cases) (auto split: if_splits)
  show "(\<Sum>q \<leftarrow> ps. moves q) = moves p"
    using assms by (cases "(e, p, s)" rule: fail.cases) (auto simp: moves_def split: if_splits)
  show "orderly s r \<Longrightarrow> orderly s' r" using f by (cases "(s, r)" rule: orderly.cases) auto
  have "orderly s p \<Longrightarrow> forced s' \<Longrightarrow> forced s \<or> state s = serverShuttingDown"
    using assms by (cases "(e, p, s)" rule: fail.cases) (auto split: if_splits)
  then show "orderly s p \<Longrightarrow> orderly_server s \<Longrightarrow> orderly_server s'" using f by (auto simp: orderly_server_def drained_def)
  show "shutdownDone s' = shutdownDone s" using f by simp
qed

lemma act_orderly:
  assumes "reachable early (s, add_mset p M)" and "proceed p s = Some (ps, s')" and "orderly_system (s, add_mset p M)"
  shows "orderly_system (s', mset ps + M)"
proof -
  let ?m = "\<Sum>q \<in># M. moves q"
  have o: "orderly_server s" "orderly s p" "\<And>q. q \<in># M \<Longrightarrow> orderly s q" and m: "moves p + ?m \<le> 1"
    and d: "shutdownDone s \<Longrightarrow> moves p + ?m = 0"
    using assms(3) by (auto simp: orderly_system_def)
  have nd: "moves p \<noteq> 0 \<Longrightarrow> \<not> shutdownDone s" using d by auto
  have work: "workerWG s rt = 0 \<Longrightarrow> workerWG s' rt = 0" for rt
    using proceed_workers [OF assms(2)] workers.quantity_zero [OF assms(1), of rt p] by simp
  have others: "orderly s' q" if q: "q \<in># M" for q
  proof (cases "moves q = 0")
    case True
    then show ?thesis using moves_other [OF o(3) [OF q]] proceed_state [OF assms(2)] by blast
  next
    case False
    then have "?m \<noteq> 0" using q by auto
    then have "moves p = 0" using m by linarith
    moreover have "state s \<noteq> serverRunning" using moves_state [OF o(3) [OF q] False] by auto
    ultimately show ?thesis
      using proceed_frame [OF assms(2) _ o(2)] by (intro orderly_frame [OF o(3) [OF q]] proceed_cancelled [OF assms(2)] work) simp_all
  qed
  have idle: "?m = 0" if "p = Shutdown" "state s = serverRunning"
    using moves_state [OF o(3)] that by (intro sum_mset.neutral) force
  have "(\<Sum>q \<leftarrow> ps. moves q) + ?m \<le> 1"
  proof (cases "p = Shutdown \<and> state s = serverRunning")
    case True
    then have "?m = 0" "(\<Sum>q \<leftarrow> ps. moves q) \<le> 1" using idle proceed_moves [OF assms(2) o(2)] by (simp_all only: simp_thms if_True)
    then show ?thesis by linarith
  next
    case False
    then show ?thesis using proceed_moves [OF assms(2) o(2)] m by (simp only: if_False)
  qed
  moreover have "(\<Sum>q \<leftarrow> ps. moves q) + ?m = 0" if "shutdownDone s'"
  proof (cases "shutdownDone s")
    case True
    then have "state s \<noteq> serverRunning" using o(1) by (auto simp: orderly_server_def)
    then show ?thesis using proceed_moves [OF assms(2) o(2)] d [OF True] by simp
  next
    case False
    then show ?thesis using proceed_completes [OF assms(2) that False o(2)] m by simp
  qed
  moreover have "orderly_server s'" using proceed_server [OF assms(2) o(1,2) nd work] by simp
  moreover have "orderly s' q" if "q \<in> set ps" for q
    using proceed_orderly [OF assms(2) o(2) _ nd that] o(1) by (simp add: orderly_server_def)
  ultimately show ?thesis using others by (auto simp: orderly_system_def sum_mset_sum_list [symmetric])
qed

lemma orderly_build: "orderly s q \<Longrightarrow> current s < built s \<Longrightarrow> (\<And>rt. rt_of q = Some rt \<Longrightarrow> rt < built s) \<Longrightarrow> orderly (build_runtime n b s) q"
  by (cases "(s, q)" rule: orderly.cases) (auto simp: build_runtime_def)

lemma orderly_server_build: "orderly_server s \<Longrightarrow> current s < built s \<Longrightarrow> orderly_server (build_runtime n b s)"
  by (auto simp: orderly_server_def build_runtime_def drained_def)

lemma build_orderly:
  assumes "orderly_system (s, M)" and "wf_system (s, M)"
  shows "orderly_system (build_runtime n b s, add_mset (if b then BuildFailed (built s) else Install (built s)) (replicate_mset n (Worker (built s)) + M))"
proof -
  have "shutdownDone (build_runtime n b s) = shutdownDone s" by (simp add: build_runtime_def)
  moreover have "moves (if b then BuildFailed (built s) else Install (built s)) = 0" "moves (Worker rt) = 0" for rt
    by (simp_all add: moves_def)
  moreover have "orderly (build_runtime n b s) q" if "q \<in># M" for q
    using assms that by (intro orderly_build) (auto simp: orderly_system_def wf_system_def)
  moreover have "orderly_server (build_runtime n b s)"
    using assms by (intro orderly_server_build) (auto simp: orderly_system_def wf_system_def)
  ultimately show ?thesis using assms(1) by (auto simp: orderly_system_def split: if_splits)
qed

lemma reachable_orderly: "reachable False c \<Longrightarrow> orderly_system c"
proof (induction rule: reachable_induct)
  case (init n)
  show ?case by (auto simp: orderly_system_def orderly_server_def init_def NewServer_def moves_def split: if_splits)
next
  case (step c d)
  from step.hyps(2,1) step.IH show ?case
  proof (induction rule: sys_step.induct)
    case (act p s ps s' M)
    from act.hyps show ?case
    proof (cases rule: actsE)
      case 1
      then show ?thesis using act_orderly act.prems by blast
    next
      case (2 e)
      then show ?thesis using fail_orderly [OF 2] act.prems(2) by (auto simp: orderly_system_def sum_mset_sum_list [symmetric])
    qed
  next
    case (shutdown s M)
    then show ?case by (auto simp: orderly_system_def moves_def)
  next
    case (reload s M n)
    then show ?case using build_orderly [of s M n False] reachable_wf by simp
  next
    case (reload_fails s M n)
    then show ?case using build_orderly [of s M n True] reachable_wf by simp
  qed (auto simp: orderly_system_def moves_def)
qed


lemma no_panic: "reachable False (s, M) \<Longrightarrow> ShutdownPanicked \<notin># M"
  using reachable_orderly [of "(s, M)"] by (auto simp: orderly_system_def)

text \<open>C7. No deadlock. From every reachable state, with any number of requests, reloads and shutdowns in progress and
  under every scheduling of their goroutines, if nothing more arrives or fails, then the run ends after a
  bounded number of actions, and when it ends every operation has: every request is released, every stop
  of a runtime has returned, and every caller of Shutdown has its answer. The one exception needs a call of
  Shutdown before Start has set the state: then a later call can panic, which leaves the mutex locked.\<close>

theorem operations_complete:
  assumes "reachable early c" and "(quiet_step ^^ k) c (s, M)"
  shows "k \<le> work c \<and> ((\<nexists>d. quiet_step (s, M) d) \<longrightarrow> (\<forall>p \<in># M. \<not> pending s p) \<or> early \<and> ShutdownPanicked \<in># M)"
proof -
  note run = quiet_run [OF assms(2,1)]
  have "\<not> pending s p" if stuck: "\<nexists>d. quiet_step (s, M) d" and "p \<in># M" and "ShutdownPanicked \<notin># M" for p
  proof
    assume "pending s p"
    with progress run \<open>p \<in># M\<close> \<open>ShutdownPanicked \<notin># M\<close> obtain q where "q \<in># M" "proceed q s \<noteq> None" by blast
    then obtain ps s' N where "proceed q s = Some (ps, s')" "M = add_mset q N" by (metis multi_member_split option.exhaust surj_pair)
    then show False using stuck quiet_step.intros by blast
  qed
  moreover have "\<not> early \<Longrightarrow> ShutdownPanicked \<notin># M" using no_panic [of s M] run by (cases early) auto
  ultimately show ?thesis using run by auto
qed

text \<open>A start from the initial state, run until the server serves.\<close>

lemma quiet_next: "proceed p s = Some (ps, s') \<Longrightarrow> (quiet_step ^^ k) (s', mset ps + M) d \<Longrightarrow> (quiet_step ^^ Suc k) (s, add_mset p M) d"
  by (rule relpowp_Suc_I2) (auto intro: quiet_step.intros)

lemma start_run: "\<exists>s. (quiet_step ^^ 5) (NewServer 0, {#Start#}) (s, {#Serving#}) \<and> \<not> closed s"
proof -
  define t where "t = (NewServer 0)\<lparr>srv := True\<rparr>"
  let ?s = "t\<lparr>ready := True, state := serverRunning, serving := True\<rparr>"
  have one: "(quiet_step ^^ k) (s', {#q#}) d \<Longrightarrow> proceed p s = Some ([q], s') \<Longrightarrow> (quiet_step ^^ Suc k) (s, {#p#}) d" for p q s s' k d
    using quiet_next [of p s "[q]" s' k "{#}" d] by simp
  have "(quiet_step ^^ 0) (?s, {#Serving#}) (?s, {#Serving#})" by simp
  from one [OF this, of Serve "t\<lparr>ready := True, state := serverRunning\<rparr>"]
  have "(quiet_step ^^ Suc 0) (t\<lparr>ready := True, state := serverRunning\<rparr>, {#Serve#}) (?s, {#Serving#})" by (simp add: t_def NewServer_def)
  from one [OF this, of SetRunning "t\<lparr>ready := True\<rparr>"]
  have "(quiet_step ^^ Suc (Suc 0)) (t\<lparr>ready := True\<rparr>, {#SetRunning#}) (?s, {#Serving#})" by (simp del: relpowp.simps)
  from one [OF this, of Bound t] have "(quiet_step ^^ Suc (Suc (Suc 0))) (t, {#Bound#}) (?s, {#Serving#})" by (simp del: relpowp.simps)
  from one [OF this, of "Listen 0" t] have "(quiet_step ^^ Suc (Suc (Suc (Suc 0)))) (t, {#Listen 0#}) (?s, {#Serving#})"
    by (simp del: relpowp.simps)
  from one [OF this, of Start "NewServer 0"]
  have "(quiet_step ^^ Suc (Suc (Suc (Suc (Suc 0))))) (NewServer 0, {#Start#}) (?s, {#Serving#})"
    by (simp add: t_def NewServer_def del: relpowp.simps)
  moreover have "\<not> closed ?s" by (simp add: t_def NewServer_def)
  ultimately show ?thesis by (auto simp: numeral_eq_Suc simp del: relpowp.simps)
qed

theorem operations_complete_witness:
  "\<exists>s. (quiet_step ^^ 5) (NewServer 0, {#Start#}) (s, {#Serving#}) \<and> 5 \<le> work (NewServer 0, {#Start#}) \<and> \<not> pending s Serving"
proof -
  have r: "reachable True (NewServer 0, {#Start#})" using reachable_init [of True 0] by (simp add: init_def)
  obtain s where s: "(quiet_step ^^ 5) (NewServer 0, {#Start#}) (s, {#Serving#})" "\<not> closed s" using start_run by blast
  have "\<nexists>d. quiet_step (s, {#Serving#}) d" using s(2) by (auto elim!: quiet_step.cases)
  with operations_complete [OF r s(1)] s(1) show ?thesis by auto
qed

text \<open>Once a shutdown is complete, nobody is about to take the lead, so the mutex is free.\<close>

lemma done_unlocked:
  assumes "reachable False (s, M)" and "shutdownDone s"
  shows "\<not> runtimeMu s"
proof
  assume "runtimeMu s"
  then have "Leading \<in># M" using mutex_held [OF assms(1)] no_panic [OF assms(1)] by blast
  moreover have "(\<Sum>p \<in># M. moves p) = 0" using reachable_orderly [OF assms(1)] assms(2) by (auto simp: orderly_system_def)
  moreover have "moves Leading = 1" by (simp add: moves_def)
  ultimately show False by (metis add_eq_0_iff_both_eq_0 image_mset_add_mset multi_member_split sum_mset.add_mset zero_neq_one)
qed

text \<open>C18. A shutdown drains the server. If Shutdown is called only after Start has set the state, then once the call
  that owns the shutdown has completed it without error, and ever after: the server is stopped and not ready, no
  request is being handled, no prober of the last runtime is left, in whatever phase, and no call of Shutdown
  panics. (After a failure of Serve nobody owns a shutdown, and a call of Shutdown returns at once, see
  \<open>shutdown_after_failure\<close>; probers of a runtime that a reload has just built are stopped by the reload.)\<close>

theorem orderly_shutdown_drains:
  assumes "reachable False (s, M)" and "shutdownDone s" and "shutdownErr s = None"
  shows "state s = serverStopped \<and> readyz s = 503 \<and> active s = 0 \<and>
    (\<forall>p \<in># M. in_flight p = 0 \<and> probes_for (current s) p = 0 \<and> p \<noteq> ShutdownPanicked)"
proof -
  have "orderly_server s" using reachable_orderly [OF assms(1)] by (auto simp: orderly_system_def)
  then have d: "drained s" "\<not> ready s"
    using assms(2,3) done_unlocked [OF assms(1,2)] by (auto simp: orderly_server_def drained_def)
  have "in_flight p = 0" "probes_for (current s) p = 0" if "p \<in># M" for p
    using http.quantity_zero [OF assms(1) _ that] workers.quantity_zero [OF assms(1) _ that] d(1) by (auto simp: drained_def)
  then show ?thesis using d no_panic [OF assms(1)] by (auto simp: drained_def readyz_def)
qed

text \<open>C19. Readiness. If Shutdown is called only after Start has set the state, the readiness endpoint, which reads its
  flag without the mutex, answers 200 only while the server starts or runs, or at the one moment when a call of
  Shutdown holds the mutex and has stored the state but not yet the flag: never while the server drains or when
  it has stopped. The contexts of the requests are cancelled by force only while it drains or has stopped.\<close>

theorem ready_only_in_service:
  assumes "reachable False (s, M)"
  shows "(readyz s = 200 \<longrightarrow> state s \<in> {serverStarting, serverRunning} \<or> Leading \<in># M \<and> runtimeMu s) \<and>
    (forced s \<longrightarrow> state s \<in> {serverShuttingDown, serverStopped})"
  using reachable_orderly [OF assms] mutex_held [OF assms] no_panic [OF assms]
  by (auto simp: orderly_system_def orderly_server_def readyz_def split: if_splits)

lemma shutdown_run:
  "\<exists>s. exec False (started @ [NewRequest, Run 0, CallShutdown, Run 0, Run 0, Run 0, Run 1, Run 0, Run 0, Run 1, Run 0, Run 0, Run 0, Run 0])
      (NewServer 0, [Start]) = Some (s, [ShutdownReturned None, Served, Serving]) \<and> shutdownDone s \<and> shutdownErr s = None"
  by (simp add: started_def NewServer_def numeral_eq_Suc)

theorem orderly_shutdown_drains_witness:
  "\<exists>s. reachable False (s, mset [ShutdownReturned None, Served, Serving]) \<and> state s = serverStopped \<and> active s = 0"
proof -
  obtain s where s: "exec False (started @ [NewRequest, Run 0, CallShutdown, Run 0, Run 0, Run 0, Run 1, Run 0, Run 0, Run 1, Run 0, Run 0, Run 0, Run 0])
      (NewServer 0, [Start]) = Some (s, [ShutdownReturned None, Served, Serving])" "shutdownDone s" "shutdownErr s = None"
    using shutdown_run by blast
  have r: "reachable False (s, mset [ShutdownReturned None, Served, Serving])" using exec_init [OF s(1)] .
  from orderly_shutdown_drains [OF r s(2,3)] r show ?thesis by blast
qed

text \<open>A run in which the endpoint still answers 200 although a shutdown has begun.\<close>

lemma leading_run:
  "\<exists>s. exec False (started @ [CallShutdown, Run 0]) (NewServer 0, [Start]) = Some (s, [Leading, Serving]) \<and>
    readyz s = 200 \<and> state s = serverShuttingDown"
  by (simp add: started_def NewServer_def numeral_eq_Suc readyz_def)

theorem ready_only_in_service_witness:
  "\<exists>s. reachable False (s, mset [Leading, Serving]) \<and> readyz s = 200 \<and> runtimeMu s"
proof -
  obtain s where s: "exec False (started @ [CallShutdown, Run 0]) (NewServer 0, [Start]) = Some (s, [Leading, Serving])"
    "readyz s = 200" "state s = serverShuttingDown" using leading_run by blast
  have r: "reachable False (s, mset [Leading, Serving])" using exec_init [OF s(1)] .
  from ready_only_in_service [OF r] s(2,3) r show ?thesis by (intro exI [of _ s]) auto
qed

text \<open>After a failure of \<^verbatim>\<open>Serve\<close> a call of Shutdown returns without error although a request is being handled.\<close>

lemma shutdown_after_failure:
  "\<exists>s M. reachable False (s, M) \<and> ShutdownReturned None \<in># M \<and> Holding (current s) \<in># M"
proof -
  have "\<exists>s. exec False (started @ [NewRequest, Run 0, Run 0, Break 1 ''accept'', Run 0, CallShutdown, Run 0]) (NewServer 0, [Start]) =
      Some (s, [ShutdownReturned None, Stopping Cancel 0 (AfterError ''accept''), Holding 0]) \<and> current s = 0"
    by (simp add: started_def NewServer_def numeral_eq_Suc)
  then obtain s where "reachable False (s, mset [ShutdownReturned None, Stopping Cancel 0 (AfterError ''accept''), Holding 0])" "current s = 0"
    using exec_init by blast
  then show ?thesis by (intro exI conjI) auto
qed

section \<open>Shutting down a server that is starting\<close>

text \<open>Start stores the readiness and the state without looking at them: a call of Shutdown that comes before, and
  returns without error, is undone. The server then runs and is ready on a runtime whose probers have been
  cancelled, and the next call of Shutdown closes a closed channel and panics.\<close>

definition early_shutdown :: "event list" where
  "early_shutdown = [CallShutdown, Run 0, Run 0, Run 0, Run 0, Run 0, Run 0, Run 0, Run 1, Run 0, Run 0, Run 0, Run 0]"

lemma early_shutdown_run:
  "\<exists>s. exec True early_shutdown (NewServer 0, [Start]) = Some (s, [Serving, ShutdownReturned None]) \<and>
    state s = serverRunning \<and> ready s \<and> serving s \<and> cancelled s (current s)"
  by (simp add: early_shutdown_def NewServer_def numeral_eq_Suc)

text \<open>Start can undo a shutdown. There is a run in which a call of Shutdown has returned without error and the
  server is nevertheless running, ready and serving, on a runtime that has been stopped.\<close>

theorem start_undoes_shutdown:
  "\<exists>s M. reachable True (s, M) \<and> ShutdownReturned None \<in># M \<and> state s = serverRunning \<and> ready s \<and> serving s \<and> cancelled s (current s)"
proof -
  obtain s where s: "exec True early_shutdown (NewServer 0, [Start]) = Some (s, [Serving, ShutdownReturned None])"
    "state s = serverRunning \<and> ready s \<and> serving s \<and> cancelled s (current s)" using early_shutdown_run by blast
  have "reachable True (s, mset [Serving, ShutdownReturned None])" using exec_init [OF s(1)] .
  with s(2) show ?thesis by (intro exI conjI) auto
qed

lemma second_shutdown_panics: "\<exists>s M. reachable True (s, M) \<and> ShutdownPanicked \<in># M \<and> runtimeMu s"
proof -
  have "\<exists>s. exec True (early_shutdown @ [CallShutdown, Run 0, Run 0, Run 0, Run 0, Run 0, Run 0, Run 0, Run 0]) (NewServer 0, [Start]) =
      Some (s, [ShutdownPanicked, Serving, ShutdownReturned None]) \<and> runtimeMu s"
    by (simp add: early_shutdown_def NewServer_def numeral_eq_Suc)
  then obtain s where "reachable True (s, mset [ShutdownPanicked, Serving, ShutdownReturned None])" "runtimeMu s" using exec_init by blast
  then show ?thesis by (intro exI conjI) auto
qed

end
