(* ===== verification/Spec2Isabelle.thy ===== *)
theory Spec2Isabelle
  imports Pipeline Forward Gauge Watcher Server
begin

text \<open>
  \<^bold>\<open>Torus proxy: a verification development.\<close>

  The repository holds two programs. The proxy (Go, \<^verbatim>\<open>cmd/torus\<close> and \<^verbatim>\<open>internal/\<close>) routes HTTP requests by path
  prefix to services, balances each service over its backends, probes the health of the backends, and
  replaces its whole configuration at run time without dropping requests. The benchmark analysis (Python,
  \<^verbatim>\<open>docs/benchmarking/analysis/\<close>) turns the raw outputs of a benchmark of the proxy into statistics, plots and a
  Markdown report. The development models all seven Python files and the packages of the proxy.

  \<^bold>\<open>The analysis: theories and sources.\<close>

  \<^item> \<open>Prelude\<close>: results and exceptions, actions over a state that return or raise, Python dictionaries as
    association lists with the interface \<open>dictionary\<close>; the lemma collections.
  \<^item> \<open>Binary64\<close>, \<open>PyNum\<close>: Python's numbers. A float is the rational number it stands for and every operation rounds
    to 53 bits, ties to even; the exponent is not bounded, so overflow, underflow and the non-finite values are
    outside the model. \<open>binary64\<close> is the rounding of the full format, and \<open>binary64_fl\<close> the range in which it agrees with the
    model's; square roots are computed as the \<^verbatim>\<open>statistics\<close> module does. \<open>PyText\<close>, \<open>PyRegex\<close>, \<open>PyValue\<close>: the string methods, the
    fragment of regular expressions and the JSON values that the code uses.
  \<^item> \<open>Metrics\<close> (\<^verbatim>\<open>metrics.py\<close>): the statistics and the summaries of wrk and vegeta. Shown: percentiles interpolate the
    sorted sample within three roundings and the 50th is the median, for numbers of moderate size also in the full
    format; the mean lies within the extrema; summaries do not depend on the order of the runs; which
    inputs raise.
  \<^item> \<open>Parser\<close> (\<^verbatim>\<open>parser.py\<close>): the four parsers and the command. Shown: what the parsers of wrk's and
    vegeta's reports store, with the conversion of the units, the rows of the two tables, and which inputs raise.
  \<^item> \<open>Dataset\<close>: the dataset directory as a record of files; a figure is the log of the plotting calls.
    \<open>WrkPlots\<close>, \<open>VegetaPlots\<close>, \<open>SystemPlots\<close> (\<^verbatim>\<open>wrk_plots.py\<close>, \<^verbatim>\<open>vegeta_plots.py\<close>, \<^verbatim>\<open>system_plots.py\<close>): every plot function. Shown:
    exactly when they return, exactly which images they draw, that nothing else changes; the aggregation of
    runs of different length, the conservation of histogram counts, the round trip of a histogram file, the
    limits of an axis.
  \<^item> \<open>Analyze\<close> (\<^verbatim>\<open>analyze.py\<close>): the pipeline. The three plot modules meet the interface \<open>plotter\<close>; two plotters compose to
    one. Shown: the parsing of all runs, that the collected plot tree finds exactly the images, that a failed
    analysis leaves the summary alone, that a repeated analysis changes nothing.
  \<^item> \<open>Report\<close> (\<^verbatim>\<open>report_generator.py\<close>): the Markdown writer and every section. Shown: the accuracy of the printed numbers,
    the plot index, that the primary-metrics section never embeds an image.
  \<^item> \<open>Pipeline\<close>: the two commands together. Shown: the schema of the summary; on a dataset without old plots and with
    metadata that can be printed, whenever the analysis returns, the report generator returns and lists every image.

  \<^bold>\<open>The proxy: theories and sources.\<close>

  \<^item> \<open>Router\<close> (\<^verbatim>\<open>internal/routing\<close>): the scan of the routes in any iteration order of the Go map equals a walk down the
    prefixes of the path.
  \<^item> \<open>RoundRobin\<close> (\<^verbatim>\<open>internal/loadbalancer\<close>, \<^verbatim>\<open>internal/service\<close>, the health flag of \<^verbatim>\<open>internal/upstream\<close>): the counter is a 64-bit word. The
    interface \<open>load_balancer\<close> is interpreted by \<^verbatim>\<open>Next\<close>. The step relation \<open>call_step\<close> interleaves concurrent calls, and
    \<open>traffic_step\<close> adds the health checks, which change flags in between. Shown: a call alone returns the first healthy
    backend; calls are spread evenly over the backends that stay healthy, and how many concurrent calls can fail. The
    hypothesis that the counter does not wrap around is needed: see \<open>Next_wrap_misses\<close>.
  \<^item> \<open>Config\<close> (\<^verbatim>\<open>internal/config\<close>) and \<open>Runtime\<close> (\<^verbatim>\<open>internal/runtime/builder.go\<close> and the data path of \<^verbatim>\<open>httpHandler\<close>): validation, loading,
    building. Shown: exactly which configurations are accepted, and what a request is answered by a runtime that
    is built from an accepted configuration.
  \<^item> \<open>Health\<close> (\<^verbatim>\<open>internal/health\<close>): the HTTP check, the callbacks of the prober, and a runtime under any sequence of requests and
    checks. Shown: every response follows from the configuration and the last checks, if no service name has surrounding
    blanks. \<open>Gauge\<close>: the health gauge that
    \<^verbatim>\<open>SetHealthy\<close> keeps beside the flag. Shown: both say what the last check said.
  \<^item> \<open>Observability\<close> (\<^verbatim>\<open>internal/observability\<close>): the metrics as a record of counters, histograms and gauges. \<open>Headers\<close>: the header
    maps, hop-by-hop headers and addresses of Go's library. \<open>Forward\<close> (\<^verbatim>\<open>internal/middleware\<close>, \<^verbatim>\<open>internal/transport\<close>, \<^verbatim>\<open>internal/upstream\<close>
    and the whole of \<^verbatim>\<open>httpHandler\<close>): the path of a request through the logging middleware, the handler, the reverse proxy with
    \<^verbatim>\<open>Rewrite\<close> and the instrumented transport, and back through the response writers. A response whose body cannot be copied is aborted by a
    panic, which passes the deferred accounting but not the log entry. Shown: which request the backend receives and
    which status the client gets, and that metrics and log agree with what happened.
  \<^item> \<open>Manager\<close> (\<^verbatim>\<open>internal/reload\<close>) and \<open>Watcher\<close> (\<^verbatim>\<open>internal/configwatcher\<close>): loading and building on a reload, the debounce timer. The
    interface \<open>reload_manager\<close>, the Go interface \<^verbatim>\<open>ReloadManager\<close> with its laws, is interpreted by \<open>Manager_Reload\<close>; the watcher is
    verified against it, with edits, notifications, the timer and the life cycle of the server in any order. Shown: no edit
    of the configuration is lost whose reload comes while the server runs.
  \<^item> \<open>Server\<close> (\<^verbatim>\<open>internal/proxy/server.go\<close>, \<^verbatim>\<open>internal/runtime/runtime.go\<close>, the goroutine of \<^verbatim>\<open>internal/health\<close>): the shared state is a record,
    the goroutines are a multiset; one function per operation (\<open>request_action\<close>, \<open>prober_action\<close>, \<open>stop_action\<close>, \<open>Reload\<close>,
    \<open>shutdown_action\<close>, \<open>start_action\<close> and their faults) gives the next atomic action of a goroutine, \<open>proceed\<close> and \<open>fail\<close>
    choose among them; the mutex \<open>runtimeMu\<close> is a part of the state, and where a critical section is visible without it (the
    stores of Shutdown that the readiness endpoint reads) it is split into actions; \<open>sys_step\<close> interleaves the goroutines with arriving requests, reloads and shutdowns. The
    interface \<open>process_counter\<close> says that a quantity of the shared state counts goroutines; it is interpreted by both wait
    groups, by the mutex, by the active requests and by the ownership of runtimes. Shown: a retired runtime is never used
    again; there is no deadlock and every operation completes, unless a call of Shutdown panics, which takes a
    call before the start; a shutdown of a started server drains it; the readiness endpoint answers 200 only in service or
    between two stores of a Shutdown; and a shutdown of a starting server can be undone by the start.
  \<^item> This theory: a request end to end, from the configuration to the answer of the client.

  \<^bold>\<open>Bounds.\<close> All Python definitions are total functions; the recursion over plot trees terminates by their size. The Go
  loops are bounded by the pool, the map or the path. The hypothesis on pools, fewer than \<open>2 ^ 63\<close> backends, is that a
  length is a Go \<^verbatim>\<open>int\<close>. \<open>operations_complete\<close> bounds the length of a run by the sum of \<open>todo\<close> over its goroutines.

  \<^bold>\<open>Not modelled.\<close> What matplotlib draws; progress messages and the text of log messages; the text of a float or a
  container in a cell of the report. Of \<^verbatim>\<open>httputil.ReverseProxy\<close> and \<^verbatim>\<open>net/http\<close>: bodies, trailers, query strings and the cleaning of
  paths; of \<^verbatim>\<open>crypto/tls\<close> and Prometheus: everything behind their calls. Metrics of requests that run at the same time: the
  accounting is for requests one after the other, the interleavings of \<open>Server\<close> are about the life cycle. A crash of a process
  in the middle of an operation, e.g. between the truncation and the end of the writing of a file. The command-line programs, the shell scripts and the former TypeScript implementation under \<^verbatim>\<open>node/\<close>. Arguments of the model
  stand for the file contents, the YAML decoder, the URL parsers, the key-pair loader, the network, the clock and
  the generated identifiers.
\<close>

section \<open>From the configuration to the client\<close>

text \<open>C3. A request to the proxy, end to end. Let a runtime be built from a validated configuration in which no service
  name has surrounding blanks, and let any sequence of requests and health checks have happened one after the
  other, fewer than wrap a counter around. Consider a request of a TCP client that does not ask for a protocol with
  unprintable characters. If no configured route matches it is answered 404; if the last checks of all upstreams
  of the service of the longest matching route have failed, it is answered 503; in both cases nothing is sent.
  Else exactly one request is sent, to an upstream of this service whose last check has passed, with the headers of
  a proxied request, and the client gets its answer. Of the libraries it is assumed that the transport returns no
  informational response but 101 and that a generated identifier is not empty.\<close>

theorem request_end_to_end:
  assumes "Validate parse cfg = None" and "trimmed_names cfg" and "BuildRuntime load Parse cfg g = (Inr rt, g')"
    and "roomy cfg (Suc (length (filter is_request es)))" and "enumerates (order x) (routes (router rt))"
    and "current_rt p = handle_all es rt" and "reliable x" and "peer_address ip (RemoteAddr (request x))"
    and "printable (upgradeType (headers (request x)))" and "Handler target_of True x p = (status, aborted, p')"
  shows "case snd (longest_route (\<lambda>r. map_option Some (configured cfg r)) (urlPath (request x))) of
      None \<Rightarrow> status = 404 \<and> wire p' = wire p
    | Some name \<Rightarrow> \<exists>svc \<in> set (Services cfg). Name svc = name \<and>
        (if \<forall>j < length (Upstreams svc). \<not> last_verdict es name j then status = 503 \<and> wire p' = wire p
         else \<exists>j < length (Upstreams svc). \<exists>out. last_verdict es name j \<and>
           wire p' = wire p @ [(Upstreams svc ! j, out, network x out)] \<and> status = answer (network x out) \<and>
           proxied (target_of (Upstreams svc ! j)) (logged_id x) ip (request x) out)"
  using checks_decide [OF assms(1-5), of "urlPath (request x)"] request_path [OF assms(7,8,10)] assms(9)
  unfolding assms(6) by (fastforce simp: answers_by_checks_def split: option.splits if_splits)

text \<open>The first upstream has failed its check, so the request goes to the second one.\<close>

theorem request_end_to_end_witness:
  "\<exists>status aborted p' out. Handler demo_target True (demo_exchange demo_headers (Inr 200))
       (demo_proxy\<lparr>current_rt := handle_all [Checked ''api'' 0 (Some (StatusError 500))] (demo_runtime ''api'' ''api'')\<rparr>) = (status, aborted, p') \<and>
     wire p' = [(''http://b:82'', out, Inr 200)] \<and> status = 200"
proof -
  let ?es = "[Checked ''api'' 0 (Some (StatusError 500))]"
  let ?x = "demo_exchange demo_headers (Inr 200)"
  let ?p = "demo_proxy\<lparr>current_rt := handle_all ?es (demo_runtime ''api'' ''api'')\<rparr>"
  obtain status aborted p' where h: "Handler demo_target True ?x ?p = (status, aborted, p')" by (metis prod_cases3)
  have v: "Validate demo_parser (demo_config ''api'' ''api'') = None" "trimmed_names (demo_config ''api'' ''api'')" by code_simp+
  have roomy: "roomy (demo_config ''api'' ''api'') (Suc (length (filter is_request ?es)))" by (simp add: roomy_def demo_config_def)
  have "enumerates [''/api''] (routes (router (demo_runtime ''api'' ''api'')))"
    by (simp add: enumerates_def BuildRuntime_def demo_config_def demo_parser_def NewBackend_def Let_def AddRoute_def NewRouter_def)
  then have e: "enumerates (order ?x) (routes (router (demo_runtime ''api'' ''api'')))" by simp
  have rel: "reliable ?x" by (rule demo_reliable [of _ _ 0]) simp
  have pr: "printable (upgradeType (headers (request ?x)))" unfolding demo_simps by code_simp
  have peer: "peer_address ''2001:db8::1'' (RemoteAddr (request ?x))" unfolding demo_simps by (rule demo_peer)
  have route: "snd (longest_route (\<lambda>r. map_option Some (configured (demo_config ''api'' ''api'') r)) (urlPath (request ?x))) = Some ''api''"
    unfolding demo_simps by code_simp
  have rt: "current_rt ?p = handle_all ?es (demo_runtime ''api'' ''api'')" by simp
  have verdicts: "last_verdict ?es ''api'' 1" "\<not> last_verdict ?es ''api'' 0" by (simp_all add: last_verdict_def)
  obtain svc where svc: "svc \<in> set (Services (demo_config ''api'' ''api''))"
    "if \<forall>j < length (Upstreams svc). \<not> last_verdict ?es ''api'' j then status = 503 \<and> wire p' = wire ?p
     else \<exists>j < length (Upstreams svc). \<exists>out. last_verdict ?es ''api'' j \<and>
       wire p' = wire ?p @ [(Upstreams svc ! j, out, network ?x out)] \<and> status = answer (network ?x out) \<and>
       proxied (demo_target (Upstreams svc ! j)) (logged_id ?x) ''2001:db8::1'' (request ?x) out"
    using request_end_to_end [OF v demo_build roomy e rt rel peer pr h, unfolded route option.case] by blast
  have us: "Upstreams svc = [''http://a:81'', ''http://b:82'']" using svc(1) by (simp add: demo_config_def)
  have two: "(j < length (Upstreams svc)) = (j = 0 \<or> j = 1)" for j by (auto simp: us)
  have "wire ?p = []" by (simp add: demo_proxy_def)
  with svc(2) verdicts us h show ?thesis unfolding two by (auto simp: demo_simps)
qed

end
